(* ===== verification/Heap_Prelude.thy ===== *)
theory Heap_Prelude
  imports Main "HOL-Library.Word"
begin

text \<open>
  Shared vocabulary of the development: the machine types of the Rust sources, programs
  that mutate a state and may panic or not return, the weakest-precondition calculus in which
  the component proofs are carried out, the interface of a codec, and the generic lemmas on
  words and lists the components share.
\<close>

unbundle bit_operations_syntax

named_theorems wp_rules \<open>rewrite rules of the total-correctness weakest precondition\<close>

section \<open>Machine types\<close>

type_synonym u8 = "8 word"
type_synonym u16 = "16 word"
type_synonym u32 = "32 word"
type_synonym u64 = "64 word"
type_synonym bytes = "8 word list"

text \<open>
  A Rust \<open>i64\<close> is an \<open>int\<close> in its range; \<open>i64\<close> brings a result back into the range the
  way release builds do (two's complement wrap-around).
\<close>

definition i64 :: "int \<Rightarrow> int" where
  "i64 x = signed_take_bit 63 x"

definition i64_min :: int where "i64_min = - (2 ^ 63)"
definition i64_max :: int where "i64_max = 2 ^ 63 - 1"

section \<open>Programs: state, panics, non-termination\<close>

text \<open>
  A Rust function that mutates the state \<open>'s\<close> is a function from the state to the outcome and
  the state it leaves behind. \<open>Panic\<close> is an unwinding panic, which keeps every mutation done
  before it; \<open>None\<close> is a run that does not return (a statement loop over an engine that
  produces rows for ever).
\<close>

datatype 'a res = Ok 'a | Panic string

type_synonym ('s, 'a) prog = "'s \<Rightarrow> ('a res \<times> 's) option"

definition ret :: "'a \<Rightarrow> ('s, 'a) prog" where
  "ret x = (\<lambda>s. Some (Ok x, s))"

definition panic :: "string \<Rightarrow> ('s, 'a) prog" where
  "panic msg = (\<lambda>s. Some (Panic msg, s))"

definition bindE :: "('s, 'a) prog \<Rightarrow> ('a \<Rightarrow> ('s, 'b) prog) \<Rightarrow> ('s, 'b) prog" where
  "bindE m f = (\<lambda>s. case m s of
      None \<Rightarrow> None
    | Some (r, s') \<Rightarrow> (case r of Panic e \<Rightarrow> Some (Panic e, s') | Ok x \<Rightarrow> f x s'))"

definition seqE :: "('s, 'a) prog \<Rightarrow> ('s, 'b) prog \<Rightarrow> ('s, 'b) prog" where
  "seqE m n = bindE m (\<lambda>_. n)"

definition getE :: "('s \<Rightarrow> 'a) \<Rightarrow> ('s, 'a) prog" where
  "getE f = (\<lambda>s. Some (Ok (f s), s))"

definition modE :: "('s \<Rightarrow> 's) \<Rightarrow> ('s, unit) prog" where
  "modE f = (\<lambda>s. Some (Ok (), f s))"

definition callE :: "('s \<Rightarrow> 'a \<times> 's) \<Rightarrow> ('s, 'a) prog" where
  "callE f = (\<lambda>s. Some (Ok (fst (f s)), snd (f s)))"

fun forE :: "'a list \<Rightarrow> ('a \<Rightarrow> ('s, unit) prog) \<Rightarrow> ('s, unit) prog" where
  "forE [] f = ret ()"
| "forE (x # xs) f = seqE (f x) (forE xs f)"

text \<open>Total correctness: the program returns normally and the result satisfies \<open>Q\<close>.\<close>

definition wp :: "('s, 'a) prog \<Rightarrow> ('a \<Rightarrow> 's \<Rightarrow> bool) \<Rightarrow> 's \<Rightarrow> bool" where
  "wp m Q s \<longleftrightarrow> (\<exists>x s'. m s = Some (Ok x, s') \<and> Q x s')"

section \<open>Little-endian bytes\<close>

definition to_le_bytes :: "u32 \<Rightarrow> bytes" where
  "to_le_bytes x = [ucast x, ucast (drop_bit 8 x), ucast (drop_bit 16 x), ucast (drop_bit 24 x)]"

fun from_le_bytes :: "bytes \<Rightarrow> u32 option" where
  "from_le_bytes [a, b, c, d] =
     Some (ucast a OR push_bit 8 (ucast b) OR push_bit 16 (ucast c) OR push_bit 24 (ucast d))"
| "from_le_bytes _ = None"

section \<open>Codecs\<close>

text \<open>An encoding into a representation that is decoded without loss on the values \<open>ok\<close>.\<close>

locale codec =
  fixes enc :: "'a \<Rightarrow> 'b" and dec :: "'b \<Rightarrow> 'a option" and ok :: "'a \<Rightarrow> bool"
  assumes dec_enc: "ok x \<Longrightarrow> dec (enc x) = Some x"
begin

lemma enc_inj: "ok x \<Longrightarrow> ok y \<Longrightarrow> enc x = enc y \<longleftrightarrow> x = y"
  using dec_enc by (metis option.inject)

lemma enc_inj_on: "inj_on enc {x. ok x}"
  by (rule inj_onI) (simp add: enc_inj)

lemma distinct_enc: "(\<forall>x \<in> set xs. ok x) \<Longrightarrow> distinct (map enc xs) = distinct xs"
  by (induction xs) (auto simp: enc_inj)

end

section \<open>Weakest preconditions\<close>

lemma wp_ret [wp_rules]: "wp (ret x) Q = Q x"
  by (simp add: fun_eq_iff wp_def ret_def)

lemma wp_panic [wp_rules]: "wp (panic e) Q = (\<lambda>_. False)"
  by (simp add: fun_eq_iff wp_def panic_def)

lemma wp_bindE [wp_rules]: "wp (bindE m f) Q = wp m (\<lambda>x. wp (f x) Q)"
  by (auto simp: fun_eq_iff wp_def bindE_def split: option.splits res.splits prod.splits)

lemma wp_seqE [wp_rules]: "wp (seqE m n) Q = wp m (\<lambda>_. wp n Q)"
  by (simp add: seqE_def wp_bindE)

lemma wp_getE [wp_rules]: "wp (getE f) Q = (\<lambda>s. Q (f s) s)"
  by (simp add: fun_eq_iff wp_def getE_def)

lemma wp_modE [wp_rules]: "wp (modE f) Q = (\<lambda>s. Q () (f s))"
  by (simp add: fun_eq_iff wp_def modE_def)

lemma wp_callE [wp_rules]: "wp (callE f) Q = (\<lambda>s. Q (fst (f s)) (snd (f s)))"
  by (simp add: fun_eq_iff wp_def callE_def)

lemma wp_if [wp_rules]: "wp (if b then m else n) Q = (if b then wp m Q else wp n Q)"
  by simp

lemma wp_mono: "wp m Q s \<Longrightarrow> (\<And>x s'. Q x s' \<Longrightarrow> R x s') \<Longrightarrow> wp m R s"
  by (auto simp: wp_def)

lemma wpB: "wp m P s \<Longrightarrow> (\<And>x s'. P x s' \<Longrightarrow> wp (f x) Q s') \<Longrightarrow> wp (bindE m f) Q s"
  unfolding wp_bindE by (rule wp_mono)

lemma wpS: "wp m P s \<Longrightarrow> (\<And>x s'. P x s' \<Longrightarrow> wp n Q s') \<Longrightarrow> wp (seqE m n) Q s"
  unfolding wp_seqE by (rule wp_mono)

lemma wp_returns: "wp m Q s \<longleftrightarrow> (\<exists>x s'. m s = Some (Ok x, s') \<and> Q x s')"
  by (simp add: wp_def)

lemma bindE_assoc: "bindE (bindE m f) g = bindE m (\<lambda>x. bindE (f x) g)"
  by (auto simp: bindE_def fun_eq_iff split: option.splits res.splits)

lemma bindE_ret [simp]: "bindE (ret x) f = f x"
  by (simp add: bindE_def ret_def fun_eq_iff)

lemma seqE_assoc: "seqE (seqE m n) k = seqE m (seqE n k)"
  by (auto simp: seqE_def bindE_def fun_eq_iff split: option.splits res.splits)

lemma seqE_ret [simp]: "seqE (ret x) m = m" "seqE m (ret ()) = m"
  by (auto simp: seqE_def bindE_def ret_def fun_eq_iff split: option.splits res.splits)

lemma forE_snoc: "forE (xs @ [x]) f = seqE (forE xs f) (f x)"
  by (induction xs) (simp_all add: seqE_assoc)

lemma wp_forE_invariant:
  assumes "I s" and "\<And>x s. x \<in> set xs \<Longrightarrow> I s \<Longrightarrow> wp (f x) (\<lambda>_. I) s"
  shows "wp (forE xs f) (\<lambda>_. I) s"
  using assms
proof (induction xs arbitrary: s)
  case Nil
  then show ?case by (simp add: wp_ret)
next
  case (Cons x xs)
  then have "wp (f x) (\<lambda>_. I) s" by simp
  then have "wp (f x) (\<lambda>_. wp (forE xs f) (\<lambda>_. I)) s"
    by (rule wp_mono) (rule Cons.IH, auto intro: Cons.prems)
  then show ?case by (simp add: wp_seqE)
qed

section \<open>Words and bytes\<close>

lemma length_to_le_bytes [simp]: "length (to_le_bytes x) = 4"
  by (simp add: to_le_bytes_def)

lemma from_le_bytes_to_le_bytes [simp]: "from_le_bytes (to_le_bytes x) = Some x"
proof -
  have "bit (ucast (ucast x :: u8) OR push_bit 8 (ucast (ucast (drop_bit 8 x) :: u8))
      OR push_bit 16 (ucast (ucast (drop_bit 16 x) :: u8))
      OR push_bit 24 (ucast (ucast (drop_bit 24 x) :: u8)) :: u32) n = bit x n" if "n < 32" for n
    using that
    by (cases "n < 8"; cases "n < 16"; cases "n < 24")
      (auto simp: bit_or_iff bit_push_bit_iff bit_ucast_iff bit_drop_bit_eq)
  then show ?thesis
    by (simp add: to_le_bytes_def, intro bit_word_eqI) simp
qed

interpretation le_codec: codec to_le_bytes from_le_bytes "\<lambda>_. True"
  by unfold_locales simp

lemma uint_ucast_up:
  "LENGTH('a) \<le> LENGTH('b) \<Longrightarrow> uint (ucast (x :: 'a :: len word) :: 'b :: len word) = uint x"
proof -
  assume le: "LENGTH('a) \<le> LENGTH('b)"
  have "uint x < 2 ^ LENGTH('a)" by (rule uint_bounded)
  also have "(2 :: int) ^ LENGTH('a) \<le> 2 ^ LENGTH('b)" using le by simp
  finally show ?thesis by (simp add: unsigned_ucast_eq take_bit_int_eq_self_iff)
qed

lemma ucast_up_inj:
  "LENGTH('a) \<le> LENGTH('b) \<Longrightarrow>
    (ucast (x :: 'a :: len word) :: 'b :: len word) = ucast y \<longleftrightarrow> x = y"
  by (metis uint_ucast_up word_uint_eq_iff)

lemma uint_word_of_int_small:
  "0 \<le> k \<Longrightarrow> k < 2 ^ LENGTH('a) \<Longrightarrow> uint (word_of_int k :: 'a :: len word) = k"
  by (simp add: uint_word_of_int)

lemma word_of_int_sint_u32 [simp]: "(word_of_int (sint (x :: u32)) :: u32) = x"
  by simp

lemma i64_id: "i64_min \<le> x \<Longrightarrow> x \<le> i64_max \<Longrightarrow> i64 x = x"
  by (simp add: i64_def i64_min_def i64_max_def signed_take_bit_int_eq_self)

end
