(* ===== verification/Tuple_Ffi.thy ===== *)
theory Tuple_Ffi
  imports Heap_Prelude "HOL-Library.Signed_Division"
begin

text \<open>
  Marshalling between Postgres and the store (\<open>src/ffi.rs\<close>), with the row types of
  \<open>src/sqlite.rs\<close> it moves: tuple identifiers, heap tuples with the MVCC header written over
  their first bytes, and tuple slots. The executor's slot functions are Postgres code: they are
  the parameter \<open>slot_api\<close>, and what the callbacks rely on is the locale \<open>slot_laws\<close>.
\<close>

section \<open>Stored rows\<close>

record StoredHeader =
  rowid :: int
  xmin :: u32
  cmin :: u32
  xmax :: u32
  cmax :: u32

record StoredRow =
  header :: StoredHeader
  tuple :: bytes

section \<open>Tuple identifiers\<close>

record ItemPointerData =
  ip_blkid :: u32
  ip_posid :: u16

definition TIDS_PER_BLOCK :: int where "TIDS_PER_BLOCK = 256"

definition tid_to_rowid :: "ItemPointerData \<Rightarrow> int" where
  "tid_to_rowid tid = i64 (i64 (uint (ip_blkid tid) * TIDS_PER_BLOCK) + uint (ip_posid tid))"

definition rowid_to_tid :: "int \<Rightarrow> ItemPointerData" where
  "rowid_to_tid rid =
     \<lparr>ip_blkid = word_of_int (i64 (rid - 1) sdiv TIDS_PER_BLOCK),
      ip_posid = word_of_int (i64 (i64 (rid - 1) smod TIDS_PER_BLOCK + 1))\<rparr>"

text \<open>Postgres's order on item pointers: the block number first, then the offset.\<close>

definition tid_le :: "ItemPointerData \<Rightarrow> ItemPointerData \<Rightarrow> bool" where
  "tid_le a b \<longleftrightarrow> ip_blkid a < ip_blkid b \<or> ip_blkid a = ip_blkid b \<and> ip_posid a \<le> ip_posid b"

definition rowid_ok :: "int \<Rightarrow> bool" where
  "rowid_ok r \<longleftrightarrow> 1 \<le> r \<and> r \<le> 2 ^ 40"

definition tid_ok :: "ItemPointerData \<Rightarrow> bool" where
  "tid_ok t \<longleftrightarrow> 1 \<le> ip_posid t \<and> ip_posid t \<le> 256"

section \<open>Heap tuples\<close>

record HeapTupleData =
  t_len :: u32
  t_self :: ItemPointerData
  t_tableOid :: u32
  t_data :: bytes

definition build_heap_tuple :: "u32 \<Rightarrow> int \<Rightarrow> bytes \<Rightarrow> HeapTupleData" where
  "build_heap_tuple rel rid bs =
     \<lparr>t_len = of_nat (length bs), t_self = rowid_to_tid rid, t_tableOid = rel, t_data = bs\<rparr>"

text \<open>
  The header fields \<open>t_xmin\<close>, \<open>t_xmax\<close> and \<open>t_cid\<close> of \<open>HeapTupleHeaderData\<close> are its
  first three 32-bit words, in the machine's (little-endian) order.
\<close>

definition overlay_header :: "u32 \<Rightarrow> u32 \<Rightarrow> u32 \<Rightarrow> bytes \<Rightarrow> bytes" where
  "overlay_header xn xx cid bs =
     to_le_bytes xn @ to_le_bytes xx @ to_le_bytes cid @ drop 12 bs"

definition build_heap_tuple_from_parts ::
    "u32 \<Rightarrow> StoredHeader \<Rightarrow> bytes \<Rightarrow> HeapTupleData" where
  "build_heap_tuple_from_parts rel h bs =
     (let tup = build_heap_tuple rel (rowid h) bs
      in tup\<lparr>t_data := overlay_header (xmin h) (xmax h) (cmin h) (t_data tup)\<rparr>)"

text \<open>What Postgres reads back from a tuple's header.\<close>

definition tuple_xmin :: "HeapTupleData \<Rightarrow> u32 option" where
  "tuple_xmin t = from_le_bytes (take 4 (t_data t))"

definition tuple_xmax :: "HeapTupleData \<Rightarrow> u32 option" where
  "tuple_xmax t = from_le_bytes (take 4 (drop 4 (t_data t)))"

definition tuple_cid :: "HeapTupleData \<Rightarrow> u32 option" where
  "tuple_cid t = from_le_bytes (take 4 (drop 8 (t_data t)))"

section \<open>Slots\<close>

record 'b slot =
  tts_tableOid :: u32
  tts_tid :: ItemPointerData
  tts_body :: 'b

record 'b slot_api =
  ExecClearTuple :: "'b slot \<Rightarrow> 'b slot"
  ExecStoreHeapTuple :: "HeapTupleData \<Rightarrow> 'b slot \<Rightarrow> 'b slot"
  ExecCopySlotHeapTuple :: "'b slot \<Rightarrow> HeapTupleData"

definition slot_clear :: "'b slot_api \<Rightarrow> 'b slot \<Rightarrow> 'b slot" where
  "slot_clear x sl = ExecClearTuple x sl"

text \<open>The bytes of the owned copy: \<open>t_len\<close> bytes from \<open>t_data\<close>.\<close>

definition copy_heap_tuple :: "'b slot_api \<Rightarrow> 'b slot \<Rightarrow> bytes" where
  "copy_heap_tuple x sl = (let tup = ExecCopySlotHeapTuple x sl in take (unat (t_len tup)) (t_data tup))"

definition store_row :: "'b slot_api \<Rightarrow> u32 \<Rightarrow> StoredRow \<Rightarrow> 'b slot \<Rightarrow> 'b slot" where
  "store_row x rel row sl =
     ExecStoreHeapTuple x (build_heap_tuple_from_parts rel (header row) (tuple row)) sl"

definition store_parts :: "'b slot_api \<Rightarrow> u32 \<Rightarrow> StoredHeader \<Rightarrow> bytes \<Rightarrow> 'b slot \<Rightarrow> 'b slot" where
  "store_parts x rel h bs sl = ExecStoreHeapTuple x (build_heap_tuple_from_parts rel h bs) sl"

definition set_inserted_tid :: "u32 \<Rightarrow> int \<Rightarrow> 'b slot \<Rightarrow> 'b slot" where
  "set_inserted_tid rel rid sl = sl\<lparr>tts_tableOid := rel, tts_tid := rowid_to_tid rid\<rparr>"

text \<open>
  The documented effect of the executor's slot functions: a stored heap tuple gives the slot
  its identity, and copying the slot gives the tuple's bytes back.
\<close>

locale slot_laws =
  fixes x :: "'b slot_api"
  assumes store_tid: "tts_tid (ExecStoreHeapTuple x t sl) = t_self t"
    and store_oid: "tts_tableOid (ExecStoreHeapTuple x t sl) = t_tableOid t"
    and copy_store: "ExecCopySlotHeapTuple x (ExecStoreHeapTuple x t sl) = t"

text \<open>A slot whose body is the stored heap tuple, as \<open>TTSOpsHeapTuple\<close> keeps it.\<close>

definition heap_slots :: "HeapTupleData option slot_api" where
  "heap_slots =
     \<lparr>ExecClearTuple = (\<lambda>sl. sl\<lparr>tts_body := None\<rparr>),
      ExecStoreHeapTuple = (\<lambda>t sl. \<lparr>tts_tableOid = t_tableOid t, tts_tid = t_self t, tts_body = Some t\<rparr>),
      ExecCopySlotHeapTuple = (\<lambda>sl. case tts_body sl of Some t \<Rightarrow> t
         | None \<Rightarrow> \<lparr>t_len = 0, t_self = tts_tid sl, t_tableOid = tts_tableOid sl, t_data = []\<rparr>)\<rparr>"

interpretation heap_slots: slot_laws heap_slots
  by unfold_locales (simp_all add: heap_slots_def)

section \<open>Rowid and TID correspond\<close>

lemma i64_small: "\<bar>r\<bar> < 2 ^ 62 \<Longrightarrow> i64 r = r"
  by (rule i64_id) (auto simp: i64_min_def i64_max_def abs_less_iff)

lemma tid_to_rowid_eq:
  "tid_to_rowid t = uint (ip_blkid t) * 256 + uint (ip_posid t)"
proof -
  have "uint (ip_blkid t) < 2 ^ 32" "uint (ip_posid t) < 2 ^ 16"
    using uint_bounded [of "ip_blkid t"] uint_bounded [of "ip_posid t"] by simp_all
  moreover have "0 \<le> uint (ip_blkid t)" "0 \<le> uint (ip_posid t)" by simp_all
  ultimately show ?thesis
    by (simp add: tid_to_rowid_def TIDS_PER_BLOCK_def i64_small)
qed

lemma rowid_to_tid_parts:
  assumes "rowid_ok r"
  shows "uint (ip_blkid (rowid_to_tid r)) = (r - 1) div 256"
    and "uint (ip_posid (rowid_to_tid r)) = (r - 1) mod 256 + 1"
proof -
  from assms have r: "0 \<le> r - 1" "r - 1 < 2 ^ 40" by (auto simp: rowid_ok_def)
  then have "i64 (r - 1) = r - 1" by (intro i64_small) auto
  moreover have "(r - 1) sdiv 256 = (r - 1) div 256" "(r - 1) smod 256 = (r - 1) mod 256"
    using r by (simp_all add: signed_divide_int_def signed_modulo_int_def sgn_if minus_div_mult_eq_mod)
  moreover have "i64 ((r - 1) mod 256 + 1) = (r - 1) mod 256 + 1"
    by (intro i64_small) (use pos_mod_bound [of 256 "r - 1"] pos_mod_sign [of 256 "r - 1"] in auto)
  moreover have "uint (word_of_int ((r - 1) div 256) :: u32) = (r - 1) div 256"
    using r by (intro uint_word_of_int_small) auto
  moreover have "uint (word_of_int ((r - 1) mod 256 + 1) :: u16) = (r - 1) mod 256 + 1"
    by (intro uint_word_of_int_small)
      (use pos_mod_bound [of 256 "r - 1"] pos_mod_sign [of 256 "r - 1"] in auto)
  ultimately show "uint (ip_blkid (rowid_to_tid r)) = (r - 1) div 256"
    and "uint (ip_posid (rowid_to_tid r)) = (r - 1) mod 256 + 1"
    by (simp_all add: rowid_to_tid_def TIDS_PER_BLOCK_def)
qed

lemma tid_to_rowid_to_tid: "rowid_ok r \<Longrightarrow> tid_to_rowid (rowid_to_tid r) = r"
  by (simp add: tid_to_rowid_eq rowid_to_tid_parts)

lemma tid_ok_rowid_to_tid: "rowid_ok r \<Longrightarrow> tid_ok (rowid_to_tid r)"
  using rowid_to_tid_parts [of r] pos_mod_bound [of 256 "r - 1"] pos_mod_sign [of 256 "r - 1"]
  by (simp add: tid_ok_def word_le_def)

lemma tid_ok_bounds: "tid_ok t \<longleftrightarrow> 1 \<le> uint (ip_posid t) \<and> uint (ip_posid t) \<le> 256"
  by (simp add: tid_ok_def word_le_def)

lemma rowid_ok_tid_to_rowid:
  assumes "tid_ok t" shows "rowid_ok (tid_to_rowid t)"
proof -
  have "0 \<le> uint (ip_blkid t)" "uint (ip_blkid t) < 4294967296"
    using uint_bounded [of "ip_blkid t"] by simp_all
  moreover have "1 \<le> uint (ip_posid t)" "uint (ip_posid t) \<le> 256"
    using assms by (simp_all add: tid_ok_bounds)
  ultimately have "1 \<le> uint (ip_blkid t) * 256 + uint (ip_posid t)"
    "uint (ip_blkid t) * 256 + uint (ip_posid t) \<le> 1099511627776" by linarith+
  then show ?thesis by (simp add: rowid_ok_def tid_to_rowid_eq)
qed

lemma rowid_to_tid_to_rowid:
  assumes "tid_ok t" shows "rowid_to_tid (tid_to_rowid t) = t"
proof -
  let ?r = "tid_to_rowid t"
  have r: "rowid_ok ?r" using assms by (rule rowid_ok_tid_to_rowid)
  have p: "1 \<le> uint (ip_posid t)" "uint (ip_posid t) \<le> 256" using assms by (simp_all add: tid_ok_bounds)
  have e: "?r - 1 = uint (ip_blkid t) * 256 + (uint (ip_posid t) - 1)" by (simp add: tid_to_rowid_eq)
  have "uint (ip_blkid (rowid_to_tid ?r)) = uint (ip_blkid t)"
    using p unfolding rowid_to_tid_parts(1) [OF r] e by (simp add: div_mult_self3)
  moreover have "uint (ip_posid (rowid_to_tid ?r)) = uint (ip_posid t)"
    using p unfolding rowid_to_tid_parts(2) [OF r] e by simp
  ultimately show ?thesis by (simp add: word_uint_eq_iff)
qed

text \<open>On identifiers the table produces, the order of TIDs is the order of rowids.\<close>

lemma tid_le_rowid:
  assumes "tid_ok a" and "tid_ok b"
  shows "tid_le a b \<longleftrightarrow> tid_to_rowid a \<le> tid_to_rowid b"
  using assms unfolding tid_ok_bounds tid_le_def tid_to_rowid_eq word_le_def word_less_def
    word_uint_eq_iff [of "ip_blkid a"] by auto

interpretation tid_codec: codec rowid_to_tid "\<lambda>t. Some (tid_to_rowid t)" rowid_ok
  by unfold_locales (simp add: tid_to_rowid_to_tid)

interpretation rowid_codec: codec tid_to_rowid "\<lambda>r. Some (rowid_to_tid r)" tid_ok
  by unfold_locales (simp add: rowid_to_tid_to_rowid)

section \<open>The header Postgres sees\<close>

lemma tuple_header_overlay:
  "tuple_xmin (build_heap_tuple_from_parts rel h bs) = Some (xmin h)"
  "tuple_xmax (build_heap_tuple_from_parts rel h bs) = Some (xmax h)"
  "tuple_cid (build_heap_tuple_from_parts rel h bs) = Some (cmin h)"
  by (simp_all add: tuple_xmin_def tuple_xmax_def tuple_cid_def build_heap_tuple_from_parts_def
      build_heap_tuple_def overlay_header_def)

lemma build_heap_tuple_from_parts_simps [simp]:
  "t_self (build_heap_tuple_from_parts rel h bs) = rowid_to_tid (rowid h)"
  "t_tableOid (build_heap_tuple_from_parts rel h bs) = rel"
  "t_len (build_heap_tuple_from_parts rel h bs) = of_nat (length bs)"
  by (simp_all add: build_heap_tuple_from_parts_def build_heap_tuple_def)

lemma build_heap_tuple_payload:
  "drop 12 (t_data (build_heap_tuple_from_parts rel h bs)) = drop 12 bs"
  by (simp add: build_heap_tuple_from_parts_def build_heap_tuple_def overlay_header_def)

lemma build_heap_tuple_length:
  "12 \<le> length bs \<Longrightarrow> length (t_data (build_heap_tuple_from_parts rel h bs)) = length bs"
  by (simp add: build_heap_tuple_from_parts_def build_heap_tuple_def overlay_header_def)

end
