(* ===== verification/Sql_Engine.thy ===== *)
theory Sql_Engine
  imports Tuple_Ffi
begin

text \<open>
  The outside of the storage layer. \<open>src/sqlite.rs\<close> talks to the SQLite C library, to the file
  system and to the Postgres process; none of them is part of the repository, so they are
  the parameter \<open>'w host\<close>, a record of the functions the sources call over a world \<open>'w\<close>.
  What the sources rely on is the locale \<open>sqlite_engine\<close>: seen through an abstraction
  \<open>view\<close>, each call has the documented effect on tables, transactions, savepoints and
  prepared statements. The effect is written for the SQL texts the sources issue
  (\<open>parse_sql\<close>); nothing is said about other texts, or about an engine that is not
  \<open>up\<close> (disk errors, lock contention).
\<close>

section \<open>The interface\<close>

type_synonym dbp = nat
type_synonym stp = nat

definition SQLITE_OK :: int where "SQLITE_OK = 0"
definition SQLITE_ROW :: int where "SQLITE_ROW = 100"
definition SQLITE_DONE :: int where "SQLITE_DONE = 101"

record 'w host =
  sqlite3_open_v2 :: "string \<Rightarrow> 'w \<Rightarrow> (int \<times> dbp option) \<times> 'w"
  sqlite3_close :: "dbp \<Rightarrow> 'w \<Rightarrow> 'w"
  sqlite3_errmsg :: "dbp \<Rightarrow> 'w \<Rightarrow> string"
  sqlite3_exec :: "dbp \<Rightarrow> string \<Rightarrow> 'w \<Rightarrow> (int \<times> string option) \<times> 'w"
  sqlite3_prepare_v2 :: "dbp \<Rightarrow> string \<Rightarrow> 'w \<Rightarrow> (int \<times> stp) \<times> 'w"
  sqlite3_finalize :: "stp \<Rightarrow> 'w \<Rightarrow> 'w"
  sqlite3_reset :: "stp \<Rightarrow> 'w \<Rightarrow> 'w"
  sqlite3_clear_bindings :: "stp \<Rightarrow> 'w \<Rightarrow> 'w"
  sqlite3_bind_int :: "stp \<Rightarrow> nat \<Rightarrow> u32 \<Rightarrow> 'w \<Rightarrow> 'w"
  sqlite3_bind_int64 :: "stp \<Rightarrow> nat \<Rightarrow> int \<Rightarrow> 'w \<Rightarrow> 'w"
  sqlite3_bind_blob :: "stp \<Rightarrow> nat \<Rightarrow> bytes \<Rightarrow> 'w \<Rightarrow> int \<times> 'w"
  sqlite3_bind_text :: "stp \<Rightarrow> nat \<Rightarrow> string \<Rightarrow> 'w \<Rightarrow> int \<times> 'w"
  sqlite3_step :: "stp \<Rightarrow> 'w \<Rightarrow> int \<times> 'w"
  sqlite3_column_int :: "stp \<Rightarrow> nat \<Rightarrow> 'w \<Rightarrow> u32"
  sqlite3_column_int64 :: "stp \<Rightarrow> nat \<Rightarrow> 'w \<Rightarrow> int"
  sqlite3_column_bytes :: "stp \<Rightarrow> nat \<Rightarrow> 'w \<Rightarrow> int"
  sqlite3_column_blob :: "stp \<Rightarrow> nat \<Rightarrow> 'w \<Rightarrow> bytes"
  sqlite3_last_insert_rowid :: "dbp \<Rightarrow> 'w \<Rightarrow> int"
  sqlite3_changes :: "dbp \<Rightarrow> 'w \<Rightarrow> nat"
  fs_create_dir_all :: "string \<Rightarrow> 'w \<Rightarrow> bool \<times> 'w"
  fs_metadata_len :: "string \<Rightarrow> 'w \<Rightarrow> u64 option"
  fs_remove_file :: "string \<Rightarrow> 'w \<Rightarrow> 'w"
  fs_read_dir :: "string \<Rightarrow> 'w \<Rightarrow> string list option"
  DataDir :: "string option"
  MyDatabaseId :: u32
  pg_warning :: "string \<Rightarrow> 'w \<Rightarrow> 'w"
  hash_iter :: "u32 set \<Rightarrow> u32 list"
  stmt_iter :: "stp list \<Rightarrow> stp list"

text \<open>
  C integers are bit patterns (\<open>u32\<close>), read as signed by the engine. \<open>pg_warning\<close> is
  Postgres's report of a warning. \<open>hash_iter\<close> and \<open>stmt_iter\<close> are the orders in which
  a hash set of relation ids and the values of a statement cache are iterated.
\<close>

section \<open>Tables\<close>

record srow =
  rw_id :: int
  rw_xmin :: int
  rw_cmin :: int
  rw_xmax :: int
  rw_cmax :: int
  rw_tuple :: bytes

record tables =
  user_version :: int
  has_tables :: bool
  has_prev :: bool
  has_dead_index :: bool
  storage :: "srow list"
  meta :: "(string \<times> bytes) list"

definition empty_tables :: tables where
  "empty_tables = \<lparr>user_version = 0, has_tables = False, has_prev = False,
     has_dead_index = False, storage = [], meta = []\<rparr>"

text \<open>A new rowid is one more than the largest in use (an \<open>INTEGER PRIMARY KEY\<close>).\<close>

definition next_rowid :: "srow list \<Rightarrow> int" where
  "next_rowid rs = (if rs = [] then 1 else Max (set (map rw_id rs)) + 1)"

definition rows_insert :: "int \<Rightarrow> int \<Rightarrow> bytes \<Rightarrow> srow list \<Rightarrow> srow list" where
  "rows_insert x c b rs =
     rs @ [\<lparr>rw_id = next_rowid rs, rw_xmin = x, rw_cmin = c, rw_xmax = 0, rw_cmax = 0, rw_tuple = b\<rparr>]"

definition stampable :: "int \<Rightarrow> srow \<Rightarrow> bool" where
  "stampable rid r \<longleftrightarrow> rw_id r = rid \<and> rw_xmax r = 0"

definition rows_stamp :: "int \<Rightarrow> int \<Rightarrow> int \<Rightarrow> srow list \<Rightarrow> srow list" where
  "rows_stamp x c rid rs =
     map (\<lambda>r. if stampable rid r then r\<lparr>rw_xmax := x, rw_cmax := c\<rparr> else r) rs"

definition rows_delete :: "int \<Rightarrow> srow list \<Rightarrow> srow list" where
  "rows_delete rid rs = filter (\<lambda>r. rw_id r \<noteq> rid) rs"

definition reclaimable :: "int \<Rightarrow> srow \<Rightarrow> bool" where
  "reclaimable bound r \<longleftrightarrow> rw_xmax r \<noteq> 0 \<and> rw_xmax r < bound"

definition rows_vacuum :: "int \<Rightarrow> srow list \<Rightarrow> srow list" where
  "rows_vacuum bound rs = filter (\<lambda>r. \<not> reclaimable bound r) rs"

definition meta_put :: "string \<Rightarrow> bytes \<Rightarrow> (string \<times> bytes) list \<Rightarrow> (string \<times> bytes) list" where
  "meta_put k v ms = (k, v) # filter (\<lambda>e. fst e \<noteq> k) ms"

section \<open>Statements\<close>

datatype sql =
    Q_version | Q_insert | Q_select_all | Q_select_one | Q_select_xmax nat | Q_stamp
  | Q_delete | Q_vacuum | Q_count | Q_meta_get | Q_meta_set
  | X_pragmas | X_install | X_drop_dead_index | X_drop_prev | X_set_version | X_clear
  | X_begin | X_commit | X_rollback
  | X_savepoint string | X_release string | X_rollback_to string

definition sql_fixed :: "(string \<times> sql) list" where
  "sql_fixed = [
     (''PRAGMA user_version'', Q_version),
     (''INSERT INTO storage (xmin, cmin, tuple) VALUES (?1, ?2, ?3)'', Q_insert),
     (''SELECT rowid, xmin, cmin, xmax, cmax, tuple FROM storage ORDER BY rowid'', Q_select_all),
     (''SELECT rowid, xmin, cmin, xmax, cmax, tuple FROM storage WHERE rowid = ?1'', Q_select_one),
     (''UPDATE storage SET xmax = ?1, cmax = ?2 WHERE rowid = ?3 AND xmax = 0'', Q_stamp),
     (''DELETE FROM storage WHERE rowid = ?1'', Q_delete),
     (''DELETE FROM storage WHERE xmax != 0 AND xmax < ?1'', Q_vacuum),
     (''SELECT count(*) FROM storage'', Q_count),
     (''SELECT value FROM meta WHERE key = ?1'', Q_meta_get),
     (''INSERT INTO meta (key, value) VALUES (?1, ?2) ON CONFLICT(key) DO UPDATE SET value = excluded.value'',
       Q_meta_set),
     (''PRAGMA synchronous=FULL;PRAGMA cache_size=-8192;PRAGMA temp_store=MEMORY;PRAGMA busy_timeout=5000;'',
       X_pragmas),
     (''PRAGMA journal_mode=WAL;CREATE TABLE IF NOT EXISTS storage (rowid INTEGER PRIMARY KEY, xmin INTEGER NOT NULL, cmin INTEGER NOT NULL DEFAULT 0, xmax INTEGER NOT NULL DEFAULT 0, cmax INTEGER NOT NULL DEFAULT 0, tuple BLOB NOT NULL);CREATE TABLE IF NOT EXISTS meta (key TEXT PRIMARY KEY, value BLOB NOT NULL);PRAGMA user_version = 4;'',
       X_install),
     (''DROP INDEX IF EXISTS storage_dead;'', X_drop_dead_index),
     (''ALTER TABLE storage DROP COLUMN prev;'', X_drop_prev),
     (''PRAGMA user_version = 4;'', X_set_version),
     (''DELETE FROM storage;'', X_clear),
     (''BEGIN'', X_begin), (''COMMIT'', X_commit), (''ROLLBACK'', X_rollback)]"

definition strip_prefix :: "string \<Rightarrow> string \<Rightarrow> string option" where
  "strip_prefix p s = (if take (length p) s = p then Some (drop (length p) s) else None)"

fun question_marks :: "nat \<Rightarrow> string" where
  "question_marks 0 = []"
| "question_marks (Suc 0) = ''?''"
| "question_marks (Suc n) = question_marks n @ '',?''"

definition xmax_batch_sql :: "nat \<Rightarrow> string" where
  "xmax_batch_sql n = ''SELECT rowid, xmax FROM storage WHERE rowid IN ('' @ question_marks n @ '')''"

definition parse_sql :: "string \<Rightarrow> sql option" where
  "parse_sql s =
     (case map_of sql_fixed s of
        Some q \<Rightarrow> Some q
      | None \<Rightarrow>
     (case strip_prefix ''SAVEPOINT '' s of
        Some n \<Rightarrow> Some (X_savepoint (takeWhile (\<lambda>c. c \<noteq> CHR '';'') n))
      | None \<Rightarrow>
     (case strip_prefix ''RELEASE SAVEPOINT '' s of
        Some n \<Rightarrow> Some (X_release (takeWhile (\<lambda>c. c \<noteq> CHR '';'') n))
      | None \<Rightarrow>
     (case strip_prefix ''ROLLBACK TO SAVEPOINT '' s of
        Some n \<Rightarrow> Some (X_rollback_to (takeWhile (\<lambda>c. c \<noteq> CHR '';'') n))
      | None \<Rightarrow>
        let n = length (filter (\<lambda>c. c = CHR ''?'') s)
        in if 0 < n \<and> s = xmax_batch_sql n then Some (Q_select_xmax n) else None))))"

datatype sval = SNull | SInt int | SBlob bytes | SText string

fun as_int :: "sval \<Rightarrow> int" where
  "as_int (SInt i) = i"
| "as_int _ = 0"

definition srow_vals :: "srow \<Rightarrow> sval list" where
  "srow_vals r = [SInt (rw_id r), SInt (rw_xmin r), SInt (rw_cmin r), SInt (rw_xmax r),
     SInt (rw_cmax r), SBlob (rw_tuple r)]"

text \<open>Result rows of a query; \<open>None\<close> for a statement that is no query.\<close>

fun run_query :: "sql \<Rightarrow> (nat \<Rightarrow> sval) \<Rightarrow> tables \<Rightarrow> sval list list option" where
  "run_query Q_version b t = Some [[SInt (user_version t)]]"
| "run_query Q_select_all b t = Some (map srow_vals (sort_key rw_id (storage t)))"
| "run_query Q_select_one b t =
     Some (map srow_vals (filter (\<lambda>r. SInt (rw_id r) = b 1) (storage t)))"
| "run_query (Q_select_xmax n) b t =
     Some (map (\<lambda>r. [SInt (rw_id r), SInt (rw_xmax r)])
       (filter (\<lambda>r. SInt (rw_id r) \<in> b ` {1..n}) (storage t)))"
| "run_query Q_count b t = Some [[SInt (int (length (storage t)))]]"
| "run_query Q_meta_get b t =
     Some (map (\<lambda>e. [SBlob (snd e)]) (filter (\<lambda>e. SText (fst e) = b 1) (meta t)))"
| "run_query _ b t = None"

text \<open>
  Effect of a data-changing statement: the new tables, the number of rows changed and the
  rowid of an inserted row. \<open>None\<close> where the documentation leaves the outcome open
  (parameters of another type, no rowid left below the largest).
\<close>

fun run_dml :: "sql \<Rightarrow> (nat \<Rightarrow> sval) \<Rightarrow> tables \<Rightarrow> (tables \<times> nat \<times> int option) option" where
  "run_dml Q_insert b t =
     (case (b 1, b 2, b 3) of
        (SInt x, SInt c, SBlob v) \<Rightarrow>
          (if next_rowid (storage t) \<le> i64_max
           then Some (t\<lparr>storage := rows_insert x c v (storage t)\<rparr>, 1, Some (next_rowid (storage t)))
           else None)
      | _ \<Rightarrow> None)"
| "run_dml Q_stamp b t =
     (case (b 1, b 2, b 3) of
        (SInt x, SInt c, SInt rid) \<Rightarrow>
          Some (t\<lparr>storage := rows_stamp x c rid (storage t)\<rparr>,
                length (filter (stampable rid) (storage t)), None)
      | _ \<Rightarrow> None)"
| "run_dml Q_delete b t =
     (case b 1 of
        SInt rid \<Rightarrow> Some (t\<lparr>storage := rows_delete rid (storage t)\<rparr>,
                          length (filter (\<lambda>r. rw_id r = rid) (storage t)), None)
      | _ \<Rightarrow> None)"
| "run_dml Q_vacuum b t =
     (case b 1 of
        SInt bound \<Rightarrow> Some (t\<lparr>storage := rows_vacuum bound (storage t)\<rparr>,
                            length (filter (reclaimable bound) (storage t)), None)
      | _ \<Rightarrow> None)"
| "run_dml Q_meta_set b t =
     (case (b 1, b 2) of
        (SText k, SBlob v) \<Rightarrow> Some (t\<lparr>meta := meta_put k v (meta t)\<rparr>, 1, None)
      | _ \<Rightarrow> None)"
| "run_dml _ b t = None"

section \<open>Connections, transactions, statements\<close>

text \<open>
  A connection sees \<open>db_tab\<close>. Inside a transaction \<open>db_txn\<close> holds the tables at its
  \<open>BEGIN\<close> and, innermost first, the tables at each open savepoint.
\<close>

record dbconn =
  db_path :: string
  db_tab :: tables
  db_txn :: "(tables \<times> (string \<times> tables) list) option"
  db_last_rowid :: int
  db_changes :: nat

fun pop_to :: "string \<Rightarrow> (string \<times> tables) list \<Rightarrow> (tables \<times> (string \<times> tables) list) option" where
  "pop_to n [] = None"
| "pop_to n ((m, t) # sps) = (if m = n then Some (t, sps) else pop_to n sps)"

fun exec_conn :: "sql \<Rightarrow> dbconn \<Rightarrow> dbconn option" where
  "exec_conn X_pragmas d = Some d"
| "exec_conn X_install d =
     (if db_txn d = None
      then Some (d\<lparr>db_tab := (db_tab d)\<lparr>has_tables := True, user_version := 4\<rparr>\<rparr>) else None)"
| "exec_conn X_drop_dead_index d = Some (d\<lparr>db_tab := (db_tab d)\<lparr>has_dead_index := False\<rparr>\<rparr>)"
| "exec_conn X_drop_prev d =
     (if has_prev (db_tab d) then Some (d\<lparr>db_tab := (db_tab d)\<lparr>has_prev := False\<rparr>\<rparr>) else None)"
| "exec_conn X_set_version d = Some (d\<lparr>db_tab := (db_tab d)\<lparr>user_version := 4\<rparr>\<rparr>)"
| "exec_conn X_clear d =
     (if has_tables (db_tab d) then Some (d\<lparr>db_tab := (db_tab d)\<lparr>storage := []\<rparr>\<rparr>) else None)"
| "exec_conn X_begin d =
     (case db_txn d of None \<Rightarrow> Some (d\<lparr>db_txn := Some (db_tab d, [])\<rparr>) | Some _ \<Rightarrow> None)"
| "exec_conn X_commit d =
     (case db_txn d of None \<Rightarrow> None | Some _ \<Rightarrow> Some (d\<lparr>db_txn := None\<rparr>))"
| "exec_conn X_rollback d =
     (case db_txn d of None \<Rightarrow> None | Some (t0, _) \<Rightarrow> Some (d\<lparr>db_txn := None, db_tab := t0\<rparr>))"
| "exec_conn (X_savepoint n) d =
     (case db_txn d of None \<Rightarrow> None
      | Some (t0, sps) \<Rightarrow> Some (d\<lparr>db_txn := Some (t0, (n, db_tab d) # sps)\<rparr>))"
| "exec_conn (X_release n) d =
     (case db_txn d of None \<Rightarrow> None
      | Some (t0, sps) \<Rightarrow>
          (case pop_to n sps of None \<Rightarrow> None
           | Some (_, sps') \<Rightarrow> Some (d\<lparr>db_txn := Some (t0, sps')\<rparr>)))"
| "exec_conn (X_rollback_to n) d =
     (case db_txn d of None \<Rightarrow> None
      | Some (t0, sps) \<Rightarrow>
          (case pop_to n sps of None \<Rightarrow> None
           | Some (t, sps') \<Rightarrow> Some (d\<lparr>db_txn := Some (t0, (n, t) # sps'), db_tab := t\<rparr>)))"
| "exec_conn _ d = None"

text \<open>The cases the documentation names as errors: they leave the connection as it was.\<close>

fun exec_error :: "sql \<Rightarrow> dbconn \<Rightarrow> bool" where
  "exec_error X_begin d = (db_txn d \<noteq> None)"
| "exec_error X_commit d = (db_txn d = None)"
| "exec_error X_rollback d = (db_txn d = None)"
| "exec_error (X_release n) d =
     (case db_txn d of None \<Rightarrow> True | Some (_, sps) \<Rightarrow> pop_to n sps = None)"
| "exec_error (X_rollback_to n) d =
     (case db_txn d of None \<Rightarrow> True | Some (_, sps) \<Rightarrow> pop_to n sps = None)"
| "exec_error _ d = False"

datatype phase = Ready | AtRow "sval list" "sval list list" | Finished

record sstmt =
  st_db :: dbp
  st_sql :: sql
  st_binds :: "nat \<Rightarrow> sval"
  st_phase :: phase

record eng =
  e_files :: "string \<rightharpoonup> tables"
  e_dbs :: "dbp \<rightharpoonup> dbconn"
  e_stmts :: "stp \<rightharpoonup> sstmt"

definition put_conn :: "dbp \<Rightarrow> dbconn \<Rightarrow> eng \<Rightarrow> eng" where
  "put_conn db d e = e\<lparr>e_dbs := (e_dbs e)(db \<mapsto> d),
     e_files := (if db_txn d = None then (e_files e)(db_path d \<mapsto> db_tab d) else e_files e)\<rparr>"

definition put_stmt :: "stp \<Rightarrow> sstmt \<Rightarrow> eng \<Rightarrow> eng" where
  "put_stmt st s e = e\<lparr>e_stmts := (e_stmts e)(st \<mapsto> s)\<rparr>"

definition open_conn_at :: "string \<Rightarrow> eng \<Rightarrow> dbconn" where
  "open_conn_at p e = \<lparr>db_path = p,
     db_tab = (case e_files e p of Some t \<Rightarrow> t | None \<Rightarrow> empty_tables),
     db_txn = None, db_last_rowid = 0, db_changes = 0\<rparr>"

definition fresh_stmt :: "dbp \<Rightarrow> sql \<Rightarrow> sstmt" where
  "fresh_stmt db q = \<lparr>st_db = db, st_sql = q, st_binds = (\<lambda>_. SNull), st_phase = Ready\<rparr>"

definition preparable :: "sql \<Rightarrow> tables \<Rightarrow> bool" where
  "preparable q t \<longleftrightarrow> q = Q_version \<or> has_tables t"

definition bind_stmt :: "nat \<Rightarrow> sval \<Rightarrow> sstmt \<Rightarrow> sstmt" where
  "bind_stmt i v s = s\<lparr>st_binds := (st_binds s)(i := v)\<rparr>"

fun deliver :: "sval list list \<Rightarrow> sstmt \<Rightarrow> bool \<times> sstmt" where
  "deliver [] s = (False, s\<lparr>st_phase := Finished\<rparr>)"
| "deliver (r # rs) s = (True, s\<lparr>st_phase := AtRow r rs\<rparr>)"

text \<open>
  One \<open>sqlite3_step\<close>: a query is evaluated at its first step and hands out a row per step,
  any other statement runs to completion. \<open>True\<close> is \<open>SQLITE_ROW\<close>.
\<close>

definition step_stmt :: "sstmt \<Rightarrow> dbconn \<Rightarrow> (bool \<times> sstmt \<times> dbconn) option" where
  "step_stmt s d =
     (case st_phase s of
        Ready \<Rightarrow>
          (case run_query (st_sql s) (st_binds s) (db_tab d) of
             Some rows \<Rightarrow> (case deliver rows s of (b, s') \<Rightarrow> Some (b, s', d))
           | None \<Rightarrow>
               (case run_dml (st_sql s) (st_binds s) (db_tab d) of
                  None \<Rightarrow> None
                | Some (t, n, rid) \<Rightarrow>
                    Some (False, s\<lparr>st_phase := Finished\<rparr>,
                      d\<lparr>db_tab := t, db_changes := n,
                        db_last_rowid := (case rid of Some r \<Rightarrow> r | None \<Rightarrow> db_last_rowid d)\<rparr>)))
      | AtRow r rows \<Rightarrow> (case deliver rows s of (b, s') \<Rightarrow> Some (b, s', d))
      | Finished \<Rightarrow> None)"

definition eng_step :: "stp \<Rightarrow> eng \<Rightarrow> (bool \<times> eng) option" where
  "eng_step st e =
     (case e_stmts e st of None \<Rightarrow> None | Some s \<Rightarrow>
     (case e_dbs e (st_db s) of None \<Rightarrow> None | Some d \<Rightarrow>
     (case step_stmt s d of None \<Rightarrow> None
      | Some (b, s', d') \<Rightarrow> Some (b, put_stmt st s' (put_conn (st_db s) d' e)))))"

definition eng_exec :: "dbp \<Rightarrow> sql \<Rightarrow> eng \<Rightarrow> eng option" where
  "eng_exec db q e =
     (case e_dbs e db of None \<Rightarrow> None | Some d \<Rightarrow> map_option (\<lambda>d'. put_conn db d' e) (exec_conn q d))"

definition current_row :: "stp \<Rightarrow> eng \<Rightarrow> sval list" where
  "current_row st e =
     (case e_stmts e st of Some s \<Rightarrow> (case st_phase s of AtRow r _ \<Rightarrow> r | _ \<Rightarrow> []) | None \<Rightarrow> [])"

section \<open>The contract\<close>

locale sqlite_engine =
  fixes h :: "'w host" and view :: "'w \<Rightarrow> eng" and up :: "'w \<Rightarrow> bool"
  assumes open_ok: "up w \<Longrightarrow> \<exists>db. fst (sqlite3_open_v2 h p w) = (SQLITE_OK, Some db) \<and>
      e_dbs (view w) db = None \<and> (\<forall>st s. e_stmts (view w) st = Some s \<longrightarrow> st_db s \<noteq> db) \<and>
      view (snd (sqlite3_open_v2 h p w)) = put_conn db (open_conn_at p (view w)) (view w) \<and>
      up (snd (sqlite3_open_v2 h p w))"
    and close_ok: "up w \<Longrightarrow> (\<And>st s. e_stmts (view w) st = Some s \<Longrightarrow> st_db s \<noteq> db) \<Longrightarrow>
      view (sqlite3_close h db w) = (view w)\<lparr>e_dbs := (e_dbs (view w))(db := None)\<rparr> \<and>
      up (sqlite3_close h db w)"
    and exec_ok: "up w \<Longrightarrow> parse_sql sq = Some q \<Longrightarrow> eng_exec db q (view w) = Some e' \<Longrightarrow>
      fst (fst (sqlite3_exec h db sq w)) = SQLITE_OK \<and>
      view (snd (sqlite3_exec h db sq w)) = e' \<and> up (snd (sqlite3_exec h db sq w))"
    and exec_err: "up w \<Longrightarrow> parse_sql sq = Some q \<Longrightarrow> e_dbs (view w) db = Some d \<Longrightarrow> exec_error q d \<Longrightarrow>
      fst (fst (sqlite3_exec h db sq w)) \<noteq> SQLITE_OK \<and>
      view (snd (sqlite3_exec h db sq w)) = view w \<and> up (snd (sqlite3_exec h db sq w))"
    and prepare_ok: "up w \<Longrightarrow> parse_sql sq = Some q \<Longrightarrow> e_dbs (view w) db = Some d \<Longrightarrow>
      preparable q (db_tab d) \<Longrightarrow>
      fst (fst (sqlite3_prepare_v2 h db sq w)) = SQLITE_OK \<and>
      e_stmts (view w) (snd (fst (sqlite3_prepare_v2 h db sq w))) = None \<and>
      view (snd (sqlite3_prepare_v2 h db sq w)) =
        put_stmt (snd (fst (sqlite3_prepare_v2 h db sq w))) (fresh_stmt db q) (view w) \<and>
      up (snd (sqlite3_prepare_v2 h db sq w))"
    and finalize_ok: "up w \<Longrightarrow> view (sqlite3_finalize h st w) = (view w)\<lparr>e_stmts := (e_stmts (view w))(st := None)\<rparr> \<and>
      up (sqlite3_finalize h st w)"
    and reset_ok: "up w \<Longrightarrow> e_stmts (view w) st = Some s \<Longrightarrow>
      view (sqlite3_reset h st w) = put_stmt st (s\<lparr>st_phase := Ready\<rparr>) (view w) \<and> up (sqlite3_reset h st w)"
    and clear_ok: "up w \<Longrightarrow> e_stmts (view w) st = Some s \<Longrightarrow>
      view (sqlite3_clear_bindings h st w) = put_stmt st (s\<lparr>st_binds := (\<lambda>_. SNull)\<rparr>) (view w) \<and>
      up (sqlite3_clear_bindings h st w)"
    and bind_int_ok: "up w \<Longrightarrow> e_stmts (view w) st = Some s \<Longrightarrow> st_phase s = Ready \<Longrightarrow>
      view (sqlite3_bind_int h st i v w) = put_stmt st (bind_stmt i (SInt (sint v)) s) (view w) \<and>
      up (sqlite3_bind_int h st i v w)"
    and bind_int64_ok: "up w \<Longrightarrow> e_stmts (view w) st = Some s \<Longrightarrow> st_phase s = Ready \<Longrightarrow>
      view (sqlite3_bind_int64 h st i k w) = put_stmt st (bind_stmt i (SInt k) s) (view w) \<and>
      up (sqlite3_bind_int64 h st i k w)"
    and bind_blob_ok: "up w \<Longrightarrow> e_stmts (view w) st = Some s \<Longrightarrow> st_phase s = Ready \<Longrightarrow>
      length b \<le> 1000000000 \<Longrightarrow>
      fst (sqlite3_bind_blob h st i b w) = SQLITE_OK \<and>
      view (snd (sqlite3_bind_blob h st i b w)) = put_stmt st (bind_stmt i (SBlob b) s) (view w) \<and>
      up (snd (sqlite3_bind_blob h st i b w))"
    and bind_text_ok: "up w \<Longrightarrow> e_stmts (view w) st = Some s \<Longrightarrow> st_phase s = Ready \<Longrightarrow>
      length key \<le> 1000000000 \<Longrightarrow>
      fst (sqlite3_bind_text h st i key w) = SQLITE_OK \<and>
      view (snd (sqlite3_bind_text h st i key w)) = put_stmt st (bind_stmt i (SText key) s) (view w) \<and>
      up (snd (sqlite3_bind_text h st i key w))"
    and step_ok: "up w \<Longrightarrow> eng_step st (view w) = Some (hit, e') \<Longrightarrow>
      fst (sqlite3_step h st w) = (if hit then SQLITE_ROW else SQLITE_DONE) \<and>
      view (snd (sqlite3_step h st w)) = e' \<and> up (snd (sqlite3_step h st w))"
    and column_int_ok: "up w \<Longrightarrow> i < length (current_row st (view w)) \<Longrightarrow>
      current_row st (view w) ! i = SInt k \<Longrightarrow> sqlite3_column_int h st i w = word_of_int k"
    and column_int64_ok: "up w \<Longrightarrow> i < length (current_row st (view w)) \<Longrightarrow>
      current_row st (view w) ! i = SInt k \<Longrightarrow> sqlite3_column_int64 h st i w = k"
    and column_blob_ok: "up w \<Longrightarrow> i < length (current_row st (view w)) \<Longrightarrow>
      current_row st (view w) ! i = SBlob b \<Longrightarrow>
      sqlite3_column_bytes h st i w = int (length b) \<and> sqlite3_column_blob h st i w = b"
    and last_insert_rowid_ok: "up w \<Longrightarrow> e_dbs (view w) db = Some d \<Longrightarrow>
      sqlite3_last_insert_rowid h db w = db_last_rowid d"
    and changes_ok: "up w \<Longrightarrow> e_dbs (view w) db = Some d \<Longrightarrow> sqlite3_changes h db w = db_changes d"
    and mkdir_ok: "up w \<Longrightarrow> fst (fs_create_dir_all h p w) \<and>
      view (snd (fs_create_dir_all h p w)) = view w \<and> up (snd (fs_create_dir_all h p w))"
    and remove_ok: "up w \<Longrightarrow> (\<And>db d. e_dbs (view w) db = Some d \<Longrightarrow> db_path d \<noteq> p) \<Longrightarrow>
      view (fs_remove_file h p w) = (view w)\<lparr>e_files := (e_files (view w))(p := None)\<rparr> \<and>
      up (fs_remove_file h p w)"
    and warning_ok: "up w \<Longrightarrow> view (pg_warning h msg w) = view w \<and> up (pg_warning h msg w)"
    and stmt_iter_ok: "set (stmt_iter h xs) = set xs"
    and hash_iter_ok: "set (hash_iter h S) = S \<and> distinct (hash_iter h S)"

section \<open>The texts the sources issue\<close>

lemma put_eng_simps [simp]:
  "e_stmts (put_conn db d e) = e_stmts e"
  "e_dbs (put_conn db d e) = (e_dbs e)(db \<mapsto> d)"
  "e_stmts (put_stmt st s e) = (e_stmts e)(st \<mapsto> s)"
  "e_dbs (put_stmt st s e) = e_dbs e"
  "e_files (put_stmt st s e) = e_files e"
  by (simp_all add: put_conn_def put_stmt_def)

lemma parse_sql_fixed:
  "map_of sql_fixed t = Some q \<Longrightarrow> parse_sql t = Some q"
  by (simp add: parse_sql_def)

lemma parse_sql_texts [simp]:
  "parse_sql ''PRAGMA user_version'' = Some Q_version"
  "parse_sql ''INSERT INTO storage (xmin, cmin, tuple) VALUES (?1, ?2, ?3)'' = Some Q_insert"
  "parse_sql ''SELECT rowid, xmin, cmin, xmax, cmax, tuple FROM storage ORDER BY rowid'' = Some Q_select_all"
  "parse_sql ''SELECT rowid, xmin, cmin, xmax, cmax, tuple FROM storage WHERE rowid = ?1'' = Some Q_select_one"
  "parse_sql ''UPDATE storage SET xmax = ?1, cmax = ?2 WHERE rowid = ?3 AND xmax = 0'' = Some Q_stamp"
  "parse_sql ''DELETE FROM storage WHERE rowid = ?1'' = Some Q_delete"
  "parse_sql ''DELETE FROM storage WHERE xmax != 0 AND xmax < ?1'' = Some Q_vacuum"
  "parse_sql ''SELECT count(*) FROM storage'' = Some Q_count"
  "parse_sql ''SELECT value FROM meta WHERE key = ?1'' = Some Q_meta_get"
  "parse_sql ''INSERT INTO meta (key, value) VALUES (?1, ?2) ON CONFLICT(key) DO UPDATE SET value = excluded.value'' = Some Q_meta_set"
  "parse_sql ''DROP INDEX IF EXISTS storage_dead;'' = Some X_drop_dead_index"
  "parse_sql ''ALTER TABLE storage DROP COLUMN prev;'' = Some X_drop_prev"
  "parse_sql ''PRAGMA user_version = 4;'' = Some X_set_version"
  "parse_sql ''DELETE FROM storage;'' = Some X_clear"
  "parse_sql ''BEGIN'' = Some X_begin"
  "parse_sql ''COMMIT'' = Some X_commit"
  "parse_sql ''ROLLBACK'' = Some X_rollback"
  by (rule parse_sql_fixed, simp add: sql_fixed_def)+

lemma parse_sql_savepoints:
  assumes "CHR '';'' \<notin> set n"
  shows "parse_sql (''SAVEPOINT '' @ n @ '';'') = Some (X_savepoint n)"
    and "parse_sql (''RELEASE SAVEPOINT '' @ n @ '';'') = Some (X_release n)"
    and "parse_sql (''ROLLBACK TO SAVEPOINT '' @ n @ '';'') = Some (X_rollback_to n)"
proof -
  have "takeWhile (\<lambda>c. c \<noteq> CHR '';'') (n @ '';'') = n"
    using assms by (subst takeWhile_append2) auto
  then show "parse_sql (''SAVEPOINT '' @ n @ '';'') = Some (X_savepoint n)"
    and "parse_sql (''RELEASE SAVEPOINT '' @ n @ '';'') = Some (X_release n)"
    and "parse_sql (''ROLLBACK TO SAVEPOINT '' @ n @ '';'') = Some (X_rollback_to n)"
    by (simp_all add: parse_sql_def sql_fixed_def strip_prefix_def)
qed

lemma question_marks_count:
  "length (filter (\<lambda>c. c = CHR ''?'') (question_marks n)) = n"
  by (induction n rule: question_marks.induct) auto

lemma parse_sql_xmax_batch:
  assumes "0 < n" shows "parse_sql (xmax_batch_sql n) = Some (Q_select_xmax n)"
  using assms by (simp add: parse_sql_def sql_fixed_def strip_prefix_def xmax_batch_sql_def
      question_marks_count)

end
