(* ===== verification/Std_Text.thy ===== *)
theory Std_Text
  imports Heap_Prelude "HOL-Library.Product_Lexorder"
begin

text \<open>
  The pieces of Rust's standard library the sources use on text and paths: decimal display and
  parsing of \<open>u32\<close>, joining path components, and splitting a file name at its last dot.
\<close>

section \<open>Definitions\<close>

definition digit :: "nat \<Rightarrow> char" where
  "digit n = char_of (48 + n)"

definition digit_val :: "char \<Rightarrow> nat option" where
  "digit_val c = (let k = of_char c :: nat in if 48 \<le> k \<and> k \<le> 57 then Some (k - 48) else None)"

fun show_nat :: "nat \<Rightarrow> string" where
  "show_nat n = (if n < 10 then [digit n] else show_nat (n div 10) @ [digit (n mod 10)])"

declare show_nat.simps [simp del]

definition show_u32 :: "u32 \<Rightarrow> string" where
  "show_u32 k = show_nat (unat k)"

text \<open>\<open>str::parse::<u32>\<close>: an optional plus sign, then digits; an overflow is an error.\<close>

fun parse_digits :: "nat \<Rightarrow> string \<Rightarrow> nat option" where
  "parse_digits acc [] = Some acc"
| "parse_digits acc (c # cs) =
     (case digit_val c of
        None \<Rightarrow> None
      | Some d \<Rightarrow> (let v = acc * 10 + d in if v < 2 ^ 32 then parse_digits v cs else None))"

definition parse_u32 :: "string \<Rightarrow> u32 option" where
  "parse_u32 s =
     map_option of_nat
       (case s of
          [] \<Rightarrow> None
        | c # cs \<Rightarrow>
            if c = CHR ''+'' then (if cs = [] then None else parse_digits 0 cs)
            else parse_digits 0 s)"

definition path_join :: "string \<Rightarrow> string \<Rightarrow> string" where
  "path_join d n =
     (if n \<noteq> [] \<and> hd n = CHR ''/'' then n
      else if d = [] \<or> last d = CHR ''/'' then d @ n
      else d @ ''/'' @ n)"

text \<open>Stem and extension of a file name: split at the last dot, unless the dot comes first.\<close>

definition split_ext :: "string \<Rightarrow> string \<times> string option" where
  "split_ext s =
     (if s = ''..'' \<or> CHR ''.'' \<notin> set s then (s, None)
      else (let after = rev (takeWhile (\<lambda>c. c \<noteq> CHR ''.'') (rev s));
                before = take (length s - length after - 1) s
            in if before = [] then (s, None) else (before, Some after)))"

definition file_stem :: "string \<Rightarrow> string" where
  "file_stem s = fst (split_ext s)"

definition extension :: "string \<Rightarrow> string option" where
  "extension s = snd (split_ext s)"

text \<open>\<open>Path::with_extension\<close> on a path: the extension of its last component is replaced.\<close>

definition with_extension :: "string \<Rightarrow> string \<Rightarrow> string" where
  "with_extension p ext =
     (let name = rev (takeWhile (\<lambda>c. c \<noteq> CHR ''/'') (rev p));
          dir = take (length p - length name) p
      in dir @ file_stem name @ ''.'' @ ext)"

section \<open>Decimal round trip\<close>

lemma digit_val_digit: "n < 10 \<Longrightarrow> digit_val (digit n) = Some n"
  by (simp add: digit_val_def digit_def)

lemma show_nat_not_Nil: "show_nat n \<noteq> []"
  by (subst show_nat.simps) simp

lemma show_nat_digits: "c \<in> set (show_nat n) \<Longrightarrow> \<exists>d. digit_val c = Some d"
proof (induction n rule: show_nat.induct)
  case (1 n)
  show ?case
  proof (cases "n < 10")
    case True
    with 1 show ?thesis by (auto simp: show_nat.simps [of n] digit_val_digit)
  next
    case False
    with 1 show ?thesis by (auto simp: show_nat.simps [of n] digit_val_digit)
  qed
qed

lemma digit_val_None:
  "digit_val CHR ''+'' = None" "digit_val CHR ''.'' = None" "digit_val CHR ''/'' = None"
  "digit_val CHR '';'' = None" "digit_val CHR 0x00 = None"
  by (simp_all add: digit_val_def)

lemma show_nat_clean:
  "CHR ''+'' \<notin> set (show_nat n)" "CHR ''.'' \<notin> set (show_nat n)" "CHR ''/'' \<notin> set (show_nat n)"
  "CHR '';'' \<notin> set (show_nat n)" "CHR 0x00 \<notin> set (show_nat n)"
  using show_nat_digits digit_val_None by fastforce+

lemma parse_digits_append:
  "parse_digits a (xs @ ys) = (case parse_digits a xs of None \<Rightarrow> None | Some v \<Rightarrow> parse_digits v ys)"
  by (induction xs arbitrary: a) (auto split: option.splits simp: Let_def)

lemma parse_digits_show: "n < 2 ^ 32 \<Longrightarrow> parse_digits 0 (show_nat n) = Some n"
proof (induction n rule: show_nat.induct)
  case (1 n)
  show ?case
  proof (cases "n < 10")
    case True
    then show ?thesis by (simp add: show_nat.simps [of n] digit_val_digit)
  next
    case False
    then have "parse_digits 0 (show_nat (n div 10)) = Some (n div 10)" using 1 by simp
    with False 1 show ?thesis
      by (simp add: show_nat.simps [of n] parse_digits_append digit_val_digit Let_def)
  qed
qed

lemma parse_u32_show: "parse_u32 (show_u32 k) = Some k"
proof -
  obtain c cs where s: "show_nat (unat k) = c # cs" using show_nat_not_Nil by (metis list.exhaust)
  have "c \<noteq> CHR ''+''" using show_nat_clean(1) [of "unat k"] s by auto
  moreover have "unat k < 2 ^ 32" using unsigned_less [of k, where ?'a = nat] by simp
  ultimately show ?thesis
    using parse_digits_show [of "unat k"] by (simp add: parse_u32_def show_u32_def s)
qed

interpretation oid_codec: codec show_u32 parse_u32 "\<lambda>_. True"
  by unfold_locales (rule parse_u32_show)

lemma split_ext_sqlite:
  assumes "CHR ''.'' \<notin> set stem" and "CHR ''.'' \<notin> set ext" and "stem \<noteq> []"
  shows "split_ext (stem @ ''.'' @ ext) = (stem, Some ext)"
proof -
  have "takeWhile (\<lambda>c. c \<noteq> CHR ''.'') (rev ext @ CHR ''.'' # rev stem) = rev ext"
    using assms(2) by (subst takeWhile_append2) auto
  moreover have "stem @ CHR ''.'' # ext \<noteq> ''..''"
    using assms by (cases stem) auto
  ultimately show ?thesis using assms by (simp add: split_ext_def)
qed

end
