(* ===== verification/Rel_Conn.thy ===== *)
theory Rel_Conn
  imports Sql_Engine Std_Text
begin

text \<open>
  Connections and the per-backend state (\<open>src/sqlite.rs\<close>, from \<open>die\<close> to
  \<open>migrate_schema\<close>, with \<open>with_conn\<close> and \<open>ensure_in_xact\<close>). A method of \<open>RelConn\<close>
  runs on the pair of the connection and the world; \<open>on_conn\<close> runs it on the connection that
  the thread-local table \<open>CONNS\<close> holds for a relation and writes the connection back, also
  when the method panics, since its cells keep what was stored in them.
\<close>

section \<open>Connections\<close>

record RelConn =
  rc_db :: dbp
  in_txn :: bool
  cache :: "(string \<times> stp) list"

type_synonym 'w cstate = "RelConn \<times> 'w"

definition die :: "string \<Rightarrow> ('s, 'a) prog" where
  "die msg = panic (''sqlite_heap: '' @ msg)"

definition RelConn_new :: "dbp \<Rightarrow> RelConn" where
  "RelConn_new db = \<lparr>rc_db = db, in_txn = False, cache = []\<rparr>"

text \<open>A call to the host with the connection's world, and a cell update.\<close>

definition hostC :: "('w \<Rightarrow> 'a \<times> 'w) \<Rightarrow> ('w cstate, 'a) prog" where
  "hostC f = callE (\<lambda>s. (fst (f (snd s)), (fst s, snd (f (snd s)))))"

definition hostW :: "('w \<Rightarrow> 'w) \<Rightarrow> ('w cstate, unit) prog" where
  "hostW f = modE (\<lambda>s. (fst s, f (snd s)))"

definition cellC :: "(RelConn \<Rightarrow> RelConn) \<Rightarrow> ('w cstate, unit) prog" where
  "cellC f = modE (\<lambda>s. (f (fst s), snd s))"

definition self_db :: "('w cstate, dbp) prog" where
  "self_db = getE (\<lambda>s. rc_db (fst s))"

definition errmsg :: "'w host \<Rightarrow> ('w cstate, string) prog" where
  "errmsg h = getE (\<lambda>s. sqlite3_errmsg h (rc_db (fst s)) (snd s))"

definition try_exec :: "'w host \<Rightarrow> string \<Rightarrow> ('w cstate, string + unit) prog" where
  "try_exec h sq =
     (if CHR 0x00 \<in> set sq then panic ''SQL contains NUL byte''
      else bindE self_db (\<lambda>db. bindE (hostC (sqlite3_exec h db sq)) (\<lambda>r.
        if fst r = SQLITE_OK then ret (Inr ())
        else ret (Inl (case snd r of None \<Rightarrow> ''(no message)'' | Some m \<Rightarrow> m)))))"

definition exec :: "'w host \<Rightarrow> string \<Rightarrow> ('w cstate, unit) prog" where
  "exec h sq = bindE (try_exec h sq) (\<lambda>r.
     case r of Inr _ \<Rightarrow> ret () | Inl e \<Rightarrow> die (sq @ '': '' @ e))"

definition prepare_cached :: "'w host \<Rightarrow> string \<Rightarrow> ('w cstate, stp) prog" where
  "prepare_cached h sq =
     bindE (getE (\<lambda>s. map_of (cache (fst s)) sq)) (\<lambda>hit.
       case hit of
         Some st \<Rightarrow> seqE (hostW (sqlite3_reset h st))
                    (seqE (hostW (sqlite3_clear_bindings h st)) (ret st))
       | None \<Rightarrow>
           bindE self_db (\<lambda>db. bindE (hostC (sqlite3_prepare_v2 h db sq)) (\<lambda>r.
             if fst r \<noteq> SQLITE_OK
             then bindE (errmsg h) (\<lambda>m. die (''prepare failed for `'' @ sq @ ''`: '' @ m))
             else seqE (cellC (\<lambda>c. c\<lparr>cache := (sq, snd r) # cache c\<rparr>)) (ret (snd r)))))"

definition begin_if_needed :: "'w host \<Rightarrow> ('w cstate, unit) prog" where
  "begin_if_needed h =
     bindE (getE (\<lambda>s. in_txn (fst s))) (\<lambda>t.
       if \<not> t then seqE (exec h ''BEGIN'') (cellC (\<lambda>c. c\<lparr>in_txn := True\<rparr>)) else ret ())"

definition commit :: "'w host \<Rightarrow> ('w cstate, unit) prog" where
  "commit h =
     bindE (getE (\<lambda>s. in_txn (fst s))) (\<lambda>t.
       if \<not> t then ret ()
       else seqE (exec h ''COMMIT'') (cellC (\<lambda>c. c\<lparr>in_txn := False\<rparr>)))"

definition rollback :: "'w host \<Rightarrow> ('w cstate, unit) prog" where
  "rollback h =
     bindE (getE (\<lambda>s. in_txn (fst s))) (\<lambda>t.
       if \<not> t then ret ()
       else bindE (try_exec h ''ROLLBACK'') (\<lambda>r.
         seqE (case r of Inr _ \<Rightarrow> ret ()
               | Inl e \<Rightarrow> hostW (pg_warning h (''sqlite_heap: ROLLBACK failed: '' @ e)))
           (cellC (\<lambda>c. c\<lparr>in_txn := False\<rparr>))))"

definition drop_conn :: "'w host \<Rightarrow> RelConn \<Rightarrow> 'w \<Rightarrow> 'w" where
  "drop_conn h c w =
     sqlite3_close h (rc_db c) (fold (sqlite3_finalize h) (stmt_iter h (map snd (cache c))) w)"

section \<open>Statement helpers\<close>

definition bind_u32 :: "'w host \<Rightarrow> stp \<Rightarrow> nat \<Rightarrow> u32 \<Rightarrow> ('w cstate, unit) prog" where
  "bind_u32 h st i v = hostW (sqlite3_bind_int h st i v)"

definition bind_i64 :: "'w host \<Rightarrow> stp \<Rightarrow> nat \<Rightarrow> int \<Rightarrow> ('w cstate, unit) prog" where
  "bind_i64 h st i v = hostW (sqlite3_bind_int64 h st i v)"

definition bind_blob :: "'w host \<Rightarrow> stp \<Rightarrow> nat \<Rightarrow> bytes \<Rightarrow> ('w cstate, unit) prog" where
  "bind_blob h st i bs = bindE (hostC (sqlite3_bind_blob h st i bs)) (\<lambda>rc.
     if rc \<noteq> SQLITE_OK then bindE (errmsg h) (\<lambda>m. die (''bind_blob failed: '' @ m)) else ret ())"

definition bind_text :: "'w host \<Rightarrow> stp \<Rightarrow> nat \<Rightarrow> string \<Rightarrow> ('w cstate, unit) prog" where
  "bind_text h st i t = bindE (hostC (sqlite3_bind_text h st i t)) (\<lambda>rc.
     if rc \<noteq> SQLITE_OK then bindE (errmsg h) (\<lambda>m. die (''bind_text failed: '' @ m)) else ret ())"

definition step_done :: "'w host \<Rightarrow> stp \<Rightarrow> ('w cstate, unit) prog" where
  "step_done h st = bindE (hostC (sqlite3_step h st)) (\<lambda>rc.
     if rc \<noteq> SQLITE_DONE then bindE (errmsg h) (\<lambda>m. die (''step failed: '' @ m)) else ret ())"

definition step_row :: "'w host \<Rightarrow> stp \<Rightarrow> ('w cstate, bool) prog" where
  "step_row h st = bindE (hostC (sqlite3_step h st)) (\<lambda>rc.
     if rc = SQLITE_ROW then ret True
     else if rc = SQLITE_DONE then ret False
     else bindE (errmsg h) (\<lambda>m. die (''step failed: '' @ m)))"

definition col_blob :: "'w host \<Rightarrow> stp \<Rightarrow> nat \<Rightarrow> 'w \<Rightarrow> bytes" where
  "col_blob h st i w =
     (let n = sqlite3_column_bytes h st i w
      in if n \<le> 0 then [] else take (nat n) (sqlite3_column_blob h st i w))"

definition col_i64 :: "'w host \<Rightarrow> stp \<Rightarrow> nat \<Rightarrow> 'w \<Rightarrow> int" where
  "col_i64 h st i w = sqlite3_column_int64 h st i w"

definition col_u32 :: "'w host \<Rightarrow> stp \<Rightarrow> nat \<Rightarrow> 'w \<Rightarrow> u32" where
  "col_u32 h st i w = sqlite3_column_int h st i w"

definition header_from :: "'w host \<Rightarrow> stp \<Rightarrow> 'w \<Rightarrow> StoredHeader" where
  "header_from h st w =
     \<lparr>rowid = col_i64 h st 0 w, xmin = col_u32 h st 1 w, cmin = col_u32 h st 2 w,
      xmax = col_u32 h st 3 w, cmax = col_u32 h st 4 w\<rparr>"

section \<open>Schema\<close>

definition SCHEMA_VERSION :: int where "SCHEMA_VERSION = 4"

definition read_user_version :: "'w host \<Rightarrow> ('w cstate, int) prog" where
  "read_user_version h =
     bindE (prepare_cached h ''PRAGMA user_version'') (\<lambda>st.
     bindE (hostC (sqlite3_step h st)) (\<lambda>rc.
     bindE (getE (\<lambda>s. if rc = SQLITE_ROW then sint (sqlite3_column_int h st 0 (snd s)) else 0)) (\<lambda>v.
     seqE (hostW (sqlite3_reset h st)) (ret v))))"

definition install_schema :: "'w host \<Rightarrow> ('w cstate, unit) prog" where
  "install_schema h =
     exec h (''PRAGMA journal_mode=WAL;'' @
       ''CREATE TABLE IF NOT EXISTS storage ('' @
       ''rowid INTEGER PRIMARY KEY, '' @ ''xmin INTEGER NOT NULL, '' @
       ''cmin INTEGER NOT NULL DEFAULT 0, '' @ ''xmax INTEGER NOT NULL DEFAULT 0, '' @
       ''cmax INTEGER NOT NULL DEFAULT 0, '' @ ''tuple BLOB NOT NULL'' @ '');'' @
       ''CREATE TABLE IF NOT EXISTS meta ('' @ ''key TEXT PRIMARY KEY, '' @
       ''value BLOB NOT NULL'' @ '');'' @
       ''PRAGMA user_version = '' @ show_nat (nat SCHEMA_VERSION) @ '';'')"

definition migrate_schema :: "'w host \<Rightarrow> int \<Rightarrow> ('w cstate, unit) prog" where
  "migrate_schema h from_v =
     seqE (if from_v < 2 then exec h ''DROP INDEX IF EXISTS storage_dead;'' else ret ())
    (seqE (if from_v = 3 then exec h ''ALTER TABLE storage DROP COLUMN prev;'' else ret ())
          (exec h (''PRAGMA user_version = '' @ show_nat (nat SCHEMA_VERSION) @ '';'')))"

text \<open>The part of \<open>open_conn\<close> that runs on the new connection.\<close>

definition init_conn :: "'w host \<Rightarrow> ('w cstate, unit) prog" where
  "init_conn h =
     seqE (exec h (''PRAGMA synchronous=FULL;'' @ ''PRAGMA cache_size=-8192;'' @
       ''PRAGMA temp_store=MEMORY;'' @ ''PRAGMA busy_timeout=5000;''))
    (bindE (read_user_version h) (\<lambda>current.
       if current = 0 then install_schema h
       else if current > SCHEMA_VERSION then 
         die (''on-disk schema v'' @ show_nat (nat current) @ '' is newer than supported v'' @
              show_nat (nat SCHEMA_VERSION) @ ''; refusing to read'')
       else if current < SCHEMA_VERSION then migrate_schema h current
       else ret ()))"

section \<open>The state of a backend\<close>

text \<open>
  \<open>hook\<close> is a closure handed to pgrx's \<open>register_xact_callback\<close> or
  \<open>register_subxact_callback\<close>; \<open>HOOKS\<close> are those registered in the current transaction.
\<close>

datatype hook = PreCommitHook | AbortHook | StartSubHook | CommitSubHook | AbortSubHook
  | CommitUnlink u32

record 'w backend =
  CONNS :: "u32 \<rightharpoonup> RelConn"
  TX_RELS :: "u32 set"
  SQLITE_DIR :: "string option"
  HOOKS :: "hook list"
  World :: 'w

definition hostB :: "('w \<Rightarrow> 'a \<times> 'w) \<Rightarrow> ('w backend, 'a) prog" where
  "hostB f = callE (\<lambda>s. (fst (f (World s)), s\<lparr>World := snd (f (World s))\<rparr>))"

definition hostWB :: "('w \<Rightarrow> 'w) \<Rightarrow> ('w backend, unit) prog" where
  "hostWB f = modE (\<lambda>s. s\<lparr>World := f (World s)\<rparr>)"

definition with_dir :: "'w host \<Rightarrow> ('w backend, string) prog" where
  "with_dir h =
     bindE (getE SQLITE_DIR) (\<lambda>d.
       case d of
         Some p \<Rightarrow> ret p
       | None \<Rightarrow>
           (case DataDir h of
              None \<Rightarrow> panic ''DataDir not initialised''
            | Some datadir \<Rightarrow>
                let p = path_join (path_join datadir ''sqlite_heap'') (show_u32 (MyDatabaseId h))
                in bindE (hostB (fs_create_dir_all h p)) (\<lambda>made.
                     if made then seqE (modE (\<lambda>s. s\<lparr>SQLITE_DIR := Some p\<rparr>)) (ret p)
                     else panic ''mkdir sqlite_heap dir under PGDATA'')))"

definition path_for :: "'w host \<Rightarrow> u32 \<Rightarrow> ('w backend, string) prog" where
  "path_for h rel = bindE (with_dir h) (\<lambda>d. ret (path_join d (show_u32 rel @ ''.sqlite'')))"

text \<open>A panic while the new connection is set up drops it on the way out.\<close>

definition setup_conn :: "'w host \<Rightarrow> dbp \<Rightarrow> ('w backend, RelConn) prog" where
  "setup_conn h db = (\<lambda>s.
     case init_conn h (RelConn_new db, World s) of
       None \<Rightarrow> None
     | Some (r, c, w) \<Rightarrow>
         (case r of
            Ok _ \<Rightarrow> Some (Ok c, s\<lparr>World := w\<rparr>)
          | Panic e \<Rightarrow> Some (Panic e, s\<lparr>World := drop_conn h c w\<rparr>)))"

definition open_conn :: "'w host \<Rightarrow> u32 \<Rightarrow> ('w backend, RelConn) prog" where
  "open_conn h rel =
     bindE (path_for h rel) (\<lambda>path.
       if CHR 0x00 \<in> set path then panic ''path contains NUL byte''
       else bindE (hostB (sqlite3_open_v2 h path)) (\<lambda>r.
         if fst r \<noteq> SQLITE_OK
         then (case snd r of
                 None \<Rightarrow> die (''open '' @ path @ '': open failed (no handle)'')
               | Some db \<Rightarrow>
                   bindE (getE (\<lambda>s. sqlite3_errmsg h db (World s))) (\<lambda>m.
                   seqE (hostWB (sqlite3_close h db)) (die (''open '' @ path @ '': '' @ m))))
         else setup_conn h (case snd r of Some db \<Rightarrow> db | None \<Rightarrow> 0)))"

definition register_hooks :: "hook list \<Rightarrow> ('w backend, unit) prog" where
  "register_hooks hs = modE (\<lambda>s. s\<lparr>HOOKS := HOOKS s @ hs\<rparr>)"

definition ensure_in_xact :: "'w host \<Rightarrow> u32 \<Rightarrow> ('w backend, unit) prog" where
  "ensure_in_xact h rel =
     bindE (getE (\<lambda>s. TX_RELS s = {})) (\<lambda>first_relation_in_xact.
     bindE (getE (\<lambda>s. rel \<notin> TX_RELS s)) (\<lambda>new_relation.
     seqE (modE (\<lambda>s. s\<lparr>TX_RELS := insert rel (TX_RELS s)\<rparr>))
    (seqE (if new_relation
           then bindE (getE (\<lambda>s. CONNS s rel)) (\<lambda>c.
                  case c of
                    Some _ \<Rightarrow> ret ()
                  | None \<Rightarrow> bindE (open_conn h rel) (\<lambda>c'.
                              modE (\<lambda>s. s\<lparr>CONNS := (CONNS s)(rel \<mapsto> c')\<rparr>)))
           else ret ())
          (if first_relation_in_xact
           then register_hooks [PreCommitHook, AbortHook, StartSubHook, CommitSubHook, AbortSubHook]
           else ret ()))))"

definition on_conn :: "u32 \<Rightarrow> ('w cstate, 'a) prog \<Rightarrow> ('w backend, 'a) prog" where
  "on_conn rel f = (\<lambda>s.
     case CONNS s rel of
       None \<Rightarrow> Some (Panic ''connection should be cached'', s)
     | Some c \<Rightarrow>
         (case f (c, World s) of
            None \<Rightarrow> None
          | Some (r, c', w') \<Rightarrow> Some (r, s\<lparr>CONNS := (CONNS s)(rel \<mapsto> c'), World := w'\<rparr>)))"

definition with_conn :: "'w host \<Rightarrow> u32 \<Rightarrow> ('w cstate, 'a) prog \<Rightarrow> ('w backend, 'a) prog" where
  "with_conn h rel f = seqE (ensure_in_xact h rel) (on_conn rel f)"

section \<open>Invariants\<close>

text \<open>
  \<open>conn_ok e c d\<close>: in engine state \<open>e\<close>, connection \<open>c\<close> is open as \<open>d\<close>, its flag tells
  whether a SQLite transaction is open, its file holds what is committed, every cached
  statement is one of this connection, prepared from the text that keys it, and every
  statement of this connection is in the cache. \<open>same_but\<close>: nothing but one connection, its
  statements and its file has changed.
\<close>

definition committed :: "dbconn \<Rightarrow> tables" where
  "committed d = (case db_txn d of None \<Rightarrow> db_tab d | Some (t0, _) \<Rightarrow> t0)"

definition conn_ok :: "eng \<Rightarrow> RelConn \<Rightarrow> dbconn \<Rightarrow> bool" where
  "conn_ok e c d \<longleftrightarrow> e_dbs e (rc_db c) = Some d \<and> in_txn c = (db_txn d \<noteq> None) \<and>
     e_files e (db_path d) = Some (committed d) \<and>
     (\<forall>sq st. (sq, st) \<in> set (cache c) \<longrightarrow>
        (\<exists>s. e_stmts e st = Some s \<and> st_db s = rc_db c \<and> parse_sql sq = Some (st_sql s))) \<and>
     (\<forall>st s. e_stmts e st = Some s \<and> st_db s = rc_db c \<longrightarrow> st \<in> snd ` set (cache c))"

definition same_but :: "dbp \<Rightarrow> string \<Rightarrow> eng \<Rightarrow> eng \<Rightarrow> bool" where
  "same_but db p e e' \<longleftrightarrow>
     (\<forall>db'. db' \<noteq> db \<longrightarrow> e_dbs e' db' = e_dbs e db') \<and>
     (\<forall>st s. st_db s \<noteq> db \<longrightarrow> (e_stmts e' st = Some s) = (e_stmts e st = Some s)) \<and>
     (\<forall>p'. p' \<noteq> p \<longrightarrow> e_files e' p' = e_files e p')"

definition cinv :: "('w \<Rightarrow> eng) \<Rightarrow> ('w \<Rightarrow> bool) \<Rightarrow> eng \<Rightarrow> dbp \<Rightarrow> dbconn \<Rightarrow> 'w cstate \<Rightarrow> bool" where
  "cinv view up e0 db d cs \<longleftrightarrow> up (snd cs) \<and> rc_db (fst cs) = db \<and>
     conn_ok (view (snd cs)) (fst cs) d \<and> same_but db (db_path d) e0 (view (snd cs))"

definition sinv ::
    "('w \<Rightarrow> eng) \<Rightarrow> ('w \<Rightarrow> bool) \<Rightarrow> eng \<Rightarrow> dbp \<Rightarrow> dbconn \<Rightarrow> stp \<Rightarrow> sstmt \<Rightarrow> 'w cstate \<Rightarrow> bool" where
  "sinv view up e0 db d st s cs \<longleftrightarrow>
     cinv view up e0 db d cs \<and> e_stmts (view (snd cs)) st = Some s \<and> st_db s = db"

definition begun :: "dbconn \<Rightarrow> dbconn" where
  "begun d = (if db_txn d = None then d\<lparr>db_txn := Some (db_tab d, [])\<rparr> else d)"

definition rolled_back :: "dbconn \<Rightarrow> dbconn" where
  "rolled_back d = (case db_txn d of None \<Rightarrow> d | Some (t0, _) \<Rightarrow> d\<lparr>db_txn := None, db_tab := t0\<rparr>)"

lemma same_but_refl [simp]: "same_but db p e e"
  by (simp add: same_but_def)

lemma same_but_trans: "same_but db p e1 e2 \<Longrightarrow> same_but db p e2 e3 \<Longrightarrow> same_but db p e1 e3"
  by (simp add: same_but_def)

lemma begun_simps [simp]:
  "db_tab (begun d) = db_tab d" "db_path (begun d) = db_path d" "db_txn (begun d) \<noteq> None"
  "begun (begun d) = begun d"
  by (auto simp: begun_def)

lemma begun_upd_tab: "begun (begun d\<lparr>db_tab := t\<rparr>) = begun d\<lparr>db_tab := t\<rparr>"
  by (auto simp: begun_def)

lemma conn_ok_D:
  "conn_ok e c d \<Longrightarrow> (sq, st) \<in> set (cache c) \<Longrightarrow>
    \<exists>s. e_stmts e st = Some s \<and> st_db s = rc_db c \<and> parse_sql sq = Some (st_sql s)"
  by (auto simp: conn_ok_def)

lemma conn_ok_cached:
  "conn_ok e c d \<Longrightarrow> e_stmts e st = Some s \<Longrightarrow> st_db s = rc_db c \<Longrightarrow> st \<in> snd ` set (cache c)"
  by (auto simp: conn_ok_def)

lemma conn_ok_put_stmt:
  assumes "conn_ok e c d" and "e_stmts e st = Some s" and "st_db s' = st_db s" and "st_sql s' = st_sql s"
  shows "conn_ok (put_stmt st s' e) c d"
  unfolding conn_ok_def
proof (intro conjI allI impI)
  fix sq st' assume "(sq, st') \<in> set (cache c)"
  from conn_ok_D [OF assms(1) this] assms(2-4)
  show "\<exists>s. e_stmts (put_stmt st s' e) st' = Some s \<and> st_db s = rc_db c \<and> parse_sql sq = Some (st_sql s)"
    by (cases "st' = st") auto
next
  fix st' q assume "e_stmts (put_stmt st s' e) st' = Some q \<and> st_db q = rc_db c"
  then show "st' \<in> snd ` set (cache c)"
    using conn_ok_cached [OF assms(1)] assms(2,3) by (cases "st' = st") auto
qed (use assms(1) in \<open>auto simp: conn_ok_def\<close>)

lemma conn_ok_new_stmt:
  assumes "conn_ok e c d" and "e_stmts e st = None" and "st_db s = rc_db c" and "parse_sql sq = Some (st_sql s)"
  shows "conn_ok (put_stmt st s e) (c\<lparr>cache := (sq, st) # cache c\<rparr>) d"
  unfolding conn_ok_def
proof (intro conjI allI impI)
  fix t st' assume "(t, st') \<in> set (cache (c\<lparr>cache := (sq, st) # cache c\<rparr>))"
  then consider "t = sq" "st' = st" | "(t, st') \<in> set (cache c)" by auto
  then show "\<exists>s'. e_stmts (put_stmt st s e) st' = Some s' \<and>
      st_db s' = rc_db (c\<lparr>cache := (sq, st) # cache c\<rparr>) \<and> parse_sql t = Some (st_sql s')"
    using conn_ok_D [OF assms(1), of t st'] assms(2-4) by cases auto
next
  fix st' q assume "e_stmts (put_stmt st s e) st' = Some q \<and> st_db q = rc_db (c\<lparr>cache := (sq, st) # cache c\<rparr>)"
  then show "st' \<in> snd ` set (cache (c\<lparr>cache := (sq, st) # cache c\<rparr>))"
    using conn_ok_cached [OF assms(1)] by (cases "st' = st") auto
qed (use assms(1) in \<open>auto simp: conn_ok_def\<close>)

lemma same_but_put_stmt:
  assumes "same_but db p e0 e" and "\<And>s. e_stmts e st = Some s \<Longrightarrow> st_db s = db" and "st_db s' = db"
  shows "same_but db p e0 (put_stmt st s' e)"
  using assms unfolding same_but_def by (auto split: if_splits)

lemma cinv_put_stmt:
  assumes "cinv view up e0 db d (c, w)" and "e_stmts (view w) st = Some s" and "st_db s = db"
    and "st_db s' = db" and "st_sql s' = st_sql s" and "up w'" and "view w' = put_stmt st s' (view w)"
  shows "sinv view up e0 db d st s' (c, w')"
  using assms by (auto simp: cinv_def sinv_def conn_ok_put_stmt intro!: same_but_put_stmt)

lemma cinv_new_stmt:
  assumes "cinv view up e0 db d (c, w)" and "e_stmts (view w) st = None" and "st_db s = db"
    and "parse_sql sq = Some (st_sql s)" and "up w'" and "view w' = put_stmt st s (view w)"
  shows "sinv view up e0 db d st s (c\<lparr>cache := (sq, st) # cache c\<rparr>, w')"
  using assms by (auto simp: cinv_def sinv_def conn_ok_new_stmt intro!: same_but_put_stmt)

lemma cinv_put_conn:
  assumes "cinv view up e0 db d (c, w)" and "db_path d' = db_path d" and "rc_db c' = rc_db c"
    and "cache c' = cache c" and "in_txn c' = (db_txn d' \<noteq> None)" and "up w'"
    and "view w' = put_conn db d' (view w)" and "db_txn d' \<noteq> None \<Longrightarrow> committed d' = committed d"
  shows "cinv view up e0 db d' (c', w')"
proof -
  have "e_files (view w') (db_path d') = Some (committed d')"
    using assms by (cases "db_txn d'") (auto simp: put_conn_def committed_def cinv_def conn_ok_def)
  moreover
  have "e_files (view w') p = e_files (view w) p" if "p \<noteq> db_path d" for p
    using that assms(2,7) by (simp add: put_conn_def)
  ultimately show ?thesis using assms by (auto simp: cinv_def conn_ok_def same_but_def)
qed

lemma exec_conn_committed:
  "exec_conn q d = Some d' \<Longrightarrow> db_txn d' \<noteq> None \<Longrightarrow> committed d' = committed d"
  by (cases q) (auto simp: committed_def split: option.splits if_splits)

lemma exec_conn_path: "exec_conn q d = Some d' \<Longrightarrow> db_path d' = db_path d"
  by (cases q) (auto split: option.splits if_splits)

lemma fresh_stmt_eq:
  "s\<lparr>st_phase := Ready, st_binds := (\<lambda>_. SNull)\<rparr> = fresh_stmt (st_db s) (st_sql s)"
  by (cases s) (simp add: fresh_stmt_def)

lemmas conn_prog_defs = hostC_def hostW_def cellC_def self_db_def errmsg_def die_def

section \<open>Methods of a connection over an engine that keeps the contract\<close>

context sqlite_engine
begin

abbreviation CI :: "eng \<Rightarrow> dbp \<Rightarrow> dbconn \<Rightarrow> 'w cstate \<Rightarrow> bool" where
  "CI \<equiv> cinv view up"

abbreviation SI :: "eng \<Rightarrow> dbp \<Rightarrow> dbconn \<Rightarrow> stp \<Rightarrow> sstmt \<Rightarrow> 'w cstate \<Rightarrow> bool" where
  "SI \<equiv> sinv view up"

lemma CI_D:
  assumes "CI e0 db d cs"
  shows "up (snd cs)" "rc_db (fst cs) = db" "e_dbs (view (snd cs)) db = Some d"
    "in_txn (fst cs) = (db_txn d \<noteq> None)"
  using assms by (auto simp: cinv_def conn_ok_def)

lemma SI_D:
  assumes "SI e0 db d st s cs"
  shows "CI e0 db d cs" "e_stmts (view (snd cs)) st = Some s" "st_db s = db"
    "up (snd cs)" "e_dbs (view (snd cs)) db = Some d" "rc_db (fst cs) = db"
  using assms by (auto simp: sinv_def cinv_def conn_ok_def)

lemma try_exec_ok:
  assumes "CI e0 db d cs" and "CHR 0x00 \<notin> set sq" and "parse_sql sq = Some q"
    and "exec_conn q d = Some d'"
  shows "wp (try_exec h sq) (\<lambda>r cs'. r = Inr () \<and> up (snd cs') \<and> fst cs' = fst cs \<and>
    view (snd cs') = put_conn db d' (view (snd cs))) cs"
proof -
  have "eng_exec db q (view (snd cs)) = Some (put_conn db d' (view (snd cs)))"
    using CI_D(3) [OF assms(1)] assms(4) by (simp add: eng_exec_def)
  from exec_ok [OF CI_D(1) [OF assms(1)] assms(3) this] CI_D(2) [OF assms(1)] assms(2)
  show ?thesis by (simp add: try_exec_def conn_prog_defs wp_rules)
qed

lemma exec_spec:
  assumes "CI e0 db d cs" and "CHR 0x00 \<notin> set sq" and "parse_sql sq = Some q"
    and "exec_conn q d = Some d'"
  shows "wp (exec h sq) (\<lambda>_ cs'. up (snd cs') \<and> fst cs' = fst cs \<and>
    view (snd cs') = put_conn db d' (view (snd cs))) cs"
  unfolding exec_def wp_bindE
  by (rule wp_mono [OF try_exec_ok [OF assms]]) (auto simp: wp_ret)

lemma try_exec_error:
  assumes "CI e0 db d cs" and "CHR 0x00 \<notin> set sq" and "parse_sql sq = Some q" and "exec_error q d"
  shows "wp (try_exec h sq) (\<lambda>r cs'. (\<exists>m. r = Inl m) \<and> CI e0 db d cs' \<and> fst cs' = fst cs) cs"
proof -
  from exec_err [OF CI_D(1) [OF assms(1)] assms(3) CI_D(3) [OF assms(1)] assms(4)] assms(1,2)
    CI_D(2) [OF assms(1)]
  show ?thesis by (auto simp: try_exec_def conn_prog_defs wp_rules cinv_def split: option.splits)
qed

lemma begin_spec:
  assumes "CI e0 db d cs"
  shows "wp (begin_if_needed h) (\<lambda>_. CI e0 db (begun d)) cs"
proof (cases "db_txn d")
  case None
  have "wp (exec h ''BEGIN'') (\<lambda>_ cs'. up (snd cs') \<and> fst cs' = fst cs \<and>
      view (snd cs') = put_conn db (begun d) (view (snd cs))) cs"
    by (rule exec_spec [OF assms, where q = X_begin]) (simp_all add: None begun_def)
  then have "wp (exec h ''BEGIN'') (\<lambda>_ cs'. CI e0 db (begun d) ((fst cs')\<lparr>in_txn := True\<rparr>, snd cs')) cs"
    by (rule wp_mono) (rule cinv_put_conn [of _ _ _ _ d "fst cs" "snd cs"], use assms None in \<open>auto simp: begun_def committed_def\<close>)
  then show ?thesis
    using CI_D(4) [OF assms] None by (simp add: begin_if_needed_def conn_prog_defs wp_rules)
next
  case (Some a)
  with assms CI_D(4) [OF assms] show ?thesis
    by (simp add: begin_if_needed_def wp_rules begun_def)
qed

lemma prepare_spec:
  assumes I: "CI e0 db d cs" and q: "parse_sql sq = Some q" and p: "preparable q (db_tab d)"
  shows "wp (prepare_cached h sq) (\<lambda>st. SI e0 db d st (fresh_stmt db q)) cs"
proof -
  obtain c w where cs: "cs = (c, w)" by (cases cs)
  note D = CI_D [OF I, unfolded cs, simplified]
  show ?thesis
  proof (cases "map_of (cache c) sq")
    case None
    from prepare_ok [OF D(1) q D(3) p] I show ?thesis
      by (auto simp: prepare_cached_def conn_prog_defs wp_rules cs None D(2) fresh_stmt_def q
          intro!: cinv_new_stmt)
  next
    case (Some st)
    then have "(sq, st) \<in> set (cache c)" by (rule map_of_SomeD)
    then obtain s where s: "e_stmts (view w) st = Some s" "st_db s = db" "st_sql s = q"
      using conn_ok_D [of "view w" c d sq st] I q D(2) by (auto simp: cinv_def cs)
    let ?w = "sqlite3_reset h st w"
    have r: "view ?w = put_stmt st (s\<lparr>st_phase := Ready\<rparr>) (view w)" "up ?w"
      using reset_ok [OF D(1) s(1)] by auto
    have r': "view (sqlite3_clear_bindings h st ?w) = put_stmt st (fresh_stmt db q) (view ?w)"
        "up (sqlite3_clear_bindings h st ?w)"
      using clear_ok [OF r(2), of st "s\<lparr>st_phase := Ready\<rparr>"] r(1) s
      by (auto simp: fresh_stmt_eq)
    have "SI e0 db d st (s\<lparr>st_phase := Ready\<rparr>) (c, ?w)"
      by (rule cinv_put_stmt [OF I [unfolded cs] s(1,2)]) (use s r in auto)
    then have "SI e0 db d st (fresh_stmt db q) (c, sqlite3_clear_bindings h st ?w)"
      by (intro cinv_put_stmt [OF SI_D(1) _ _ _ _ r'(2,1), where s = "s\<lparr>st_phase := Ready\<rparr>"])
        (use r s in \<open>auto simp: fresh_stmt_def sinv_def\<close>)
    then show ?thesis
      by (simp add: prepare_cached_def conn_prog_defs wp_rules cs Some)
  qed
qed

lemma bind_u32_spec:
  assumes "SI e0 db d st s cs" and "st_phase s = Ready"
  shows "wp (bind_u32 h st i v) (\<lambda>_. SI e0 db d st (bind_stmt i (SInt (sint v)) s)) cs"
  using bind_int_ok [OF SI_D(4,2) [OF assms(1)] assms(2)] SI_D(1,2,3) [OF assms(1)]
  by (cases cs) (auto simp: bind_u32_def conn_prog_defs wp_rules bind_stmt_def intro!: cinv_put_stmt)

lemma bind_i64_spec:
  assumes "SI e0 db d st s cs" and "st_phase s = Ready"
  shows "wp (bind_i64 h st i k) (\<lambda>_. SI e0 db d st (bind_stmt i (SInt k) s)) cs"
  using bind_int64_ok [OF SI_D(4,2) [OF assms(1)] assms(2)] SI_D(1,2,3) [OF assms(1)]
  by (cases cs) (auto simp: bind_i64_def conn_prog_defs wp_rules bind_stmt_def intro!: cinv_put_stmt)

lemma bind_blob_spec:
  assumes "SI e0 db d st s cs" and "st_phase s = Ready" and "length b \<le> 1000000000"
  shows "wp (bind_blob h st i b) (\<lambda>_. SI e0 db d st (bind_stmt i (SBlob b) s)) cs"
  using bind_blob_ok [OF SI_D(4,2) [OF assms(1)] assms(2,3)] SI_D(1,2,3) [OF assms(1)]
  by (cases cs) (auto simp: bind_blob_def conn_prog_defs wp_rules bind_stmt_def intro!: cinv_put_stmt)

lemma bind_text_spec:
  assumes "SI e0 db d st s cs" and "st_phase s = Ready" and "length t \<le> 1000000000"
  shows "wp (bind_text h st i t) (\<lambda>_. SI e0 db d st (bind_stmt i (SText t) s)) cs"
  using bind_text_ok [OF SI_D(4,2) [OF assms(1)] assms(2,3)] SI_D(1,2,3) [OF assms(1)]
  by (cases cs) (auto simp: bind_text_def conn_prog_defs wp_rules bind_stmt_def intro!: cinv_put_stmt)

lemma reset_spec:
  assumes "SI e0 db d st s cs"
  shows "wp (hostW (sqlite3_reset h st)) (\<lambda>_. SI e0 db d st (s\<lparr>st_phase := Ready\<rparr>)) cs"
  using reset_ok [OF SI_D(4,2) [OF assms(1)]] SI_D(1,2,3) [OF assms(1)]
  by (cases cs) (auto simp: conn_prog_defs wp_rules intro!: cinv_put_stmt)

text \<open>One step of a statement: its answer, its new state and the connection's.\<close>

lemma step_spec:
  assumes I: "SI e0 db d st s cs" and st: "step_stmt s d = Some (b, s', d')"
    and s': "st_sql s' = st_sql s" "st_db s' = st_db s"
    and d': "db_path d' = db_path d" "db_txn d' = db_txn d"
  shows "wp (hostC (sqlite3_step h st)) (\<lambda>rc cs'. rc = (if b then SQLITE_ROW else SQLITE_DONE) \<and>
    SI e0 db d' st s' cs') cs"
proof -
  obtain c w where cs: "cs = (c, w)" by (cases cs)
  note D = SI_D [OF I, unfolded cs, simplified]
  let ?e = "put_stmt st s' (put_conn db d' (view w))"
  have "eng_step st (view w) = Some (b, ?e)"
    using D st by (simp add: eng_step_def)
  note ok = step_ok [OF D(4) this]
  have "CI e0 db d' (c, w')" if "up w'" "view w' = put_conn db d' (view w)" for w'
    by (rule cinv_put_conn [OF D(1)])
      (use that d' CI_D(4) [OF D(1)] in \<open>auto simp: committed_def split: option.splits\<close>)
  then have "conn_ok (put_conn db d' (view w)) c d'" "same_but db (db_path d') e0 (put_conn db d' (view w))"
    using D d' CI_D(4) [OF D(1)]
    by (auto simp: cinv_def conn_ok_def same_but_def put_conn_def committed_def split: option.splits)
  then have "SI e0 db d' st s' (c, snd (sqlite3_step h st w))"
    using ok D s' by (auto simp: sinv_def cinv_def intro!: conn_ok_put_stmt same_but_put_stmt)
  with ok show ?thesis by (simp add: conn_prog_defs wp_rules cs)
qed

lemma step_done_spec:
  assumes I: "SI e0 db d st s cs" and r: "st_phase s = Ready"
    and q: "run_query (st_sql s) (st_binds s) (db_tab d) = None"
    and m: "run_dml (st_sql s) (st_binds s) (db_tab d) = Some (t, n, rid)"
  shows "wp (step_done h st) (\<lambda>_. SI e0 db
      (d\<lparr>db_tab := t, db_changes := n, db_last_rowid := (case rid of Some k \<Rightarrow> k | None \<Rightarrow> db_last_rowid d)\<rparr>)
      st (s\<lparr>st_phase := Finished\<rparr>)) cs"
  unfolding step_done_def wp_bindE
  by (rule wp_mono [OF step_spec [OF I, where b = False and s' = "s\<lparr>st_phase := Finished\<rparr>" and
      d' = "d\<lparr>db_tab := t, db_changes := n,
        db_last_rowid := (case rid of Some k \<Rightarrow> k | None \<Rightarrow> db_last_rowid d)\<rparr>"]])
    (auto simp: step_stmt_def r q m wp_rules)

lemma step_row_spec:
  assumes I: "SI e0 db d st s cs" and st: "step_stmt s d = Some (b, s', d)"
    and s': "st_sql s' = st_sql s" "st_db s' = st_db s"
  shows "wp (step_row h st) (\<lambda>x cs'. x = b \<and> SI e0 db d st s' cs') cs"
  unfolding step_row_def wp_bindE
  by (rule wp_mono [OF step_spec [OF I st s']])
    (auto simp: wp_rules SQLITE_DONE_def SQLITE_ROW_def)

lemma commit_spec:
  assumes "CI e0 db d cs"
  shows "wp (commit h) (\<lambda>_. CI e0 db (d\<lparr>db_txn := None\<rparr>)) cs"
proof (cases "db_txn d")
  case (Some a)
  have "wp (exec h ''COMMIT'') (\<lambda>_ cs'. up (snd cs') \<and> fst cs' = fst cs \<and>
      view (snd cs') = put_conn db (d\<lparr>db_txn := None\<rparr>) (view (snd cs))) cs"
    by (rule exec_spec [OF assms, where q = X_commit]) (simp_all add: Some)
  then have "wp (exec h ''COMMIT'') (\<lambda>_ cs'. CI e0 db (d\<lparr>db_txn := None\<rparr>) ((fst cs')\<lparr>in_txn := False\<rparr>, snd cs')) cs"
    by (rule wp_mono) (rule cinv_put_conn [of _ _ _ _ d "fst cs" "snd cs"], use assms in auto)
  then show ?thesis
    using CI_D(4) [OF assms] Some by (simp add: commit_def conn_prog_defs wp_rules)
next
  case None
  then have "d\<lparr>db_txn := None\<rparr> = d" by (cases d) simp
  then show ?thesis
    using assms CI_D(4) [OF assms] None by (simp only: commit_def wp_rules) simp
qed

lemma rollback_spec:
  assumes "CI e0 db d cs"
  shows "wp (rollback h) (\<lambda>_. CI e0 db (rolled_back d)) cs"
proof (cases "db_txn d")
  case (Some a)
  then obtain t0 sps where a: "db_txn d = Some (t0, sps)" by (cases a) auto
  have "wp (try_exec h ''ROLLBACK'') (\<lambda>r cs'. r = Inr () \<and> up (snd cs') \<and> fst cs' = fst cs \<and>
      view (snd cs') = put_conn db (d\<lparr>db_txn := None, db_tab := t0\<rparr>) (view (snd cs))) cs"
    by (rule try_exec_ok [OF assms, where q = X_rollback]) (simp_all add: a)
  then have "wp (try_exec h ''ROLLBACK'') (\<lambda>r cs'. r = Inr () \<and>
      CI e0 db (rolled_back d) ((fst cs')\<lparr>in_txn := False\<rparr>, snd cs')) cs"
    by (rule wp_mono) (rule conjI, simp, rule cinv_put_conn [of _ _ _ _ d "fst cs" "snd cs"],
        use assms in \<open>simp_all add: rolled_back_def a\<close>)
  then have "wp (try_exec h ''ROLLBACK'') (\<lambda>r. wp (seqE (case r of Inr _ \<Rightarrow> ret ()
      | Inl e \<Rightarrow> hostW (pg_warning h (''sqlite_heap: ROLLBACK failed: '' @ e)))
      (cellC (\<lambda>c. c\<lparr>in_txn := False\<rparr>))) (\<lambda>_. CI e0 db (rolled_back d))) cs"
    by (rule wp_mono) (simp add: cellC_def wp_rules)
  then show ?thesis
    using CI_D(4) [OF assms] a by (simp add: rollback_def wp_getE wp_bindE wp_if)
next
  case None
  with assms CI_D(4) [OF assms] show ?thesis by (simp add: rollback_def wp_rules rolled_back_def)
qed

end

end
