(* ===== verification/Open_Conn.thy ===== *)
theory Open_Conn
  imports Rel_Conn
begin

text \<open>
  What \<open>open_conn\<close> leaves behind: the schema of a new file is installed, an older one is
  migrated, and the statements that read a column of the current row return its value.
\<close>

section \<open>Opening a file\<close>

text \<open>The tables after \<open>open_conn\<close> has installed or migrated the schema.\<close>

definition upgraded :: "tables \<Rightarrow> tables" where
  "upgraded t =
     (if user_version t = 0 then t\<lparr>has_tables := True, user_version := SCHEMA_VERSION\<rparr>
      else if user_version t < SCHEMA_VERSION
      then t\<lparr>has_dead_index := (if user_version t < 2 then False else has_dead_index t),
             has_prev := (if user_version t = 3 then False else has_prev t),
             user_version := SCHEMA_VERSION\<rparr>
      else t)"

text \<open>A version 3 file has the column that the migration drops.\<close>

definition openable :: "tables \<Rightarrow> bool" where
  "openable t \<longleftrightarrow> 0 \<le> user_version t \<and> user_version t \<le> SCHEMA_VERSION \<and>
     (user_version t = 3 \<longrightarrow> has_prev t)"

lemma show_version: "show_nat 4 = ''4''" "show_nat (nat SCHEMA_VERSION) = ''4''"
  by code_simp+

lemma schema_texts:
  "parse_sql (''PRAGMA synchronous=FULL;'' @ ''PRAGMA cache_size=-8192;'' @
       ''PRAGMA temp_store=MEMORY;'' @ ''PRAGMA busy_timeout=5000;'') = Some X_pragmas"
  "parse_sql (''PRAGMA journal_mode=WAL;'' @
       ''CREATE TABLE IF NOT EXISTS storage ('' @
       ''rowid INTEGER PRIMARY KEY, '' @ ''xmin INTEGER NOT NULL, '' @
       ''cmin INTEGER NOT NULL DEFAULT 0, '' @ ''xmax INTEGER NOT NULL DEFAULT 0, '' @
       ''cmax INTEGER NOT NULL DEFAULT 0, '' @ ''tuple BLOB NOT NULL'' @ '');'' @
       ''CREATE TABLE IF NOT EXISTS meta ('' @ ''key TEXT PRIMARY KEY, '' @
       ''value BLOB NOT NULL'' @ '');'' @
       ''PRAGMA user_version = '' @ show_nat (nat SCHEMA_VERSION) @ '';'') = Some X_install"
  "parse_sql (''PRAGMA user_version = '' @ show_nat (nat SCHEMA_VERSION) @ '';'') = Some X_set_version"
  unfolding show_version by (rule parse_sql_fixed, simp add: sql_fixed_def)+

section \<open>Installing and migrating the schema\<close>

lemma bind_stmt_simps [simp]:
  "st_phase (bind_stmt i v s) = st_phase s" "st_sql (bind_stmt i v s) = st_sql s"
  "st_db (bind_stmt i v s) = st_db s" "st_binds (bind_stmt i v s) = (st_binds s)(i := v)"
  by (simp_all add: bind_stmt_def)

lemma fresh_stmt_simps [simp]:
  "st_phase (fresh_stmt db q) = Ready" "st_sql (fresh_stmt db q) = q" "st_db (fresh_stmt db q) = db"
  by (simp_all add: fresh_stmt_def)

context sqlite_engine
begin

lemma current_row_at:
  "SI e0 db d st s cs \<Longrightarrow> st_phase s = AtRow r rest \<Longrightarrow> current_row st (view (snd cs)) = r"
  using SI_D(2) [of e0 db d st s cs] by (simp add: current_row_def)

lemma col_int_at:
  "SI e0 db d st s cs \<Longrightarrow> st_phase s = AtRow r rest \<Longrightarrow> i < length r \<Longrightarrow> r ! i = SInt k \<Longrightarrow>
    col_i64 h st i (snd cs) = k \<and> col_u32 h st i (snd cs) = word_of_int k"
  using SI_D(4) [of e0 db d st s cs] current_row_at [of e0 db d st s cs r rest]
  by (simp add: col_i64_def col_u32_def column_int_ok column_int64_ok)

lemma exec_conn_spec:
  assumes I: "CI e0 db d cs" and n: "CHR 0x00 \<notin> set sq" and q: "parse_sql sq = Some q"
    and d': "exec_conn q d = Some d'" and t: "(db_txn d' = None) = (db_txn d = None)"
  shows "wp (exec h sq) (\<lambda>_. CI e0 db d') cs"
proof -
  have "wp (exec h sq) (\<lambda>_ cs'. CI e0 db d' (fst cs', snd cs')) cs"
    by (rule wp_mono [OF exec_spec [OF I n q d']], rule cinv_put_conn [of _ _ _ _ d "fst cs" "snd cs"])
      (use I CI_D(4) [OF I] exec_conn_path [OF d'] exec_conn_committed [OF d'] t in simp_all)
  then show ?thesis by simp
qed

lemma read_user_version_spec:
  assumes I: "CI e0 db d cs" and r: "- (2 ^ 31) \<le> user_version (db_tab d)" "user_version (db_tab d) < 2 ^ 31"
  shows "wp (read_user_version h) (\<lambda>v cs'. v = user_version (db_tab d) \<and> CI e0 db d cs') cs"
  unfolding read_user_version_def
proof (rule wpB [OF prepare_spec [OF I, where q = Q_version]], simp, simp add: preparable_def)
  fix st cs1 assume J: "SI e0 db d st (fresh_stmt db Q_version) cs1"
  let ?row = "[SInt (user_version (db_tab d))]"
  let ?s = "(fresh_stmt db Q_version)\<lparr>st_phase := AtRow ?row []\<rparr>"
  have v: "sint (word_of_int (user_version (db_tab d)) :: u32) = user_version (db_tab d)"
    using r by (simp add: signed_of_int signed_take_bit_int_eq_self)
  have "wp (hostC (sqlite3_step h st)) (\<lambda>rc cs'. rc = SQLITE_ROW \<and> SI e0 db d st ?s cs') cs1"
    by (rule wp_mono [OF step_spec [OF J, where b = True and s' = ?s and d' = d]])
      (simp_all add: step_stmt_def)
  then show "wp (bindE (hostC (sqlite3_step h st)) (\<lambda>rc.
     bindE (getE (\<lambda>s. if rc = SQLITE_ROW then sint (sqlite3_column_int h st 0 (snd s)) else 0)) (\<lambda>v.
     seqE (hostW (sqlite3_reset h st)) (ret v)))) (\<lambda>v cs'. v = user_version (db_tab d) \<and> CI e0 db d cs') cs1"
  proof (rule wpB)
    fix rc cs2 assume "rc = SQLITE_ROW \<and> SI e0 db d st ?s cs2"
    then have rc: "rc = SQLITE_ROW" and K: "SI e0 db d st ?s cs2" by auto
    have "col_u32 h st 0 (snd cs2) = word_of_int (user_version (db_tab d))"
      using col_int_at [OF K, of ?row "[]" 0] by simp
    then have "(if rc = SQLITE_ROW then sint (sqlite3_column_int h st 0 (snd cs2)) else 0) = user_version (db_tab d)"
      by (simp add: rc col_u32_def v)
    moreover have "wp (seqE (hostW (sqlite3_reset h st)) (ret (user_version (db_tab d))))
        (\<lambda>v cs'. v = user_version (db_tab d) \<and> CI e0 db d cs') cs2"
      by (rule wpS [OF reset_spec [OF K]]) (simp add: wp_ret SI_D(1))
    ultimately show "wp (bindE (getE (\<lambda>s. if rc = SQLITE_ROW then sint (sqlite3_column_int h st 0 (snd s)) else 0)) (\<lambda>v.
       seqE (hostW (sqlite3_reset h st)) (ret v))) (\<lambda>v cs'. v = user_version (db_tab d) \<and> CI e0 db d cs') cs2"
      by (simp only: wp_bindE wp_getE)
  qed
qed

lemma migrate_spec:
  assumes I: "CI e0 db d cs" and v: "user_version (db_tab d) = 3 \<Longrightarrow> has_prev (db_tab d)"
    and r: "user_version (db_tab d) \<noteq> 0" "user_version (db_tab d) < SCHEMA_VERSION"
  shows "wp (migrate_schema h (user_version (db_tab d))) (\<lambda>_. CI e0 db (d\<lparr>db_tab := upgraded (db_tab d)\<rparr>)) cs"
proof -
  let ?v = "user_version (db_tab d)"
  let ?t1 = "(db_tab d)\<lparr>has_dead_index := (if ?v < 2 then False else has_dead_index (db_tab d))\<rparr>"
  let ?t2 = "?t1\<lparr>has_prev := (if ?v = 3 then False else has_prev (db_tab d))\<rparr>"
  have s1: "wp (if ?v < 2 then exec h ''DROP INDEX IF EXISTS storage_dead;'' else ret ())
      (\<lambda>_. CI e0 db (d\<lparr>db_tab := ?t1\<rparr>)) cs"
    using exec_conn_spec [OF I, of "''DROP INDEX IF EXISTS storage_dead;''" X_drop_dead_index] I
    by (simp add: wp_ret)
  have s2: "wp (if ?v = 3 then exec h ''ALTER TABLE storage DROP COLUMN prev;'' else ret ())
      (\<lambda>_. CI e0 db (d\<lparr>db_tab := ?t2\<rparr>)) cs'" if J: "CI e0 db (d\<lparr>db_tab := ?t1\<rparr>) cs'" for cs'
    using exec_conn_spec [OF J, of "''ALTER TABLE storage DROP COLUMN prev;''" X_drop_prev] J v
    by (simp add: wp_ret)
  have s3: "wp (exec h (''PRAGMA user_version = '' @ show_nat (nat SCHEMA_VERSION) @ '';''))
      (\<lambda>_. CI e0 db (d\<lparr>db_tab := upgraded (db_tab d)\<rparr>)) cs'" if J: "CI e0 db (d\<lparr>db_tab := ?t2\<rparr>) cs'" for cs'
    by (rule exec_conn_spec [OF J _ schema_texts(3)])
      (use r in \<open>simp_all add: show_version upgraded_def SCHEMA_VERSION_def\<close>)
  show ?thesis
    unfolding migrate_schema_def by (rule wpS [OF s1], rule wpS [OF s2], assumption, rule s3)
qed

lemma init_conn_spec:
  assumes I: "CI e0 db d cs" and o: "openable (db_tab d)" and n: "db_txn d = None"
  shows "wp (init_conn h) (\<lambda>_. CI e0 db (d\<lparr>db_tab := upgraded (db_tab d)\<rparr>)) cs"
proof -
  let ?v = "user_version (db_tab d)"
  let ?d = "d\<lparr>db_tab := upgraded (db_tab d)\<rparr>"
  have p: "wp (exec h (''PRAGMA synchronous=FULL;'' @ ''PRAGMA cache_size=-8192;'' @
       ''PRAGMA temp_store=MEMORY;'' @ ''PRAGMA busy_timeout=5000;'')) (\<lambda>_. CI e0 db d) cs"
    by (rule exec_conn_spec [OF I _ schema_texts(1)]) simp_all
  have install: "wp (install_schema h) (\<lambda>_. CI e0 db ?d) cs'" if "CI e0 db d cs'" "?v = 0" for cs'
    unfolding install_schema_def
    by (rule exec_conn_spec [OF that(1) _ schema_texts(2)])
      (use n that(2) in \<open>simp_all add: show_version upgraded_def SCHEMA_VERSION_def\<close>)
  have id: "CI e0 db ?d cs'" if "CI e0 db d cs'" "?v = SCHEMA_VERSION" for cs'
    using that by (simp add: upgraded_def SCHEMA_VERSION_def)
  show ?thesis
    unfolding init_conn_def
    by (rule wpS [OF p], rule wpB [OF read_user_version_spec], assumption)
      (use o install id migrate_spec in \<open>auto simp: openable_def SCHEMA_VERSION_def wp_ret\<close>)
qed

text \<open>
  When the query of the version does not deliver its row, the version is taken for 0 and the schema
  is installed, whatever the version was.
\<close>

lemma step_upd_same:
  "exec (h\<lparr>sqlite3_step := f\<rparr>) = exec h" "prepare_cached (h\<lparr>sqlite3_step := f\<rparr>) = prepare_cached h"
  "install_schema (h\<lparr>sqlite3_step := f\<rparr>) = install_schema h" "with_dir (h\<lparr>sqlite3_step := f\<rparr>) = with_dir h"
proof -
  have m: "errmsg (h\<lparr>sqlite3_step := f\<rparr>) = errmsg h" by (simp add: errmsg_def)
  show e: "exec (h\<lparr>sqlite3_step := f\<rparr>) = exec h" by (rule ext) (simp add: exec_def try_exec_def)
  show "prepare_cached (h\<lparr>sqlite3_step := f\<rparr>) = prepare_cached h"
    by (intro ext) (simp add: prepare_cached_def m cong: option.case_cong if_cong)
  show "install_schema (h\<lparr>sqlite3_step := f\<rparr>) = install_schema h" by (simp add: install_schema_def e)
  show "with_dir (h\<lparr>sqlite3_step := f\<rparr>) = with_dir h" by (simp add: with_dir_def cong: option.case_cong)
qed

lemma init_conn_unread:
  assumes I: "CI e0 db d cs" and rc: "rc \<noteq> SQLITE_ROW" and n: "db_txn d = None"
  defines "k \<equiv> h\<lparr>sqlite3_step := (\<lambda>st w. (rc, w))\<rparr>"
  shows "wp (init_conn k) (\<lambda>_. CI e0 db (d\<lparr>db_tab := (db_tab d)\<lparr>has_tables := True, user_version := SCHEMA_VERSION\<rparr>\<rparr>)) cs"
proof -
  let ?d = "d\<lparr>db_tab := (db_tab d)\<lparr>has_tables := True, user_version := SCHEMA_VERSION\<rparr>\<rparr>"
  have p: "wp (exec h (''PRAGMA synchronous=FULL;'' @ ''PRAGMA cache_size=-8192;'' @
       ''PRAGMA temp_store=MEMORY;'' @ ''PRAGMA busy_timeout=5000;'')) (\<lambda>_. CI e0 db d) cs"
    by (rule exec_conn_spec [OF I _ schema_texts(1)]) simp_all
  have v: "wp (read_user_version k) (\<lambda>u cs'. u = 0 \<and> CI e0 db d cs') cs'" if "CI e0 db d cs'" for cs'
  proof -
    have "wp (seqE (hostW (sqlite3_reset h st)) (ret (0 :: int))) (\<lambda>u cs'. u = 0 \<and> CI e0 db d cs') cs1"
      if "SI e0 db d st (fresh_stmt db Q_version) cs1" for st cs1
      by (rule wpS [OF reset_spec [OF that]]) (simp add: wp_ret SI_D(1))
    then show ?thesis
      unfolding read_user_version_def k_def step_upd_same
      by (intro wpB [OF prepare_spec [OF that, where q = Q_version]])
        (use rc in \<open>simp_all add: preparable_def hostC_def wp_rules\<close>)
  qed
  have "wp (install_schema h) (\<lambda>_. CI e0 db ?d) cs'" if "CI e0 db d cs'" for cs'
    unfolding install_schema_def
    by (rule exec_conn_spec [OF that _ schema_texts(2)]) (use n in \<open>simp_all add: show_version SCHEMA_VERSION_def\<close>)
  then show ?thesis
    unfolding init_conn_def
    by (intro wpS [OF p [folded step_upd_same(1) [of "\<lambda>st w. (rc, w)"], folded k_def]] wpB [OF v])
      (simp_all add: k_def step_upd_same)
qed

text \<open>A file of a later version is refused, before anything is written to it.\<close>

lemma init_conn_newer:
  assumes I: "CI e0 db d cs" and v: "SCHEMA_VERSION < user_version (db_tab d)" "user_version (db_tab d) < 2 ^ 31"
  shows "\<exists>m cs'. init_conn h cs = Some (Panic m, cs') \<and> CI e0 db d cs'"
proof -
  obtain cs1 where e: "exec h (''PRAGMA synchronous=FULL;'' @ ''PRAGMA cache_size=-8192;'' @
       ''PRAGMA temp_store=MEMORY;'' @ ''PRAGMA busy_timeout=5000;'') cs = Some (Ok (), cs1)" "CI e0 db d cs1"
    using exec_conn_spec [OF I _ schema_texts(1), of d] by (auto simp: wp_def)
  obtain cs2 where r: "read_user_version h cs1 = Some (Ok (user_version (db_tab d)), cs2)" "CI e0 db d cs2"
    using read_user_version_spec [OF e(2)] v by (auto simp: wp_def SCHEMA_VERSION_def)
  show ?thesis
    using v r e(1) by (simp add: init_conn_def seqE_def bindE_def SCHEMA_VERSION_def die_def panic_def)
qed

end

end
