(* ===== verification/Backend_Inv.thy ===== *)
theory Backend_Inv
  imports Open_Conn
begin

text \<open>
  The invariant of a backend's connection table and the rule by which an operation on one
  relation's connection is lifted to the backend: it keeps the invariant, enters the
  relation into the current transaction and leaves every other relation alone.
\<close>

section \<open>Definitions\<close>

definition rel_path :: "string \<Rightarrow> u32 \<Rightarrow> string" where
  "rel_path dir rel = path_join dir (show_u32 rel @ ''.sqlite'')"

definition rel_db :: "('w \<Rightarrow> eng) \<Rightarrow> 'w backend \<Rightarrow> u32 \<Rightarrow> dbconn option" where
  "rel_db view s rel = (case CONNS s rel of None \<Rightarrow> None | Some c \<Rightarrow> e_dbs (view (World s)) (rc_db c))"

definition backend_ok :: "('w \<Rightarrow> eng) \<Rightarrow> ('w \<Rightarrow> bool) \<Rightarrow> 'w backend \<Rightarrow> bool" where
  "backend_ok view up s \<longleftrightarrow> up (World s) \<and>
     (\<forall>rel c. CONNS s rel = Some c \<longrightarrow>
        (\<exists>d dir. conn_ok (view (World s)) c d \<and> SQLITE_DIR s = Some dir \<and> db_path d = rel_path dir rel)) \<and>
     (\<forall>rel rel' c c'. CONNS s rel = Some c \<and> CONNS s rel' = Some c' \<and> rc_db c = rc_db c' \<longrightarrow> rel = rel') \<and>
     (\<forall>db d. e_dbs (view (World s)) db = Some d \<longrightarrow> (\<exists>rel c. CONNS s rel = Some c \<and> rc_db c = db))"

definition all_hooks :: "hook list" where
  "all_hooks = [PreCommitHook, AbortHook, StartSubHook, CommitSubHook, AbortSubHook]"

definition entered_hooks :: "'w backend \<Rightarrow> hook list" where
  "entered_hooks s = HOOKS s @ (if TX_RELS s = {} then all_hooks else [])"

definition entered :: "u32 \<Rightarrow> 'w backend \<Rightarrow> 'w backend" where
  "entered rel s = s\<lparr>TX_RELS := insert rel (TX_RELS s), HOOKS := entered_hooks s\<rparr>"

text \<open>
  The directory of the files, known or still to be made; the connection that an operation on
  \<open>rel\<close> finds, open already or to be opened on the relation's file.
\<close>

definition dir_of :: "'w host \<Rightarrow> 'w backend \<Rightarrow> string option" where
  "dir_of h s = (case SQLITE_DIR s of Some p \<Rightarrow> Some p
     | None \<Rightarrow> map_option (\<lambda>d. path_join (path_join d ''sqlite_heap'') (show_u32 (MyDatabaseId h))) (DataDir h))"

definition avail :: "'w host \<Rightarrow> ('w \<Rightarrow> eng) \<Rightarrow> 'w backend \<Rightarrow> u32 \<Rightarrow> dbconn \<Rightarrow> bool" where
  "avail h view s rel d \<longleftrightarrow>
     (case CONNS s rel of
        Some c \<Rightarrow> e_dbs (view (World s)) (rc_db c) = Some d
      | None \<Rightarrow> rel \<notin> TX_RELS s \<and>
         (\<exists>dir. dir_of h s = Some dir \<and> CHR 0x00 \<notin> set dir \<and>
            (let d0 = open_conn_at (rel_path dir rel) (view (World s))
             in openable (db_tab d0) \<and> d = d0\<lparr>db_tab := upgraded (db_tab d0)\<rparr>)))"

text \<open>What an operation on \<open>rel\<close> leaves alone, and what entering the transaction changes.\<close>

definition op_frame :: "'w host \<Rightarrow> ('w \<Rightarrow> eng) \<Rightarrow> ('w \<Rightarrow> bool) \<Rightarrow> u32 \<Rightarrow> 'w backend \<Rightarrow> 'w backend \<Rightarrow> bool" where
  "op_frame h view up rel s s' \<longleftrightarrow> backend_ok view up s' \<and>
     (\<forall>rel'. rel' \<noteq> rel \<longrightarrow> rel_db view s' rel' = rel_db view s rel' \<and> CONNS s' rel' = CONNS s rel' \<and>
        avail h view s' rel' = avail h view s rel') \<and>
     TX_RELS s' = insert rel (TX_RELS s) \<and> HOOKS s' = entered_hooks s \<and> dir_of h s' = dir_of h s"

section \<open>Distinct relations have distinct files\<close>

lemma rel_path_inj: "rel_path dir a = rel_path dir b \<longleftrightarrow> a = b"
proof -
  have hd: "hd (show_u32 k @ ''.sqlite'') \<noteq> CHR ''/''" for k
    using show_nat_clean(3) [of "unat k"] show_nat_not_Nil [of "unat k"]
    by (cases "show_nat (unat k)") (auto simp: show_u32_def)
  have "rel_path dir a = rel_path dir b \<longleftrightarrow> show_u32 a = show_u32 b"
    using hd by (auto simp: rel_path_def path_join_def)
  then show ?thesis by (simp add: oid_codec.enc_inj)
qed

section \<open>Lifting\<close>

lemma conn_ok_unique: "conn_ok e c d \<Longrightarrow> conn_ok e c d' \<Longrightarrow> d = d'"
  by (simp add: conn_ok_def)

lemma conn_ok_same_but:
  assumes "conn_ok e c d" and "same_but db p e e'" and "rc_db c \<noteq> db" and "db_path d \<noteq> p"
  shows "conn_ok e' c d"
proof -
  have "\<exists>s. e_stmts e' st = Some s \<and> st_db s = rc_db c \<and> parse_sql sq = Some (st_sql s)"
    if m: "(sq, st) \<in> set (cache c)" for sq st
  proof -
    from conn_ok_D [OF assms(1) m] obtain s where "e_stmts e st = Some s" "st_db s = rc_db c"
      "parse_sql sq = Some (st_sql s)" by auto
    with assms(2,3) show ?thesis unfolding same_but_def by metis
  qed
  with assms show ?thesis by (auto simp: conn_ok_def same_but_def)
qed

lemma backend_ok_D:
  assumes "backend_ok view up s" and "CONNS s rel = Some c"
  obtains d dir where "conn_ok (view (World s)) c d" "SQLITE_DIR s = Some dir" "db_path d = rel_path dir rel"
  using assms unfolding backend_ok_def by blast

lemma backend_ok_up: "backend_ok view up s \<Longrightarrow> up (World s)"
  by (simp add: backend_ok_def)

lemma backend_ok_inj:
  "backend_ok view up s \<Longrightarrow> CONNS s rel = Some c \<Longrightarrow> CONNS s rel' = Some c' \<Longrightarrow> rc_db c = rc_db c' \<Longrightarrow> rel = rel'"
  unfolding backend_ok_def by blast

lemma backend_ok_owner:
  "backend_ok view up s \<Longrightarrow> e_dbs (view (World s)) db = Some d \<Longrightarrow> \<exists>rel c. CONNS s rel = Some c \<and> rc_db c = db"
  unfolding backend_ok_def by blast

lemma rel_db_Some:
  "backend_ok view up s \<Longrightarrow> rel_db view s rel = Some d \<Longrightarrow>
    \<exists>c. CONNS s rel = Some c \<and> conn_ok (view (World s)) c d"
  by (auto simp: rel_db_def split: option.splits elim!: backend_ok_D) (auto simp: conn_ok_def)

lemma wp_ensure_cached:
  assumes "CONNS s rel = Some c"
  shows "wp (ensure_in_xact h rel) (\<lambda>_ s'. s' = entered rel s) s"
  using assms
  by (auto simp: ensure_in_xact_def wp_rules register_hooks_def entered_def entered_hooks_def all_hooks_def)

lemma wp_on_conn:
  assumes "CONNS s rel = Some c"
    and "wp f (\<lambda>x cs'. Q x (s\<lparr>CONNS := (CONNS s)(rel \<mapsto> fst cs'), World := snd cs'\<rparr>)) (c, World s)"
  shows "wp (on_conn rel f) Q s"
  using assms by (auto simp: wp_def on_conn_def)

text \<open>Putting a connection of one relation into the table, a new one or a changed one, keeps the invariant.\<close>

lemma backend_ok_put:
  assumes ok: "backend_ok view up s" and s': "CONNS s' = (CONNS s)(rel \<mapsto> c)" "SQLITE_DIR s' = Some dir" "up (World s')"
    and d: "conn_ok (view (World s')) c d" "db_path d = rel_path dir rel"
    and same: "same_but (rc_db c) (rel_path dir rel) (view (World s)) (view (World s'))"
    and dir: "\<And>p. SQLITE_DIR s = Some p \<Longrightarrow> p = dir"
    and own: "\<And>c'. CONNS s rel = Some c' \<Longrightarrow> rc_db c' = rc_db c"
    and other: "\<And>r c'. CONNS s r = Some c' \<Longrightarrow> r \<noteq> rel \<Longrightarrow> rc_db c' \<noteq> rc_db c"
  shows "backend_ok view up s'"
  unfolding backend_ok_def
proof (intro conjI allI impI)
  fix r c' assume r: "CONNS s' r = Some c'"
  show "\<exists>d dir. conn_ok (view (World s')) c' d \<and> SQLITE_DIR s' = Some dir \<and> db_path d = rel_path dir r"
  proof (cases "r = rel")
    case True
    with r d show ?thesis by (auto simp: s')
  next
    case False
    then have r': "CONNS s r = Some c'" using r by (simp add: s')
    from backend_ok_D [OF ok r'] obtain d1 dir1 where
      d1: "conn_ok (view (World s)) c' d1" "SQLITE_DIR s = Some dir1" "db_path d1 = rel_path dir1 r" .
    have "conn_ok (view (World s')) c' d1"
      by (rule conn_ok_same_but [OF d1(1) same other [OF r' False]]) (use d1 dir False in \<open>auto simp: rel_path_inj\<close>)
    with d1 dir show ?thesis by (auto simp: s')
  qed
next
  fix r r2 c1 c2 assume "CONNS s' r = Some c1 \<and> CONNS s' r2 = Some c2 \<and> rc_db c1 = rc_db c2"
  then show "r = r2"
    using other [of r c1] other [of r2 c2] backend_ok_inj [OF ok, of r c1 r2 c2]
    by (cases "r = rel"; cases "r2 = rel") (simp_all add: s')
next
  fix db1 d1 assume e: "e_dbs (view (World s')) db1 = Some d1"
  show "\<exists>r c'. CONNS s' r = Some c' \<and> rc_db c' = db1"
  proof (cases "db1 = rc_db c")
    case False
    then have "e_dbs (view (World s)) db1 = Some d1" using e same by (simp add: same_but_def)
    from backend_ok_owner [OF ok this] obtain r c' where "CONNS s r = Some c'" "rc_db c' = db1" by blast
    moreover from this have "r \<noteq> rel" using own False by auto
    ultimately show ?thesis by (intro exI [of _ r]) (simp add: s')
  qed (auto simp: s')
qed (rule s')

text \<open>The state after a method has run on the connection of \<open>rel\<close>.\<close>

lemma backend_ok_upd:
  assumes ok: "backend_ok view up s" and c: "CONNS s rel = Some c"
    and d: "conn_ok (view (World s)) c d" and path: "db_path d' = db_path d"
    and I: "cinv view up (view (World s)) (rc_db c) d' cs'"
    and s': "s' = s\<lparr>CONNS := (CONNS s)(rel \<mapsto> fst cs'), World := snd cs'\<rparr>"
  shows "backend_ok view up s'" "rel_db view s' rel = Some d'"
    "rel' \<noteq> rel \<Longrightarrow> rel_db view s' rel' = rel_db view s rel'"
proof -
  from I have up: "up (snd cs')" and rc: "rc_db (fst cs') = rc_db c"
    and ok': "conn_ok (view (snd cs')) (fst cs') d'"
    and same: "same_but (rc_db c) (db_path d') (view (World s)) (view (snd cs'))"
    by (simp_all add: cinv_def)
  obtain dir where dir: "SQLITE_DIR s = Some dir" "db_path d = rel_path dir rel"
    using backend_ok_D [OF ok c] d conn_ok_unique by metis
  show "rel_db view s' rel = Some d'"
    using ok' by (simp add: rel_db_def s' conn_ok_def)
  have other: "rc_db c' \<noteq> rc_db c" if "CONNS s r = Some c'" "r \<noteq> rel" for r c'
    using backend_ok_inj [OF ok that(1) c] that(2) by blast
  show "rel_db view s' rel' = rel_db view s rel'" if "rel' \<noteq> rel" for rel'
    using that other same by (auto simp: rel_db_def s' same_but_def split: option.splits)
  show "backend_ok view up s'"
    by (rule backend_ok_put [OF ok, where c = "fst cs'" and d = d' and dir = dir and rel = rel])
      (use ok' same up rc dir path c other in \<open>auto simp: s'\<close>)
qed

lemma rel_db_avail: "rel_db view s rel = Some d \<Longrightarrow> avail h view s rel d"
  by (auto simp: rel_db_def avail_def split: option.splits)

lemma rel_path_clean: "CHR 0x00 \<notin> set dir \<Longrightarrow> CHR 0x00 \<notin> set (rel_path dir rel)"
  using show_nat_clean(5) [of "unat rel"] by (auto simp: rel_path_def path_join_def show_u32_def)

text \<open>The state of the other relations depends on the engine only through \<open>same_but\<close>.\<close>

lemma other_rel_same:
  assumes ok: "backend_ok view up s" and same: "same_but db (rel_path dir rel) (view (World s)) (view (World s'))"
    and dir: "dir_of h s = Some dir" "dir_of h s' = Some dir"
    and r: "rel' \<noteq> rel" "CONNS s' rel' = CONNS s rel'" "rel' \<in> TX_RELS s' \<longleftrightarrow> rel' \<in> TX_RELS s"
    and c: "\<And>c. CONNS s rel' = Some c \<Longrightarrow> rc_db c \<noteq> db"
  shows "rel_db view s' rel' = rel_db view s rel'" and "avail h view s' rel' = avail h view s rel'"
proof -
  have "e_files (view (World s')) (rel_path dir rel') = e_files (view (World s)) (rel_path dir rel')"
    using same r(1) by (simp add: same_but_def rel_path_inj)
  moreover have "e_dbs (view (World s')) (rc_db c) = e_dbs (view (World s)) (rc_db c)"
    if "CONNS s rel' = Some c" for c
    using same c [OF that] by (simp add: same_but_def)
  ultimately show "rel_db view s' rel' = rel_db view s rel'" "avail h view s' rel' = avail h view s rel'"
    using r dir by (auto simp: rel_db_def avail_def open_conn_at_def fun_eq_iff split: option.splits)
qed

section \<open>Entering a transaction\<close>

context sqlite_engine
begin

abbreviation BK :: "'w backend \<Rightarrow> bool" where
  "BK \<equiv> backend_ok view up"

lemma with_dir_spec:
  assumes ok: "BK s" and d: "dir_of h s = Some dir"
  shows "wp (with_dir h) (\<lambda>p s'. p = dir \<and> BK s' \<and> view (World s') = view (World s) \<and>
    SQLITE_DIR s' = Some dir \<and> CONNS s' = CONNS s \<and> TX_RELS s' = TX_RELS s \<and> HOOKS s' = HOOKS s) s"
proof (cases "SQLITE_DIR s")
  case (Some p)
  with assms show ?thesis by (simp add: with_dir_def dir_of_def wp_rules)
next
  case None
  with d obtain dd where dd: "DataDir h = Some dd"
    "dir = path_join (path_join dd ''sqlite_heap'') (show_u32 (MyDatabaseId h))"
    by (auto simp: dir_of_def)
  have "CONNS s rel = None" for rel
    by (rule ccontr) (use None ok in \<open>auto simp: backend_ok_def\<close>)
  moreover have "e_dbs (view (World s)) db = None" for db
    using backend_ok_owner [OF ok, of db] calculation by (cases "e_dbs (view (World s)) db") auto
  ultimately show ?thesis using mkdir_ok [OF backend_ok_up [OF ok], of dir] dd None
    by (simp add: with_dir_def wp_rules hostB_def Let_def backend_ok_def)
qed

text \<open>
  Opening, for a host \<open>k\<close> that opens files as \<open>h\<close> does and on which the set-up of the new connection
  takes it from \<open>d0\<close> to \<open>d'\<close>.
\<close>

lemma open_conn_gen:
  fixes rel and k :: "'w host"
  assumes k: "sqlite3_open_v2 k = sqlite3_open_v2 h" "with_dir k = with_dir h"
    and ok: "BK s" and d: "dir_of h s = Some dir" "CHR 0x00 \<notin> set dir"
  defines "d0 \<equiv> open_conn_at (rel_path dir rel) (view (World s))"
  assumes init: "\<And>e db w. CI e db d0 (RelConn_new db, w) \<Longrightarrow> wp (init_conn k) (\<lambda>_. CI e db d') (RelConn_new db, w)"
  shows "wp (open_conn k rel) (\<lambda>c s'. SQLITE_DIR s' = Some dir \<and> CONNS s' = CONNS s \<and>
    TX_RELS s' = TX_RELS s \<and> HOOKS s' = HOOKS s \<and> e_dbs (view (World s)) (rc_db c) = None \<and>
    CI (view (World s)) (rc_db c) d' (c, World s')) s"
proof -
  let ?p = "rel_path dir rel"
  have "wp (bindE (hostB (sqlite3_open_v2 k ?p)) (\<lambda>r.
         if fst r \<noteq> SQLITE_OK
         then (case snd r of
                 None \<Rightarrow> die (''open '' @ ?p @ '': open failed (no handle)'')
               | Some db \<Rightarrow>
                   bindE (getE (\<lambda>s. sqlite3_errmsg k db (World s))) (\<lambda>m.
                   seqE (hostWB (sqlite3_close k db)) (die (''open '' @ ?p @ '': '' @ m))))
         else setup_conn k (case snd r of Some db \<Rightarrow> db | None \<Rightarrow> 0)))
    (\<lambda>c s'. SQLITE_DIR s' = Some dir \<and> CONNS s' = CONNS s \<and>
      TX_RELS s' = TX_RELS s \<and> HOOKS s' = HOOKS s \<and> e_dbs (view (World s)) (rc_db c) = None \<and>
      CI (view (World s)) (rc_db c) d' (c, World s')) s1"
    if s1: "BK s1" "view (World s1) = view (World s)" "SQLITE_DIR s1 = Some dir" "CONNS s1 = CONNS s"
      "TX_RELS s1 = TX_RELS s" "HOOKS s1 = HOOKS s" for s1
  proof -
    let ?e = "view (World s)"
    from open_ok [OF backend_ok_up [OF s1(1)], of ?p] obtain db w where
      op: "sqlite3_open_v2 h ?p (World s1) = ((SQLITE_OK, Some db), w)" and new: "e_dbs ?e db = None"
      and idle: "\<And>st q. e_stmts ?e st = Some q \<Longrightarrow> st_db q \<noteq> db"
      and w: "view w = put_conn db d0 ?e" "up w"
      unfolding s1(2) d0_def by (cases "sqlite3_open_v2 h ?p (World s1)") auto
    have n: "db_txn d0 = None" "db_path d0 = ?p" by (simp_all add: d0_def open_conn_at_def)
    have "CI ?e db d0 (RelConn_new db, w)"
      using w n idle by (auto simp: cinv_def conn_ok_def same_but_def RelConn_new_def put_conn_def committed_def)
    from init [OF this]
    have "wp (setup_conn k db) (\<lambda>c s'. \<exists>w'. s' = s1\<lparr>World := w'\<rparr> \<and> CI ?e db d' (c, w')) (s1\<lparr>World := w\<rparr>)"
      by (auto simp: wp_def setup_conn_def)
    then have "wp (setup_conn k db) (\<lambda>c s'. SQLITE_DIR s' = Some dir \<and> CONNS s' = CONNS s \<and>
        TX_RELS s' = TX_RELS s \<and> HOOKS s' = HOOKS s \<and> e_dbs ?e (rc_db c) = None \<and>
        CI ?e (rc_db c) d' (c, World s')) (s1\<lparr>World := w\<rparr>)"
      by (rule wp_mono) (use s1 new CI_D(2) in fastforce)
    then show ?thesis by (simp add: wp_bindE hostB_def wp_callE k op)
  qed
  note body = this
  have "wp (path_for k rel) (\<lambda>p s1. p = ?p \<and> BK s1 \<and> view (World s1) = view (World s) \<and>
      SQLITE_DIR s1 = Some dir \<and> CONNS s1 = CONNS s \<and> TX_RELS s1 = TX_RELS s \<and> HOOKS s1 = HOOKS s) s"
    unfolding path_for_def k by (rule wpB [OF with_dir_spec [OF ok d(1)]]) (simp add: wp_ret rel_path_def)
  then show ?thesis
    unfolding open_conn_def
    by (rule wpB, elim conjE, simp only: if_not_P [OF rel_path_clean [OF d(2)]], intro body)
qed

lemma open_conn_spec:
  fixes rel
  assumes ok: "BK s" and d: "dir_of h s = Some dir" "CHR 0x00 \<notin> set dir"
  defines "d0 \<equiv> open_conn_at (rel_path dir rel) (view (World s))"
  assumes o: "openable (db_tab d0)"
  shows "wp (open_conn h rel) (\<lambda>c s'. SQLITE_DIR s' = Some dir \<and> CONNS s' = CONNS s \<and>
    TX_RELS s' = TX_RELS s \<and> HOOKS s' = HOOKS s \<and> e_dbs (view (World s)) (rc_db c) = None \<and>
    CI (view (World s)) (rc_db c) (d0\<lparr>db_tab := upgraded (db_tab d0)\<rparr>) (c, World s')) s"
proof (rule open_conn_gen [OF refl refl ok d])
  fix e db w assume "CI e db (open_conn_at (rel_path dir rel) (view (World s))) (RelConn_new db, w)"
  then show "wp (init_conn h) (\<lambda>_. CI e db (d0\<lparr>db_tab := upgraded (db_tab d0)\<rparr>)) (RelConn_new db, w)"
    using o by (intro init_conn_spec) (simp_all add: d0_def open_conn_at_def)
qed

text \<open>After \<open>ensure_in_xact\<close> the connection is open and the relation is in the transaction.\<close>

lemma opened_post:
  assumes ok: "BK s" and dir: "dir_of h s = Some dir" and none: "CONNS s rel = None" and path: "db_path d = rel_path dir rel"
    and s': "SQLITE_DIR s' = Some dir" "CONNS s' = (CONNS s)(rel \<mapsto> c)" "TX_RELS s' = insert rel (TX_RELS s)" "HOOKS s' = entered_hooks s"
    and fresh: "e_dbs (view (World s)) (rc_db c) = None" and I: "CI (view (World s)) (rc_db c) d (c, World s')"
  shows "rel_db view s' rel = Some d \<and> op_frame h view up rel s s'"
proof -
  have same: "same_but (rc_db c) (rel_path dir rel) (view (World s)) (view (World s'))"
    and up: "up (World s')" and cok: "conn_ok (view (World s')) c d"
    using I by (simp_all add: cinv_def path s')
  have dir': "dir_of h s' = Some dir" by (simp add: dir_of_def s')
  have old: "rc_db c' \<noteq> rc_db c" if r: "CONNS s r = Some c'" for r c'
  proof -
    from backend_ok_D [OF ok r] obtain d1 where "conn_ok (view (World s)) c' d1" by blast
    with fresh show ?thesis by (auto simp: conn_ok_def)
  qed
  have "rel_db view s' r = rel_db view s r \<and> CONNS s' r = CONNS s r \<and> avail h view s' r = avail h view s r"
    if "r \<noteq> rel" for r
    using other_rel_same [OF ok same dir dir' that] that old by (auto simp: s')
  moreover have "BK s'"
    by (rule backend_ok_put [OF ok s'(2,1) up cok path same]) (use none old dir in \<open>auto simp: dir_of_def\<close>)
  moreover have "rel_db view s' rel = Some d" using cok by (simp add: rel_db_def s' conn_ok_def)
  ultimately show ?thesis using dir dir' by (simp add: op_frame_def s')
qed

lemma ensure_new:
  assumes ok: "BK s" and a: "avail h view s rel d" and none: "CONNS s rel = None"
  shows "wp (ensure_in_xact h rel) (\<lambda>_ s'. rel_db view s' rel = Some d \<and> op_frame h view up rel s s') s"
proof -
  obtain dir where dir: "dir_of h s = Some dir" "CHR 0x00 \<notin> set dir" and new: "rel \<notin> TX_RELS s"
    and o: "openable (db_tab (open_conn_at (rel_path dir rel) (view (World s))))"
    and d: "d = (open_conn_at (rel_path dir rel) (view (World s)))
      \<lparr>db_tab := upgraded (db_tab (open_conn_at (rel_path dir rel) (view (World s))))\<rparr>"
    using a none by (auto simp: avail_def Let_def)
  let ?s = "s\<lparr>TX_RELS := insert rel (TX_RELS s)\<rparr>"
  have ok1: "BK ?s" and dir1: "dir_of h ?s = Some dir" using ok dir by (simp_all add: backend_ok_def dir_of_def)
  have path: "db_path d = rel_path dir rel" by (simp add: d open_conn_at_def)
  note post = opened_post [OF ok dir(1) none path]
  have "wp (open_conn h rel) (\<lambda>c. wp (seqE (modE (\<lambda>s. s\<lparr>CONNS := (CONNS s)(rel \<mapsto> c)\<rparr>))
      (if TX_RELS s = {} then register_hooks all_hooks else ret ()))
      (\<lambda>_ s'. rel_db view s' rel = Some d \<and> op_frame h view up rel s s')) ?s"
  proof (rule wp_mono [OF open_conn_spec [OF ok1 dir1 dir(2), of rel]])
    show "openable (db_tab (open_conn_at (rel_path dir rel) (view (World ?s))))" using o by simp
    fix c and s1 :: "'w backend"
    let ?d0 = "open_conn_at (rel_path dir rel) (view (World ?s))"
    assume "SQLITE_DIR s1 = Some dir \<and> CONNS s1 = CONNS ?s \<and> TX_RELS s1 = TX_RELS ?s \<and> HOOKS s1 = HOOKS ?s \<and>
      e_dbs (view (World ?s)) (rc_db c) = None \<and>
      CI (view (World ?s)) (rc_db c) (?d0\<lparr>db_tab := upgraded (db_tab ?d0)\<rparr>) (c, World s1)"
    then show "wp (seqE (modE (\<lambda>s. s\<lparr>CONNS := (CONNS s)(rel \<mapsto> c)\<rparr>))
        (if TX_RELS s = {} then register_hooks all_hooks else ret ()))
        (\<lambda>_ s'. rel_db view s' rel = Some d \<and> op_frame h view up rel s s') s1"
      using post [of "s1\<lparr>CONNS := (CONNS s)(rel \<mapsto> c)\<rparr>" c]
        post [of "s1\<lparr>CONNS := (CONNS s)(rel \<mapsto> c), HOOKS := HOOKS s @ all_hooks\<rparr>" c]
      by (cases "TX_RELS s = {}") (simp_all add: register_hooks_def wp_rules entered_hooks_def d)
  qed
  then show ?thesis
    using none new by (cases "TX_RELS s = {}") (simp_all add: ensure_in_xact_def wp_rules all_hooks_def)
qed

lemma ensure_spec:
  assumes ok: "BK s" and a: "avail h view s rel d"
  shows "wp (ensure_in_xact h rel) (\<lambda>_ s'. rel_db view s' rel = Some d \<and> op_frame h view up rel s s') s"
proof (cases "CONNS s rel")
  case (Some c)
  then have "rel_db view (entered rel s) rel = Some d" using a by (simp add: avail_def rel_db_def entered_def)
  moreover have "op_frame h view up rel s (entered rel s)"
    using ok by (auto simp: op_frame_def backend_ok_def entered_def rel_db_def avail_def dir_of_def fun_eq_iff
        split: option.splits)
  ultimately show ?thesis by (intro wp_mono [OF wp_ensure_cached [OF Some]]) simp
qed (rule ensure_new [OF assms])

text \<open>
  The lifting rule: \<open>f\<close> takes the connection from \<open>d\<close> to some \<open>d'\<close> with \<open>Q x d'\<close>.
\<close>

lemma with_conn_spec:
  assumes ok: "BK s" and a: "avail h view s rel d"
    and f: "\<And>e0 db cs. CI e0 db d cs \<Longrightarrow>
      wp f (\<lambda>x cs'. \<exists>d'. CI e0 db d' cs' \<and> db_path d' = db_path d \<and> Q x d') cs"
  shows "wp (with_conn h rel f)
    (\<lambda>x s'. \<exists>d'. rel_db view s' rel = Some d' \<and> Q x d' \<and> op_frame h view up rel s s') s"
  unfolding with_conn_def
proof (rule wpS [OF ensure_spec [OF ok a]], elim conjE)
  fix s1 assume d: "rel_db view s1 rel = Some d" and fr: "op_frame h view up rel s s1"
  then have ok1: "BK s1" by (simp add: op_frame_def)
  obtain c where c: "CONNS s1 rel = Some c" and dc: "conn_ok (view (World s1)) c d"
    using rel_db_Some [OF ok1 d] by blast
  obtain dir where dir: "SQLITE_DIR s1 = Some dir" "db_path d = rel_path dir rel"
    using backend_ok_D [OF ok1 c] dc conn_ok_unique by metis
  have I: "CI (view (World s1)) (rc_db c) d (c, World s1)"
    using dc backend_ok_up [OF ok1] by (simp add: cinv_def)
  show "wp (on_conn rel f) (\<lambda>x s'. \<exists>d'. rel_db view s' rel = Some d' \<and> Q x d' \<and> op_frame h view up rel s s') s1"
  proof (rule wp_on_conn [OF c], rule wp_mono [OF f [OF I]], elim exE conjE)
    fix x cs' d' assume I': "CI (view (World s1)) (rc_db c) d' cs'" and p: "db_path d' = db_path d" and Q: "Q x d'"
    let ?s = "s1\<lparr>CONNS := (CONNS s1)(rel \<mapsto> fst cs'), World := snd cs'\<rparr>"
    have same: "same_but (rc_db c) (rel_path dir rel) (view (World s1)) (view (World ?s))"
      using I' by (simp add: cinv_def p dir)
    have "rel_db view ?s r = rel_db view s1 r" "avail h view ?s r = avail h view s1 r" if "r \<noteq> rel" for r
      using other_rel_same [OF ok1 same _ _ that, of h] that dir(1) backend_ok_inj [OF ok1 _ c, of r]
      by (auto simp: dir_of_def)
    with fr backend_ok_upd(1,2) [OF ok1 c dc p I' refl]
    have "op_frame h view up rel s ?s" "rel_db view ?s rel = Some d'"
      by (simp_all add: op_frame_def dir_of_def)
    with Q show "\<exists>d'. rel_db view ?s rel = Some d' \<and> Q x d' \<and> op_frame h view up rel s ?s" by blast
  qed
qed

lemma open_conn_newer:
  fixes rel
  assumes ok: "BK s" and d: "dir_of h s = Some dir" "CHR 0x00 \<notin> set dir"
  defines "d0 \<equiv> open_conn_at (rel_path dir rel) (view (World s))"
  assumes v: "SCHEMA_VERSION < user_version (db_tab d0)" "user_version (db_tab d0) < 2 ^ 31"
  shows "\<exists>m s'. open_conn h rel s = Some (Panic m, s') \<and> CONNS s' = CONNS s \<and> TX_RELS s' = TX_RELS s \<and> HOOKS s' = HOOKS s"
proof -
  let ?p = "rel_path dir rel" and ?e = "view (World s)"
  have "wp (path_for h rel) (\<lambda>p s1. p = ?p \<and> BK s1 \<and> view (World s1) = ?e \<and>
      CONNS s1 = CONNS s \<and> TX_RELS s1 = TX_RELS s \<and> HOOKS s1 = HOOKS s) s"
    unfolding path_for_def by (rule wpB [OF with_dir_spec [OF ok d(1)]]) (simp add: wp_ret rel_path_def)
  then obtain s1 where s1: "path_for h rel s = Some (Ok ?p, s1)" "BK s1" "view (World s1) = ?e"
    "CONNS s1 = CONNS s" "TX_RELS s1 = TX_RELS s" "HOOKS s1 = HOOKS s" by (auto simp: wp_def)
  from open_ok [OF backend_ok_up [OF s1(2)], of ?p] obtain db w where
    op: "sqlite3_open_v2 h ?p (World s1) = ((SQLITE_OK, Some db), w)"
    and idle: "\<And>st q. e_stmts ?e st = Some q \<Longrightarrow> st_db q \<noteq> db"
    and w: "view w = put_conn db d0 ?e" "up w"
    unfolding s1(3) d0_def by (cases "sqlite3_open_v2 h ?p (World s1)") auto
  have "db_txn d0 = None" "db_path d0 = ?p" by (simp_all add: d0_def open_conn_at_def)
  then have "CI ?e db d0 (RelConn_new db, w)"
    using w idle by (auto simp: cinv_def conn_ok_def same_but_def RelConn_new_def put_conn_def committed_def)
  from init_conn_newer [OF this v] obtain m c' w' where
    "init_conn h (RelConn_new db, w) = Some (Panic m, (c', w'))" by auto
  then show ?thesis
    using s1 rel_path_clean [OF d(2), of rel]
    by (simp add: open_conn_def bindE_def hostB_def callE_def op setup_conn_def)
qed

end

text \<open>A panic while the connection is opened leaves the relation in \<open>TX_RELS\<close> and without a connection.\<close>

lemma ensure_open_panic:
  assumes "CONNS s rel = None" and "rel \<notin> TX_RELS s"
    and "open_conn h rel (s\<lparr>TX_RELS := insert rel (TX_RELS s)\<rparr>) = Some (Panic m, s')"
  shows "ensure_in_xact h rel s = Some (Panic m, s')"
  using assms by (simp add: ensure_in_xact_def bindE_def seqE_def getE_def modE_def ret_def)

lemma with_conn_uncached:
  assumes "CONNS s rel = None" and "rel \<in> TX_RELS s"
  shows "with_conn h rel f s = Some (Panic ''connection should be cached'', s)"
  using assms
  by (simp add: with_conn_def ensure_in_xact_def bindE_def seqE_def getE_def modE_def ret_def insert_absorb on_conn_def)
    (cases s, auto simp: insert_absorb)

end
