(* ===== verification/Row_Store.thy ===== *)
theory Row_Store
  imports Backend_Inv
begin

text \<open>
  The operations on a relation's file (\<open>src/sqlite.rs\<close>, from \<open>meta_get\<close> on): each opens the
  SQLite transaction if it writes, prepares its statement, binds and steps it. The \<open>while
  step_row\<close> loops run as long as the engine delivers rows, so they are partial functions.
\<close>

section \<open>Operations\<close>

definition meta_get :: "'w host \<Rightarrow> u32 \<Rightarrow> string \<Rightarrow> ('w backend, bytes option) prog" where
  "meta_get h rel key = with_conn h rel
     (bindE (prepare_cached h ''SELECT value FROM meta WHERE key = ?1'') (\<lambda>st.
      seqE (bind_text h st 1 key)
     (bindE (step_row h st) (\<lambda>hit.
        if \<not> hit then ret None
        else bindE (getE (\<lambda>s. col_blob h st 0 (snd s))) (\<lambda>b. ret (Some b))))))"

definition meta_set :: "'w host \<Rightarrow> u32 \<Rightarrow> string \<Rightarrow> bytes \<Rightarrow> ('w backend, unit) prog" where
  "meta_set h rel key v = with_conn h rel
     (seqE (begin_if_needed h)
     (bindE (prepare_cached h (''INSERT INTO meta (key, value) VALUES (?1, ?2) '' @
          ''ON CONFLICT(key) DO UPDATE SET value = excluded.value'')) (\<lambda>st.
      seqE (bind_text h st 1 key) (seqE (bind_blob h st 2 v) (step_done h st)))))"

definition reset :: "'w host \<Rightarrow> u32 \<Rightarrow> ('w backend, unit) prog" where
  "reset h rel = with_conn h rel (seqE (begin_if_needed h) (exec h ''DELETE FROM storage;''))"

definition drop_relation :: "u32 \<Rightarrow> ('w backend, unit) prog" where
  "drop_relation rel = register_hooks [CommitUnlink rel]"

definition unlink_storage :: "'w host \<Rightarrow> u32 \<Rightarrow> ('w backend, unit) prog" where
  "unlink_storage h rel =
     bindE (getE (\<lambda>s. CONNS s rel)) (\<lambda>c.
     seqE (case c of None \<Rightarrow> ret ()
           | Some c \<Rightarrow> modE (\<lambda>s. s\<lparr>CONNS := (CONNS s)(rel := None), World := drop_conn h c (World s)\<rparr>))
    (seqE (modE (\<lambda>s. s\<lparr>TX_RELS := TX_RELS s - {rel}\<rparr>))
    (bindE (path_for h rel) (\<lambda>base.
     seqE (hostWB (fs_remove_file h base))
    (seqE (hostWB (fs_remove_file h (with_extension base ''sqlite-wal'')))
          (hostWB (fs_remove_file h (with_extension base ''sqlite-shm''))))))))"

definition insert_row :: "'w host \<Rightarrow> u32 \<Rightarrow> u32 \<Rightarrow> u32 \<Rightarrow> bytes \<Rightarrow> ('w backend, int) prog" where
  "insert_row h rel xid cid bs = with_conn h rel
     (seqE (begin_if_needed h)
     (bindE (prepare_cached h ''INSERT INTO storage (xmin, cmin, tuple) VALUES (?1, ?2, ?3)'') (\<lambda>st.
      seqE (bind_u32 h st 1 xid) (seqE (bind_u32 h st 2 cid) (seqE (bind_blob h st 3 bs)
     (seqE (step_done h st)
           (getE (\<lambda>s. sqlite3_last_insert_rowid h (rc_db (fst s)) (snd s)))))))))"

fun batch_loop :: "'w host \<Rightarrow> stp \<Rightarrow> int list \<Rightarrow> bytes list \<Rightarrow> ('w cstate, int list) prog" where
  "batch_loop h st rowids [] = ret rowids"
| "batch_loop h st rowids (bs # tuples) =
     seqE (bind_blob h st 3 bs) (seqE (step_done h st)
    (bindE (getE (\<lambda>s. sqlite3_last_insert_rowid h (rc_db (fst s)) (snd s))) (\<lambda>rid.
     seqE (hostW (sqlite3_reset h st)) (batch_loop h st (rowids @ [rid]) tuples))))"

definition insert_batch :: "'w host \<Rightarrow> u32 \<Rightarrow> u32 \<Rightarrow> u32 \<Rightarrow> bytes list \<Rightarrow> ('w backend, int list) prog" where
  "insert_batch h rel xid cid tuples = with_conn h rel
     (seqE (begin_if_needed h)
     (bindE (prepare_cached h ''INSERT INTO storage (xmin, cmin, tuple) VALUES (?1, ?2, ?3)'') (\<lambda>st.
      seqE (bind_u32 h st 1 xid) (seqE (bind_u32 h st 2 cid) (batch_loop h st [] tuples)))))"

definition row_from :: "'w host \<Rightarrow> stp \<Rightarrow> 'w \<Rightarrow> StoredRow" where
  "row_from h st w = \<lparr>header = header_from h st w, tuple = col_blob h st 5 w\<rparr>"

partial_function (option) select_loop ::
    "'w host \<Rightarrow> stp \<Rightarrow> StoredRow list \<Rightarrow> 'w cstate \<Rightarrow> (StoredRow list res \<times> 'w cstate) option" where
  "select_loop h st out s =
     (case step_row h st s of
        None \<Rightarrow> None
      | Some (r, s') \<Rightarrow>
          (case r of
             Panic e \<Rightarrow> Some (Panic e, s')
           | Ok hit \<Rightarrow> if hit then select_loop h st (out @ [row_from h st (snd s')]) s'
                     else Some (Ok out, s')))"

definition select_all :: "'w host \<Rightarrow> u32 \<Rightarrow> ('w backend, StoredRow list) prog" where
  "select_all h rel = with_conn h rel
     (bindE (prepare_cached h ''SELECT rowid, xmin, cmin, xmax, cmax, tuple FROM storage ORDER BY rowid'')
       (\<lambda>st. select_loop h st []))"

fun bind_rowids :: "'w host \<Rightarrow> stp \<Rightarrow> nat \<Rightarrow> int list \<Rightarrow> ('w cstate, unit) prog" where
  "bind_rowids h st i [] = ret ()"
| "bind_rowids h st i (rid # rids) = seqE (bind_i64 h st (i + 1) rid) (bind_rowids h st (i + 1) rids)"

partial_function (option) xmax_loop ::
    "'w host \<Rightarrow> stp \<Rightarrow> (int \<rightharpoonup> u32) \<Rightarrow> 'w cstate \<Rightarrow> ((int \<rightharpoonup> u32) res \<times> 'w cstate) option" where
  "xmax_loop h st m s =
     (case step_row h st s of
        None \<Rightarrow> None
      | Some (r, s') \<Rightarrow>
          (case r of
             Panic e \<Rightarrow> Some (Panic e, s')
           | Ok hit \<Rightarrow>
               if hit then xmax_loop h st (m(col_i64 h st 0 (snd s') \<mapsto> col_u32 h st 1 (snd s'))) s'
               else Some (Ok m, s')))"

definition select_xmax_batch :: "'w host \<Rightarrow> u32 \<Rightarrow> int list \<Rightarrow> ('w backend, int \<rightharpoonup> u32) prog" where
  "select_xmax_batch h rel rids =
     (if rids = [] then ret Map.empty
      else with_conn h rel
        (let sql_text = ''SELECT rowid, xmax FROM storage WHERE rowid IN ('' @
               question_marks (length rids) @ '')''
         in bindE (prepare_cached h sql_text) (\<lambda>st.
            seqE (bind_rowids h st 0 rids) (xmax_loop h st Map.empty))))"

definition select_one :: "'w host \<Rightarrow> u32 \<Rightarrow> int \<Rightarrow> ('w backend, StoredRow option) prog" where
  "select_one h rel rid = with_conn h rel
     (bindE (prepare_cached h ''SELECT rowid, xmin, cmin, xmax, cmax, tuple FROM storage WHERE rowid = ?1'')
       (\<lambda>st. seqE (bind_i64 h st 1 rid)
        (bindE (step_row h st) (\<lambda>hit.
           if \<not> hit then ret None else getE (\<lambda>s. Some (row_from h st (snd s)))))))"

text \<open>\<open>f\<close> is applied to the header and the borrowed blob; \<open>no_row\<close> stands for \<open>false\<close>.\<close>

definition fetch_one_ref ::
    "'w host \<Rightarrow> u32 \<Rightarrow> int \<Rightarrow> (StoredHeader \<Rightarrow> bytes \<Rightarrow> 'a) \<Rightarrow> 'a \<Rightarrow> ('w backend, 'a) prog" where
  "fetch_one_ref h rel rid f no_row = with_conn h rel
     (bindE (prepare_cached h ''SELECT rowid, xmin, cmin, xmax, cmax, tuple FROM storage WHERE rowid = ?1'')
       (\<lambda>st. seqE (bind_i64 h st 1 rid)
        (bindE (step_row h st) (\<lambda>hit.
           if \<not> hit then ret no_row
           else getE (\<lambda>s. f (header_from h st (snd s)) (col_blob h st 5 (snd s)))))))"

definition set_xmax :: "'w host \<Rightarrow> u32 \<Rightarrow> int \<Rightarrow> u32 \<Rightarrow> u32 \<Rightarrow> ('w backend, nat) prog" where
  "set_xmax h rel rid xid cid = with_conn h rel
     (seqE (begin_if_needed h)
     (bindE (prepare_cached h ''UPDATE storage SET xmax = ?1, cmax = ?2 WHERE rowid = ?3 AND xmax = 0'') (\<lambda>st.
      seqE (bind_u32 h st 1 xid) (seqE (bind_u32 h st 2 cid) (seqE (bind_i64 h st 3 rid)
     (seqE (step_done h st)
           (getE (\<lambda>s. sqlite3_changes h (rc_db (fst s)) (snd s)))))))))"

definition update_row :: "'w host \<Rightarrow> u32 \<Rightarrow> int \<Rightarrow> u32 \<Rightarrow> u32 \<Rightarrow> bytes \<Rightarrow> ('w backend, int) prog" where
  "update_row h rel old_rid xid cid new_bytes = with_conn h rel
     (seqE (begin_if_needed h)
     (bindE (prepare_cached h ''UPDATE storage SET xmax = ?1, cmax = ?2 WHERE rowid = ?3 AND xmax = 0'') (\<lambda>upd.
      seqE (bind_u32 h upd 1 xid) (seqE (bind_u32 h upd 2 cid) (seqE (bind_i64 h upd 3 old_rid)
     (seqE (step_done h upd)
     (bindE (prepare_cached h ''INSERT INTO storage (xmin, cmin, tuple) VALUES (?1, ?2, ?3)'') (\<lambda>ins.
      seqE (bind_u32 h ins 1 xid) (seqE (bind_u32 h ins 2 cid) (seqE (bind_blob h ins 3 new_bytes)
     (seqE (step_done h ins)
           (getE (\<lambda>s. sqlite3_last_insert_rowid h (rc_db (fst s)) (snd s))))))))))))))"

definition physical_delete :: "'w host \<Rightarrow> u32 \<Rightarrow> int \<Rightarrow> ('w backend, nat) prog" where
  "physical_delete h rel rid = with_conn h rel
     (seqE (begin_if_needed h)
     (bindE (prepare_cached h ''DELETE FROM storage WHERE rowid = ?1'') (\<lambda>st.
      seqE (bind_i64 h st 1 rid) (seqE (step_done h st)
           (getE (\<lambda>s. sqlite3_changes h (rc_db (fst s)) (snd s)))))))"

definition META_LAST_VACUUM_XMIN :: string where
  "META_LAST_VACUUM_XMIN = ''last_vacuum_xmin''"

definition delete_dead :: "'w host \<Rightarrow> u32 \<Rightarrow> ('w cstate, nat) prog" where
  "delete_dead h oldest_xmin =
     seqE (begin_if_needed h)
    (bindE (prepare_cached h ''DELETE FROM storage WHERE xmax != 0 AND xmax < ?1'') (\<lambda>st.
     seqE (bind_u32 h st 1 oldest_xmin) (seqE (step_done h st)
          (getE (\<lambda>s. sqlite3_changes h (rc_db (fst s)) (snd s))))))"

definition vacuum_watermark :: "bytes option \<Rightarrow> u32" where
  "vacuum_watermark b = (case Option.bind b from_le_bytes of Some v \<Rightarrow> v | None \<Rightarrow> 0)"

definition vacuum_dead :: "'w host \<Rightarrow> u32 \<Rightarrow> u32 \<Rightarrow> ('w backend, nat) prog" where
  "vacuum_dead h rel oldest_xmin =
     bindE (meta_get h rel META_LAST_VACUUM_XMIN) (\<lambda>b.
       if oldest_xmin \<le> vacuum_watermark b then ret 0
       else bindE (with_conn h rel (delete_dead h oldest_xmin)) (\<lambda>removed.
            seqE (meta_set h rel META_LAST_VACUUM_XMIN (to_le_bytes oldest_xmin)) (ret removed)))"

definition estimate_size :: "'w host \<Rightarrow> u32 \<Rightarrow> ('w backend, u64 \<times> int) prog" where
  "estimate_size h rel =
     bindE (path_for h rel) (\<lambda>p.
     bindE (getE (\<lambda>s. case fs_metadata_len h p (World s) of Some n \<Rightarrow> n | None \<Rightarrow> 0)) (\<lambda>file_bytes.
     bindE (with_conn h rel
        (bindE (prepare_cached h ''SELECT count(*) FROM storage'') (\<lambda>st.
         bindE (step_row h st) (\<lambda>hit. if hit then getE (\<lambda>s. col_i64 h st 0 (snd s)) else ret 0)))) (\<lambda>n.
     ret (file_bytes, n))))"

definition schema_version :: "'w host \<Rightarrow> u32 \<Rightarrow> ('w backend, int) prog" where
  "schema_version h rel = with_conn h rel (read_user_version h)"

definition file_path :: "'w host \<Rightarrow> u32 \<Rightarrow> ('w backend, string) prog" where
  "file_path h rel = path_for h rel"

definition list_entry :: "'w host \<Rightarrow> string \<Rightarrow> 'w \<Rightarrow> string \<Rightarrow> (u32 \<times> u64) list" where
  "list_entry h dir w name =
     (if extension name \<noteq> Some ''sqlite'' then []
      else (case parse_u32 (file_stem name) of
              None \<Rightarrow> []
            | Some oid \<Rightarrow>
                [(oid, case fs_metadata_len h (path_join dir name) w of Some n \<Rightarrow> n | None \<Rightarrow> 0)]))"

definition list_files :: "'w host \<Rightarrow> ('w backend, (u32 \<times> u64) list) prog" where
  "list_files h =
     bindE (with_dir h) (\<lambda>dir. getE (\<lambda>s.
       case fs_read_dir h dir (World s) of
         None \<Rightarrow> []
       | Some entries \<Rightarrow> sort (concat (map (list_entry h dir (World s)) entries))))"

section \<open>Each statement over an engine that keeps the contract\<close>

text \<open>The row a scan hands out for a row of the table.\<close>

definition row_of :: "srow \<Rightarrow> StoredRow" where
  "row_of r = \<lparr>header = \<lparr>rowid = rw_id r, xmin = word_of_int (rw_xmin r), cmin = word_of_int (rw_cmin r),
      xmax = word_of_int (rw_xmax r), cmax = word_of_int (rw_cmax r)\<rparr>, tuple = rw_tuple r\<rparr>"

definition find_row :: "int \<Rightarrow> srow list \<Rightarrow> srow option" where
  "find_row rid rs = find (\<lambda>r. rw_id r = rid) rs"

text \<open>The rows a batch of inserts appends, and the rowids it returns.\<close>

fun rows_batch :: "int \<Rightarrow> int \<Rightarrow> bytes list \<Rightarrow> srow list \<Rightarrow> srow list" where
  "rows_batch x c [] rs = rs"
| "rows_batch x c (b # bs) rs = rows_batch x c bs (rows_insert x c b rs)"

fun batch_ids :: "int \<Rightarrow> int \<Rightarrow> bytes list \<Rightarrow> srow list \<Rightarrow> int list" where
  "batch_ids x c [] rs = []"
| "batch_ids x c (b # bs) rs = next_rowid rs # batch_ids x c bs (rows_insert x c b rs)"

definition meta_lookup :: "string \<Rightarrow> tables \<Rightarrow> bytes option" where
  "meta_lookup k t = map_of (meta t) k"

text \<open>Rows in rowid order, with 1-based rowids and columns in the range the engine was given.\<close>

definition rows_ok :: "srow list \<Rightarrow> bool" where
  "rows_ok rs \<longleftrightarrow> sorted_wrt (<) (map rw_id rs) \<and> (\<forall>r \<in> set rs. 1 \<le> rw_id r \<and>
     (\<forall>k \<in> {rw_xmin r, rw_cmin r, rw_xmax r, rw_cmax r}. - (2 ^ 31) \<le> k \<and> k < 2 ^ 31))"

definition put_xmax :: "(int \<rightharpoonup> u32) \<Rightarrow> srow \<Rightarrow> (int \<rightharpoonup> u32)" where
  "put_xmax m r = m(rw_id r \<mapsto> word_of_int (rw_xmax r))"

lemma filter_find: "filter P xs = [] \<longleftrightarrow> find P xs = None"
  "filter P xs = y # ys \<Longrightarrow> find P xs = Some y"
  by (induction xs) (auto split: if_splits)

section \<open>Well-formed storage\<close>

lemma rows_ok_distinct: "rows_ok rs \<Longrightarrow> distinct (map rw_id rs)"
  unfolding rows_ok_def using strict_sorted_iff by blast

lemma rows_ok_sorted: "rows_ok rs \<Longrightarrow> sort_key rw_id rs = rs"
  unfolding rows_ok_def by (intro sorted_sort_id sort_key_id_if_sorted) (auto simp: strict_sorted_iff)

lemma next_rowid_greater: "r \<in> set rs \<Longrightarrow> rw_id r < next_rowid rs"
  using Max_ge [of "set (map rw_id rs)" "rw_id r"] by (auto simp: next_rowid_def)

lemma next_rowid_pos: "rows_ok rs \<Longrightarrow> 1 \<le> next_rowid rs"
proof (cases rs)
  case (Cons r rs')
  then show "rows_ok rs \<Longrightarrow> 1 \<le> next_rowid rs"
    using next_rowid_greater [of r rs] by (auto simp: rows_ok_def)
qed (simp add: next_rowid_def)

lemma sint_u32_range: "- (2 ^ 31) \<le> sint (x :: u32)" "sint x < 2 ^ 31"
  using sint_greater_eq [of x] sint_less [of x] by simp_all

lemma rows_ok_insert: "rows_ok rs \<Longrightarrow> rows_ok (rows_insert (sint (x :: u32)) (sint (c :: u32)) b rs)"
  using next_rowid_greater [of _ rs] next_rowid_pos [of rs] sint_u32_range
  by (auto simp: rows_ok_def rows_insert_def sorted_wrt_append)

lemma map_rw_id_stamp [simp]: "map rw_id (rows_stamp x c rid rs) = map rw_id rs"
  by (simp add: rows_stamp_def)

lemma rows_ok_stamp: "rows_ok rs \<Longrightarrow> rows_ok (rows_stamp (sint (x :: u32)) (sint (c :: u32)) rid rs)"
  using sint_u32_range unfolding rows_ok_def map_rw_id_stamp
  by (auto simp: rows_stamp_def)

lemma rows_ok_filter: "rows_ok rs \<Longrightarrow> rows_ok (filter P rs)"
  by (auto simp: rows_ok_def sorted_wrt_map intro: sorted_wrt_filter)

lemma rows_ok_batch: "rows_ok rs \<Longrightarrow> rows_ok (rows_batch (sint (x :: u32)) (sint (c :: u32)) bs rs)"
  by (induction bs arbitrary: rs) (simp_all add: rows_ok_insert)

lemma next_rowid_stamp [simp]: "next_rowid (rows_stamp x c rid rs) = next_rowid rs"
proof -
  have "(rows_stamp x c rid rs = []) = (rs = [])" by (simp add: rows_stamp_def)
  then show ?thesis unfolding next_rowid_def map_rw_id_stamp by simp
qed

lemma batch_ids_upto:
  "batch_ids x c bs rs = map (\<lambda>i. next_rowid rs + int i) [0..<length bs]"
proof (induction bs arbitrary: rs)
  case (Cons b bs)
  have "next_rowid (rows_insert x c b rs) = next_rowid rs + 1"
    using next_rowid_greater [of _ rs]
    by (cases "rs = []") (auto simp: next_rowid_def rows_insert_def intro!: Max_eqI)
  with Cons show ?case
    by (simp add: upt_conv_Cons map_Suc_upt [symmetric] del: upt_Suc)
qed simp

lemma xmax_fold_lookup:
  "distinct (map rw_id rs) \<Longrightarrow> foldl put_xmax m rs k =
    (case find (\<lambda>r. rw_id r = k) rs of Some r \<Rightarrow> Some (word_of_int (rw_xmax r)) | None \<Rightarrow> m k)"
proof (induction rs arbitrary: m)
  case (Cons r rs)
  from Cons.prems have "rw_id r = k \<Longrightarrow> find (\<lambda>r. rw_id r = k) rs = None" by (auto simp: find_None_iff image_iff)
  with Cons show ?case by (simp add: put_xmax_def split: option.splits)
qed simp

lemma find_filter_id:
  "find (\<lambda>r. rw_id r = k) (filter (\<lambda>r. rw_id r \<in> S) rs) = (if k \<in> S then find (\<lambda>r. rw_id r = k) rs else None)"
  by (induction rs) auto

section \<open>Specifications of the operations\<close>

context sqlite_engine
begin

lemma stamp_frag:
  assumes I: "CI e0 db d cs" and T: "has_tables (db_tab d)"
    and K: "\<And>cs' d'. CI e0 db d' cs' \<Longrightarrow>
      db_tab d' = (db_tab d)\<lparr>storage := rows_stamp (sint xid) (sint cid) rid (storage (db_tab d))\<rparr> \<Longrightarrow>
      db_changes d' = length (filter (stampable rid) (storage (db_tab d))) \<Longrightarrow>
      db_txn d' = db_txn d \<Longrightarrow> db_path d' = db_path d \<Longrightarrow> wp K Q cs'"
  shows "wp (bindE (prepare_cached h ''UPDATE storage SET xmax = ?1, cmax = ?2 WHERE rowid = ?3 AND xmax = 0'')
    (\<lambda>st. seqE (bind_u32 h st 1 xid) (seqE (bind_u32 h st 2 cid) (seqE (bind_i64 h st 3 rid)
      (seqE (step_done h st) K))))) Q cs"
  by (rule wpB [OF prepare_spec [OF I, of _ Q_stamp]], simp, simp add: preparable_def T,
      rule wpS [OF bind_u32_spec], assumption, simp, rule wpS [OF bind_u32_spec], assumption, simp,
      rule wpS [OF bind_i64_spec], assumption, simp, rule wpS [OF step_done_spec], assumption, simp, simp, simp,
      rule K, erule SI_D(1), simp_all)

lemma insert_frag:
  assumes I: "CI e0 db d cs" and T: "has_tables (db_tab d)" and L: "length bs \<le> 1000000000"
    and N: "next_rowid (storage (db_tab d)) \<le> i64_max"
    and K: "\<And>cs' d'. CI e0 db d' cs' \<Longrightarrow>
      db_tab d' = (db_tab d)\<lparr>storage := rows_insert (sint xid) (sint cid) bs (storage (db_tab d))\<rparr> \<Longrightarrow>
      db_last_rowid d' = next_rowid (storage (db_tab d)) \<Longrightarrow>
      db_txn d' = db_txn d \<Longrightarrow> db_path d' = db_path d \<Longrightarrow> wp K Q cs'"
  shows "wp (bindE (prepare_cached h ''INSERT INTO storage (xmin, cmin, tuple) VALUES (?1, ?2, ?3)'')
    (\<lambda>st. seqE (bind_u32 h st 1 xid) (seqE (bind_u32 h st 2 cid) (seqE (bind_blob h st 3 bs)
      (seqE (step_done h st) K))))) Q cs"
  by (rule wpB [OF prepare_spec [OF I, of _ Q_insert]], simp, simp add: preparable_def T,
      rule wpS [OF bind_u32_spec], assumption, simp, rule wpS [OF bind_u32_spec], assumption, simp,
      rule wpS [OF bind_blob_spec], assumption, simp, rule L,
      rule wpS [OF step_done_spec], assumption, simp, simp, simp add: N,
      rule K, erule SI_D(1), simp_all)

lemma rowid_frag:
  "CI e0 db d cs \<Longrightarrow> Q (db_last_rowid d) cs \<Longrightarrow>
    wp (getE (\<lambda>s. sqlite3_last_insert_rowid h (rc_db (fst s)) (snd s))) Q cs"
  using CI_D [of e0 db d cs] by (simp add: wp_rules last_insert_rowid_ok)

lemma changes_frag:
  "CI e0 db d cs \<Longrightarrow> Q (db_changes d) cs \<Longrightarrow>
    wp (getE (\<lambda>s. sqlite3_changes h (rc_db (fst s)) (snd s))) Q cs"
  using CI_D [of e0 db d cs] by (simp add: wp_rules changes_ok)

lemma insert_row_spec:
  assumes "BK s" and "avail h view s rel d" and "has_tables (db_tab d)" and "length bs \<le> 1000000000"
    and "next_rowid (storage (db_tab d)) \<le> i64_max"
  shows "wp (insert_row h rel xid cid bs) (\<lambda>rid s'. \<exists>d'. rel_db view s' rel = Some d' \<and>
    (rid = next_rowid (storage (db_tab d)) \<and>
     db_tab d' = (db_tab d)\<lparr>storage := rows_insert (sint xid) (sint cid) bs (storage (db_tab d))\<rparr> \<and>
     db_txn d' = db_txn (begun d)) \<and> op_frame h view up rel s s') s"
  unfolding insert_row_def
  by (rule with_conn_spec [OF assms(1,2)], rule wpS [OF begin_spec], assumption,
      rule insert_frag, assumption, use assms(3-5) in simp_all, rule rowid_frag, assumption, auto)

lemma set_xmax_spec:
  assumes "BK s" and "avail h view s rel d" and "has_tables (db_tab d)"
  shows "wp (set_xmax h rel rid xid cid) (\<lambda>n s'. \<exists>d'. rel_db view s' rel = Some d' \<and>
    (n = length (filter (stampable rid) (storage (db_tab d))) \<and>
     db_tab d' = (db_tab d)\<lparr>storage := rows_stamp (sint xid) (sint cid) rid (storage (db_tab d))\<rparr> \<and>
     db_txn d' = db_txn (begun d)) \<and> op_frame h view up rel s s') s"
  unfolding set_xmax_def
  by (rule with_conn_spec [OF assms(1,2)], rule wpS [OF begin_spec], assumption,
      rule stamp_frag, assumption, use assms(3) in simp, rule changes_frag, assumption, auto)

lemma update_row_spec:
  assumes "BK s" and "avail h view s rel d" and "has_tables (db_tab d)" and "length bs \<le> 1000000000"
    and N: "next_rowid (rows_stamp (sint xid) (sint cid) rid (storage (db_tab d))) \<le> i64_max"
  shows "wp (update_row h rel rid xid cid bs) (\<lambda>new s'. \<exists>d'. rel_db view s' rel = Some d' \<and>
    (new = next_rowid (rows_stamp (sint xid) (sint cid) rid (storage (db_tab d))) \<and>
     db_tab d' = (db_tab d)\<lparr>storage := rows_insert (sint xid) (sint cid) bs
       (rows_stamp (sint xid) (sint cid) rid (storage (db_tab d)))\<rparr> \<and>
     db_txn d' = db_txn (begun d)) \<and> op_frame h view up rel s s') s"
  unfolding update_row_def
  by (rule with_conn_spec [OF assms(1,2)], rule wpS [OF begin_spec], assumption,
      rule stamp_frag, assumption, use assms(3) in simp,
      rule insert_frag, assumption, use assms(3-5) in simp_all, rule rowid_frag, assumption, auto)

lemma col_blob_at:
  "SI e0 db d st s cs \<Longrightarrow> st_phase s = AtRow r rest \<Longrightarrow> i < length r \<Longrightarrow> r ! i = SBlob b \<Longrightarrow>
    col_blob h st i (snd cs) = b"
  using SI_D(4) [of e0 db d st s cs] current_row_at [of e0 db d st s cs r rest]
    column_blob_ok [of "snd cs" i st b]
  by (cases b) (simp_all add: col_blob_def Let_def)

lemma row_from_at:
  assumes "SI e0 db d st s cs" and "st_phase s = AtRow (srow_vals r) rest"
  shows "row_from h st (snd cs) = row_of r"
    and "header_from h st (snd cs) = header (row_of r)" and "col_blob h st 5 (snd cs) = rw_tuple r"
  using col_int_at [OF assms] col_blob_at [OF assms, of 5]
  by (simp_all add: row_from_def header_from_def row_of_def srow_vals_def numeral_eq_Suc)

lemma deliver_step:
  assumes I: "SI e0 db d st s cs" and st: "step_stmt s d = (case deliver rows s of (b, s') \<Rightarrow> Some (b, s', d))"
  shows "wp (step_row h st) (\<lambda>x cs'. (x \<longleftrightarrow> rows \<noteq> []) \<and> SI e0 db d st (snd (deliver rows s)) cs') cs"
  by (rule wp_mono [OF step_row_spec [OF I, of "rows \<noteq> []" "snd (deliver rows s)"]])
    (use st in \<open>cases rows; simp\<close>)+

text \<open>A statement loop hands out every row of the query, in the order of the query.\<close>

lemma select_loop_spec:
  assumes "SI e0 db d st s cs"
    and "step_stmt s d = (case deliver (map srow_vals rs) s of (b, s') \<Rightarrow> Some (b, s', d))"
  shows "wp (select_loop h st out) (\<lambda>x cs'. x = out @ map row_of rs \<and> CI e0 db d cs') cs"
  using assms
proof (induction rs arbitrary: s cs out)
  case Nil
  from deliver_step [OF Nil.prems] obtain cs' where "step_row h st cs = Some (Ok False, cs')"
    "SI e0 db d st (s\<lparr>st_phase := Finished\<rparr>) cs'" by (auto simp: wp_def)
  then show ?case by (auto simp: wp_def select_loop.simps [of h st out cs] dest: SI_D(1))
next
  case (Cons r rs)
  let ?s = "s\<lparr>st_phase := AtRow (srow_vals r) (map srow_vals rs)\<rparr>"
  from deliver_step [OF Cons.prems] obtain cs' where hit: "step_row h st cs = Some (Ok True, cs')"
    and I: "SI e0 db d st ?s cs'" by (auto simp: wp_def)
  have "step_stmt ?s d = (case deliver (map srow_vals rs) ?s of (b, s') \<Rightarrow> Some (b, s', d))"
    by (simp add: step_stmt_def)
  from Cons.IH [OF I this, of "out @ [row_of r]"] hit row_from_at(1) [OF I]
  show ?case by (simp add: wp_def select_loop.simps [of h st out cs])
qed

lemma select_all_spec:
  assumes "BK s" and "avail h view s rel d" and "has_tables (db_tab d)"
  shows "wp (select_all h rel) (\<lambda>rows s'. \<exists>d'. rel_db view s' rel = Some d' \<and>
    (rows = map row_of (sort_key rw_id (storage (db_tab d))) \<and> d' = d) \<and> op_frame h view up rel s s') s"
  unfolding select_all_def
proof (rule with_conn_spec [OF assms(1,2)])
  fix e0 db cs assume I: "CI e0 db d cs"
  show "wp (bindE (prepare_cached h ''SELECT rowid, xmin, cmin, xmax, cmax, tuple FROM storage ORDER BY rowid'')
      (\<lambda>st. select_loop h st []))
    (\<lambda>rows cs'. \<exists>d'. CI e0 db d' cs' \<and> db_path d' = db_path d \<and>
      rows = map row_of (sort_key rw_id (storage (db_tab d))) \<and> d' = d) cs"
    by (rule wpB [OF prepare_spec [OF I, of _ Q_select_all]], simp, simp add: preparable_def assms(3),
        rule wp_mono [OF select_loop_spec [where rs = "sort_key rw_id (storage (db_tab d))"]],
        assumption, simp add: step_stmt_def, auto)
qed

lemma one_frag:
  assumes I: "CI e0 db d cs" and T: "has_tables (db_tab d)"
    and none: "\<And>cs'. find_row rid (storage (db_tab d)) = None \<Longrightarrow> CI e0 db d cs' \<Longrightarrow> wp miss Q cs'"
    and some: "\<And>st s cs' r rest. find_row rid (storage (db_tab d)) = Some r \<Longrightarrow> SI e0 db d st s cs' \<Longrightarrow>
      st_phase s = AtRow (srow_vals r) rest \<Longrightarrow> wp (found st) Q cs'"
  shows "wp (bindE (prepare_cached h ''SELECT rowid, xmin, cmin, xmax, cmax, tuple FROM storage WHERE rowid = ?1'')
    (\<lambda>st. seqE (bind_i64 h st 1 rid) (bindE (step_row h st) (\<lambda>hit. if \<not> hit then miss else found st)))) Q cs"
proof (rule wpB [OF prepare_spec [OF I, of _ Q_select_one]], simp, simp add: preparable_def T,
    rule wpS [OF bind_i64_spec], assumption, simp)
  fix st u cs'
  let ?s = "bind_stmt 1 (SInt rid) (fresh_stmt db Q_select_one)"
  let ?rs = "filter (\<lambda>r. rw_id r = rid) (storage (db_tab d))"
  assume J: "SI e0 db d st ?s cs'"
  have "step_stmt ?s d = (case deliver (map srow_vals ?rs) ?s of (b, s') \<Rightarrow> Some (b, s', d))"
    by (simp add: step_stmt_def)
  note D = deliver_step [OF J this]
  show "wp (bindE (step_row h st) (\<lambda>hit. if \<not> hit then miss else found st)) Q cs'"
  proof (cases ?rs)
    case Nil
    then have "find_row rid (storage (db_tab d)) = None" by (simp add: find_row_def filter_find(1))
    then show ?thesis by (intro wpB [OF D]) (use Nil in \<open>auto intro: none dest: SI_D(1)\<close>)
  next
    case (Cons r rs)
    then have "find_row rid (storage (db_tab d)) = Some r" by (simp add: find_row_def filter_find(2))
    then show ?thesis
      by (intro wpB [OF D]) (use Cons in \<open>auto intro!: some [where r = r and rest = "map srow_vals rs"]\<close>)
  qed
qed

lemma select_one_spec:
  assumes "BK s" and "avail h view s rel d" and "has_tables (db_tab d)"
  shows "wp (select_one h rel rid) (\<lambda>x s'. \<exists>d'. rel_db view s' rel = Some d' \<and>
    (x = map_option row_of (find_row rid (storage (db_tab d))) \<and> d' = d) \<and> op_frame h view up rel s s') s"
  unfolding select_one_def
  by (rule with_conn_spec [OF assms(1,2)], rule one_frag [OF _ assms(3)], assumption)
    (auto simp: wp_rules row_from_at dest: SI_D(1))

lemma fetch_one_ref_spec:
  assumes "BK s" and "avail h view s rel d" and "has_tables (db_tab d)"
  shows "wp (fetch_one_ref h rel rid f no_row) (\<lambda>x s'. \<exists>d'. rel_db view s' rel = Some d' \<and>
    (x = (case find_row rid (storage (db_tab d)) of None \<Rightarrow> no_row
          | Some r \<Rightarrow> f (header (row_of r)) (rw_tuple r)) \<and> d' = d) \<and> op_frame h view up rel s s') s"
  unfolding fetch_one_ref_def
  by (rule with_conn_spec [OF assms(1,2)], rule one_frag [OF _ assms(3)], assumption)
    (auto simp: wp_rules row_from_at dest: SI_D(1))

lemma physical_delete_spec:
  assumes "BK s" and "avail h view s rel d" and "has_tables (db_tab d)"
  shows "wp (physical_delete h rel rid) (\<lambda>n s'. \<exists>d'. rel_db view s' rel = Some d' \<and>
    (n = length (filter (\<lambda>r. rw_id r = rid) (storage (db_tab d))) \<and>
     db_tab d' = (db_tab d)\<lparr>storage := rows_delete rid (storage (db_tab d))\<rparr> \<and>
     db_txn d' = db_txn (begun d)) \<and> op_frame h view up rel s s') s"
  unfolding physical_delete_def
  by (rule with_conn_spec [OF assms(1,2)], rule wpS [OF begin_spec], assumption,
      rule wpB [OF prepare_spec [where q = Q_delete]], assumption, simp, simp add: preparable_def assms(3),
      rule wpS [OF bind_i64_spec], assumption, simp, rule wpS [OF step_done_spec], assumption, simp, simp, simp,
      rule changes_frag, erule SI_D(1), auto dest: SI_D(1))

lemma delete_dead_spec:
  assumes "BK s" and "avail h view s rel d" and "has_tables (db_tab d)"
  shows "wp (with_conn h rel (delete_dead h x)) (\<lambda>n s'. \<exists>d'. rel_db view s' rel = Some d' \<and>
    (n = length (filter (reclaimable (sint x)) (storage (db_tab d))) \<and>
     db_tab d' = (db_tab d)\<lparr>storage := rows_vacuum (sint x) (storage (db_tab d))\<rparr> \<and>
     db_txn d' = db_txn (begun d)) \<and> op_frame h view up rel s s') s"
  unfolding delete_dead_def
  by (rule with_conn_spec [OF assms(1,2)], rule wpS [OF begin_spec], assumption,
      rule wpB [OF prepare_spec [where q = Q_vacuum]], assumption, simp, simp add: preparable_def assms(3),
      rule wpS [OF bind_u32_spec], assumption, simp, rule wpS [OF step_done_spec], assumption, simp, simp, simp,
      rule changes_frag, erule SI_D(1), auto dest: SI_D(1))

lemma meta_set_spec:
  assumes "BK s" and "avail h view s rel d" and "has_tables (db_tab d)"
    and "length key \<le> 1000000000" and "length v \<le> 1000000000"
  shows "wp (meta_set h rel key v) (\<lambda>_ s'. \<exists>d'. rel_db view s' rel = Some d' \<and>
    (db_tab d' = (db_tab d)\<lparr>meta := meta_put key v (meta (db_tab d))\<rparr> \<and>
     db_txn d' = db_txn (begun d)) \<and> op_frame h view up rel s s') s"
  unfolding meta_set_def
  by (rule with_conn_spec [OF assms(1,2)], rule wpS [OF begin_spec], assumption,
      rule wpB [OF prepare_spec [where q = Q_meta_set]], assumption, simp, simp add: preparable_def assms(3),
      rule wpS [OF bind_text_spec], assumption, simp, rule assms(4),
      rule wpS [OF bind_blob_spec], assumption, simp, rule assms(5),
      rule wp_mono [OF step_done_spec], assumption, simp, simp, simp, auto dest: SI_D(1))

lemma clear_frag:
  assumes I: "CI e0 db d cs" and T: "has_tables (db_tab d)"
  shows "wp (exec h ''DELETE FROM storage;'') (\<lambda>_. CI e0 db (d\<lparr>db_tab := (db_tab d)\<lparr>storage := []\<rparr>\<rparr>)) cs"
  by (rule exec_conn_spec [OF I, where q = X_clear]) (simp_all add: T)

lemma reset_relation_spec:
  assumes "BK s" and "avail h view s rel d" and "has_tables (db_tab d)"
  shows "wp (reset h rel) (\<lambda>_ s'. \<exists>d'. rel_db view s' rel = Some d' \<and>
    (db_tab d' = (db_tab d)\<lparr>storage := []\<rparr> \<and> db_txn d' = db_txn (begun d)) \<and> op_frame h view up rel s s') s"
  unfolding reset_def
  by (rule with_conn_spec [OF assms(1,2)], rule wpS [OF begin_spec], assumption,
      rule wp_mono [OF clear_frag], assumption, simp add: assms(3), rule exI, erule conjI, simp)

lemma meta_get_spec:
  assumes "BK s" and "avail h view s rel d" and T: "has_tables (db_tab d)"
    and L: "length key \<le> 1000000000"
  shows "wp (meta_get h rel key) (\<lambda>x s'. \<exists>d'. rel_db view s' rel = Some d' \<and>
    (x = meta_lookup key (db_tab d) \<and> d' = d) \<and> op_frame h view up rel s s') s"
  unfolding meta_get_def
proof (rule with_conn_spec [OF assms(1,2)],
    rule wpB [OF prepare_spec [where q = Q_meta_get]], assumption, simp, simp add: preparable_def T,
    rule wpS [OF bind_text_spec], assumption, simp, rule L)
  fix e0 db st u cs
  let ?s = "bind_stmt 1 (SText key) (fresh_stmt db Q_meta_get)"
  let ?es = "filter (\<lambda>e. fst e = key) (meta (db_tab d))"
  assume J: "SI e0 db d st ?s cs"
  have m: "map_of ms key = (case filter (\<lambda>e. fst e = key) ms of [] \<Rightarrow> None | e # _ \<Rightarrow> Some (snd e))" for ms :: "(string \<times> bytes) list"
    by (induction ms) auto
  have "step_stmt ?s d = (case deliver (map (\<lambda>e. [SBlob (snd e)]) ?es) ?s of (b, s') \<Rightarrow> Some (b, s', d))"
    by (simp add: step_stmt_def)
  from deliver_step [OF J this]
  show "wp (bindE (step_row h st) (\<lambda>hit. if \<not> hit then ret None
      else bindE (getE (\<lambda>s. col_blob h st 0 (snd s))) (\<lambda>b. ret (Some b))))
    (\<lambda>x cs'. \<exists>d'. CI e0 db d' cs' \<and> db_path d' = db_path d \<and> x = meta_lookup key (db_tab d) \<and> d' = d) cs"
    by (rule wpB) (cases ?es; auto simp: wp_rules meta_lookup_def m dest: SI_D(1) col_blob_at)
qed

text \<open>The bulk path: one prepared statement, rebound and stepped for every tuple.\<close>

lemma batch_loop_spec:
  assumes "SI e0 db d st s cs" and "st_phase s = Ready" and "st_sql s = Q_insert"
    and "st_binds s 1 = SInt x" and "st_binds s 2 = SInt c"
    and "\<forall>b \<in> set bs. length b \<le> 1000000000"
    and "\<forall>i \<in> set (batch_ids x c bs (storage (db_tab d))). i \<le> i64_max"
  shows "wp (batch_loop h st ids bs) (\<lambda>r cs'. r = ids @ batch_ids x c bs (storage (db_tab d)) \<and>
    (\<exists>d'. CI e0 db d' cs' \<and> db_tab d' = (db_tab d)\<lparr>storage := rows_batch x c bs (storage (db_tab d))\<rparr> \<and>
      db_txn d' = db_txn d \<and> db_path d' = db_path d)) cs"
  using assms
proof (induction bs arbitrary: ids d s cs)
  case Nil
  then show ?case by (auto simp: wp_rules dest: SI_D(1) intro!: exI [of _ d])
next
  case (Cons b bs)
  let ?s = "bind_stmt 3 (SBlob b) s"
  let ?t = "(db_tab d)\<lparr>storage := rows_insert x c b (storage (db_tab d))\<rparr>"
  let ?d = "d\<lparr>db_tab := ?t, db_changes := 1, db_last_rowid := next_rowid (storage (db_tab d))\<rparr>"
  have step: "wp (step_done h st) (\<lambda>_. SI e0 db ?d st (?s\<lparr>st_phase := Finished\<rparr>)) cs'"
    if "SI e0 db d st ?s cs'" for cs'
    using step_done_spec [OF that, of ?t 1 "Some (next_rowid (storage (db_tab d)))"] Cons.prems by simp
  have IH: "wp (batch_loop h st (ids @ [next_rowid (storage (db_tab d))]) bs)
      (\<lambda>r cs'. r = ids @ batch_ids x c (b # bs) (storage (db_tab d)) \<and>
        (\<exists>d'. CI e0 db d' cs' \<and> db_tab d' = (db_tab d)\<lparr>storage := rows_batch x c (b # bs) (storage (db_tab d))\<rparr> \<and>
          db_txn d' = db_txn d \<and> db_path d' = db_path d)) cs'"
    if "SI e0 db ?d st (?s\<lparr>st_phase := Ready\<rparr>) cs'" for cs'
    using Cons.IH [OF that, of "ids @ [next_rowid (storage (db_tab d))]"] Cons.prems by simp
  show ?case
    unfolding batch_loop.simps
    by (rule wpS [OF bind_blob_spec [OF Cons.prems(1,2)]], use Cons.prems in simp,
        rule wpS [OF step], assumption, rule wpB, rule rowid_frag [where Q = "\<lambda>r cs'. r = next_rowid (storage (db_tab d)) \<and> SI e0 db ?d st (?s\<lparr>st_phase := Finished\<rparr>) cs'"],
        erule SI_D(1), simp, simp only:, erule conjE, rule wpS [OF reset_spec], assumption, rule IH, simp)
qed

lemma insert_batch_spec:
  assumes "BK s" and "avail h view s rel d" and "has_tables (db_tab d)"
    and "\<forall>b \<in> set bs. length b \<le> 1000000000"
    and "\<forall>i \<in> set (batch_ids (sint xid) (sint cid) bs (storage (db_tab d))). i \<le> i64_max"
  shows "wp (insert_batch h rel xid cid bs) (\<lambda>ids s'. \<exists>d'. rel_db view s' rel = Some d' \<and>
    (ids = batch_ids (sint xid) (sint cid) bs (storage (db_tab d)) \<and>
     db_tab d' = (db_tab d)\<lparr>storage := rows_batch (sint xid) (sint cid) bs (storage (db_tab d))\<rparr> \<and>
     db_txn d' = db_txn (begun d)) \<and> op_frame h view up rel s s') s"
  unfolding insert_batch_def
  by (rule with_conn_spec [OF assms(1,2)], rule wpS [OF begin_spec], assumption,
      rule wpB [OF prepare_spec [where q = Q_insert]], assumption, simp, simp add: preparable_def assms(3),
      rule wpS [OF bind_u32_spec], assumption, simp, rule wpS [OF bind_u32_spec], assumption, simp,
      rule wp_mono [OF batch_loop_spec [where x = "sint xid" and c = "sint cid"]], assumption,
      simp, simp, simp, simp, rule assms(4), simp add: assms(5), auto)

lemma bind_rowids_spec:
  assumes "SI e0 db d st s cs" and "st_phase s = Ready"
  shows "wp (bind_rowids h st i rids) (\<lambda>_ cs'. \<exists>s'. SI e0 db d st s' cs' \<and> st_phase s' = Ready \<and>
    st_sql s' = st_sql s \<and> (\<forall>j \<le> i. st_binds s' j = st_binds s j) \<and>
    st_binds s' ` {i + 1..i + length rids} = SInt ` set rids) cs"
  using assms
proof (induction rids arbitrary: i s cs)
  case (Cons rid rids)
  have ivl: "{i + 1..i + length (rid # rids)} = insert (i + 1) {i + 1 + 1..i + 1 + length rids}" by auto
  show ?case
    unfolding bind_rowids.simps
    by (rule wpS [OF bind_i64_spec [OF Cons.prems]], rule wp_mono [OF Cons.IH], assumption,
        use Cons.prems in simp, unfold ivl, elim exE, rule exI, auto)
qed (auto simp: wp_rules)

lemma xmax_loop_spec:
  assumes "SI e0 db d st s cs"
    and "step_stmt s d = (case deliver (map (\<lambda>r. [SInt (rw_id r), SInt (rw_xmax r)]) rs) s of (b, s') \<Rightarrow> Some (b, s', d))"
  shows "wp (xmax_loop h st m) (\<lambda>x cs'. x = foldl put_xmax m rs \<and> CI e0 db d cs') cs"
  using assms
proof (induction rs arbitrary: s cs m)
  case Nil
  from deliver_step [OF Nil.prems] obtain cs' where "step_row h st cs = Some (Ok False, cs')"
    "SI e0 db d st (s\<lparr>st_phase := Finished\<rparr>) cs'" by (auto simp: wp_def)
  then show ?case by (auto simp: wp_def xmax_loop.simps [of h st m cs] dest: SI_D(1))
next
  case (Cons r rs)
  let ?v = "\<lambda>r. [SInt (rw_id r), SInt (rw_xmax r)]"
  let ?s = "s\<lparr>st_phase := AtRow (?v r) (map ?v rs)\<rparr>"
  from deliver_step [OF Cons.prems] obtain cs' where hit: "step_row h st cs = Some (Ok True, cs')"
    and I: "SI e0 db d st ?s cs'" by (auto simp: wp_def)
  have "step_stmt ?s d = (case deliver (map ?v rs) ?s of (b, s') \<Rightarrow> Some (b, s', d))"
    by (simp add: step_stmt_def)
  from Cons.IH [OF I this, of "put_xmax m r"] hit
    col_int_at [OF I, of "?v r" "map ?v rs" 0] col_int_at [OF I, of "?v r" "map ?v rs" 1]
  show ?case by (simp add: wp_def xmax_loop.simps [of h st m cs] put_xmax_def [of m r, symmetric])
qed

lemma select_xmax_batch_spec:
  assumes "BK s" and "avail h view s rel d" and "has_tables (db_tab d)"
    and D: "distinct (map rw_id (storage (db_tab d)))" and N: "rids \<noteq> []"
  shows "wp (select_xmax_batch h rel rids) (\<lambda>m s'. \<exists>d'. rel_db view s' rel = Some d' \<and>
    (m = (\<lambda>k. if k \<in> set rids then map_option (\<lambda>r. word_of_int (rw_xmax r)) (find_row k (storage (db_tab d))) else None) \<and>
     d' = d) \<and> op_frame h view up rel s s') s"
proof -
  let ?rs = "filter (\<lambda>r. rw_id r \<in> set rids) (storage (db_tab d))"
  let ?n = "length rids"
  have sq: "parse_sql (''SELECT rowid, xmax FROM storage WHERE rowid IN ('' @ question_marks ?n @ '')'') = Some (Q_select_xmax ?n)"
    using parse_sql_xmax_batch [of ?n] N by (simp add: xmax_batch_sql_def)
  have res: "foldl put_xmax Map.empty ?rs =
      (\<lambda>k. if k \<in> set rids then map_option (\<lambda>r. word_of_int (rw_xmax r)) (find_row k (storage (db_tab d))) else None)"
    using D by (intro ext) (simp add: xmax_fold_lookup distinct_map_filter find_filter_id find_row_def split: option.splits)
  have step: "step_stmt s' d = (case deliver (map (\<lambda>r. [SInt (rw_id r), SInt (rw_xmax r)]) ?rs) s' of (b, s'') \<Rightarrow> Some (b, s'', d))"
    if "st_phase s' = Ready" "st_sql s' = Q_select_xmax ?n" "st_binds s' ` {0 + 1..0 + ?n} = SInt ` set rids" for s'
    using that by (simp add: step_stmt_def image_iff)
  have body: "wp (bindE (prepare_cached h (''SELECT rowid, xmax FROM storage WHERE rowid IN ('' @ question_marks ?n @ '')''))
      (\<lambda>st. seqE (bind_rowids h st 0 rids) (xmax_loop h st Map.empty)))
    (\<lambda>m cs'. m = foldl put_xmax Map.empty ?rs \<and> CI e0 db d cs') cs" if "CI e0 db d cs" for e0 db cs
    by (rule wpB [OF prepare_spec [OF that sq]], simp add: preparable_def assms(3),
        rule wpS [OF bind_rowids_spec], assumption, simp, elim exE conjE,
        rule xmax_loop_spec, assumption, rule step, simp_all)
  show ?thesis
    unfolding select_xmax_batch_def Let_def if_not_P [OF N] res [symmetric]
    by (rule with_conn_spec [OF assms(1,2)], rule wp_mono [OF body], assumption, auto)
qed

lemma schema_version_spec:
  assumes "BK s" and "avail h view s rel d" and "- (2 ^ 31) \<le> user_version (db_tab d)" "user_version (db_tab d) < 2 ^ 31"
  shows "wp (schema_version h rel) (\<lambda>v s'. \<exists>d'. rel_db view s' rel = Some d' \<and>
    (v = user_version (db_tab d) \<and> d' = d) \<and> op_frame h view up rel s s') s"
  unfolding schema_version_def
  by (rule with_conn_spec [OF assms(1,2)], rule wp_mono [OF read_user_version_spec [OF _ assms(3,4)]], assumption, auto)

lemma count_spec:
  assumes "BK s" and "avail h view s rel d" and T: "has_tables (db_tab d)"
  shows "wp (with_conn h rel (bindE (prepare_cached h ''SELECT count(*) FROM storage'') (\<lambda>st.
      bindE (step_row h st) (\<lambda>hit. if hit then getE (\<lambda>s. col_i64 h st 0 (snd s)) else ret 0))))
    (\<lambda>n s'. \<exists>d'. rel_db view s' rel = Some d' \<and> (n = int (length (storage (db_tab d))) \<and> d' = d) \<and>
      op_frame h view up rel s s') s"
proof (rule with_conn_spec [OF assms(1,2)], rule wpB [OF prepare_spec [where q = Q_count]], assumption, simp,
    simp add: preparable_def T)
  fix e0 db cs st
  let ?row = "[SInt (int (length (storage (db_tab d))))]"
  assume J: "SI e0 db d st (fresh_stmt db Q_count) cs"
  have "step_stmt (fresh_stmt db Q_count) d = (case deliver [?row] (fresh_stmt db Q_count) of (b, s') \<Rightarrow> Some (b, s', d))"
    by (simp add: step_stmt_def)
  from deliver_step [OF J this]
  show "wp (bindE (step_row h st) (\<lambda>hit. if hit then getE (\<lambda>s. col_i64 h st 0 (snd s)) else ret 0))
    (\<lambda>n cs'. \<exists>d'. CI e0 db d' cs' \<and> db_path d' = db_path d \<and> n = int (length (storage (db_tab d))) \<and> d' = d) cs"
    by (rule wpB) (use col_int_at [of e0 db d st _ _ ?row "[]" 0] in \<open>auto simp: wp_rules dest: SI_D(1)\<close>)
qed

end

end
