(* ===== verification/Visibility.thy ===== *)
theory Visibility
  imports Tuple_Ffi
begin

text \<open>
  Snapshot visibility (\<open>src/visibility.rs\<close>). Postgres's transaction functions, which the
  module calls through \<open>src/raw_pg.rs\<close>, are the parameter \<open>pg_xact\<close>: their answers at the
  moment of the call. A snapshot is passed by pointer and \<open>visible_dirty\<close> writes to it, so the
  entry points return the snapshot they leave behind.
\<close>

section \<open>Definitions\<close>

type_synonym TransactionId = u32
type_synonym CommandId = u32

record pg_xact =
  TransactionIdDidCommit :: "TransactionId \<Rightarrow> bool"
  TransactionIdIsCurrentTransactionId :: "TransactionId \<Rightarrow> bool"
  TransactionIdIsInProgress :: "TransactionId \<Rightarrow> bool"
  TransactionIdPrecedes :: "TransactionId \<Rightarrow> TransactionId \<Rightarrow> bool"
  TransactionIdFollows :: "TransactionId \<Rightarrow> TransactionId \<Rightarrow> bool"
  GetCurrentTransactionId :: TransactionId
  GetCurrentCommandId :: CommandId
  GetOldestNonRemovableTransactionId :: "u32 \<Rightarrow> TransactionId"

datatype SnapshotType =
    SNAPSHOT_MVCC | SNAPSHOT_SELF | SNAPSHOT_ANY | SNAPSHOT_TOAST
  | SNAPSHOT_DIRTY | SNAPSHOT_HISTORIC_MVCC | SNAPSHOT_NON_VACUUMABLE

text \<open>\<open>xip\<close> and \<open>subxip\<close> are the arrays of \<open>xcnt\<close> and \<open>subxcnt\<close> entries.\<close>

record Snapshot =
  snapshot_type :: SnapshotType
  snap_xmin :: TransactionId
  snap_xmax :: TransactionId
  xip :: "TransactionId list"
  subxip :: "TransactionId list"
  curcid :: CommandId
  speculativeToken :: u32

definition did_commit :: "pg_xact \<Rightarrow> TransactionId \<Rightarrow> bool" where
  "did_commit pg xid = (if xid = 0 then False else TransactionIdDidCommit pg xid)"

datatype XidView = OurOwnXact | CommittedAndVisible | NotVisible

fun xip_scan :: "TransactionId \<Rightarrow> TransactionId list \<Rightarrow> XidView" where
  "xip_scan xid [] = CommittedAndVisible"
| "xip_scan xid (in_progress # rest) =
     (if xid = in_progress then NotVisible else xip_scan xid rest)"

definition xid_view :: "pg_xact \<Rightarrow> TransactionId \<Rightarrow> Snapshot \<Rightarrow> XidView" where
  "xid_view pg xid snap =
     (if TransactionIdIsCurrentTransactionId pg xid then OurOwnXact
      else if \<not> did_commit pg xid then NotVisible
      else if TransactionIdPrecedes pg xid (snap_xmin snap) then CommittedAndVisible
      else if \<not> TransactionIdPrecedes pg xid (snap_xmax snap) then NotVisible
      else xip_scan xid (xip snap))"

definition visible_mvcc :: "pg_xact \<Rightarrow> StoredHeader \<Rightarrow> Snapshot \<Rightarrow> bool" where
  "visible_mvcc pg row snap =
     (let kept = (if xmax row = 0 then True
                     else (case xid_view pg (xmax row) snap of
                             NotVisible \<Rightarrow> True
                           | OurOwnXact \<Rightarrow> cmax row \<ge> curcid snap
                           | CommittedAndVisible \<Rightarrow> False))
      in case xid_view pg (xmin row) snap of
           NotVisible \<Rightarrow> False
         | OurOwnXact \<Rightarrow> (if cmin row \<ge> curcid snap then False else kept)
         | CommittedAndVisible \<Rightarrow> kept)"

definition visible_self :: "pg_xact \<Rightarrow> StoredHeader \<Rightarrow> bool" where
  "visible_self pg row =
     (let inserted_by_me = TransactionIdIsCurrentTransactionId pg (xmin row)
      in if \<not> inserted_by_me \<and> \<not> did_commit pg (xmin row) then False
         else if xmax row = 0 then True
         else (let deleted_by_me = TransactionIdIsCurrentTransactionId pg (xmax row)
               in \<not> (deleted_by_me \<or> did_commit pg (xmax row))))"

definition dirty_xmax :: "pg_xact \<Rightarrow> StoredHeader \<Rightarrow> Snapshot \<Rightarrow> bool \<times> Snapshot" where
  "dirty_xmax pg row snap =
     (if xmax row = 0 then (True, snap)
      else if TransactionIdIsCurrentTransactionId pg (xmax row) then (False, snap)
      else if TransactionIdIsInProgress pg (xmax row) then (True, snap\<lparr>snap_xmax := xmax row\<rparr>)
      else if did_commit pg (xmax row) then (False, snap)
      else (True, snap))"

definition visible_dirty :: "pg_xact \<Rightarrow> StoredHeader \<Rightarrow> Snapshot \<Rightarrow> bool \<times> Snapshot" where
  "visible_dirty pg row snap0 =
     (let snap = snap0\<lparr>snap_xmin := 0, snap_xmax := 0, speculativeToken := 0\<rparr>
      in if TransactionIdIsCurrentTransactionId pg (xmin row) then dirty_xmax pg row snap
         else if TransactionIdIsInProgress pg (xmin row)
              then dirty_xmax pg row (snap\<lparr>snap_xmin := xmin row\<rparr>)
         else if \<not> did_commit pg (xmin row) then (False, snap)
         else dirty_xmax pg row snap)"

definition visible_non_vacuumable :: "pg_xact \<Rightarrow> StoredHeader \<Rightarrow> bool" where
  "visible_non_vacuumable pg row = (if xmax row = 0 then True else \<not> did_commit pg (xmax row))"

definition row_visible :: "pg_xact \<Rightarrow> StoredHeader \<Rightarrow> Snapshot \<Rightarrow> bool \<times> Snapshot" where
  "row_visible pg row snap =
     (case snapshot_type snap of
        SNAPSHOT_ANY \<Rightarrow> (True, snap)
      | SNAPSHOT_SELF \<Rightarrow> (visible_self pg row, snap)
      | SNAPSHOT_DIRTY \<Rightarrow> visible_dirty pg row snap
      | SNAPSHOT_NON_VACUUMABLE \<Rightarrow> (visible_non_vacuumable pg row, snap)
      | _ \<Rightarrow> (visible_mvcc pg row snap, snap))"

section \<open>Abstract specification\<close>

text \<open>
  What a snapshot sees, stated per effect: command \<open>c\<close> of transaction \<open>x\<close> is seen when it is
  an earlier command of our own transaction, or when \<open>x\<close> committed and was no longer running
  when the snapshot was taken.
\<close>

definition sees :: "pg_xact \<Rightarrow> Snapshot \<Rightarrow> TransactionId \<Rightarrow> CommandId \<Rightarrow> bool" where
  "sees pg snap x c \<longleftrightarrow>
     (if TransactionIdIsCurrentTransactionId pg x then c < curcid snap
      else did_commit pg x \<and>
        (TransactionIdPrecedes pg x (snap_xmin snap) \<or>
         TransactionIdPrecedes pg x (snap_xmax snap) \<and> x \<notin> set (xip snap)))"

definition self_sees :: "pg_xact \<Rightarrow> TransactionId \<Rightarrow> CommandId \<Rightarrow> bool" where
  "self_sees pg x c \<longleftrightarrow> TransactionIdIsCurrentTransactionId pg x \<or> did_commit pg x"

definition new_version :: "int \<Rightarrow> TransactionId \<Rightarrow> CommandId \<Rightarrow> StoredHeader" where
  "new_version rid x c = \<lparr>rowid = rid, xmin = x, cmin = c, xmax = 0, cmax = 0\<rparr>"

definition stamp_dead :: "TransactionId \<Rightarrow> CommandId \<Rightarrow> StoredHeader \<Rightarrow> StoredHeader" where
  "stamp_dead x c h = h\<lparr>xmax := x, cmax := c\<rparr>"

text \<open>
  The contract between the visibility rules and the table: a version is visible when its
  insertion is seen and its deletion, if it has one, is not.
\<close>

locale snapshot_view =
  fixes vis :: "StoredHeader \<Rightarrow> bool" and seen :: "TransactionId \<Rightarrow> CommandId \<Rightarrow> bool"
  assumes vis_iff: "vis h \<longleftrightarrow> seen (xmin h) (cmin h) \<and> \<not> (xmax h \<noteq> 0 \<and> seen (xmax h) (cmax h))"
begin

lemma vis_new: "vis (new_version rid x c) \<longleftrightarrow> seen x c"
  by (simp add: vis_iff new_version_def)

lemma vis_stamped:
  "x \<noteq> 0 \<Longrightarrow> xmax h = 0 \<Longrightarrow> vis (stamp_dead x c h) \<longleftrightarrow> vis h \<and> \<not> seen x c"
  by (auto simp: vis_iff stamp_dead_def)

text \<open>An update replaces one visible version by exactly one other, whoever looks.\<close>

lemma update_one_version:
  assumes "x \<noteq> 0" and "xmax h = 0" and "vis h"
  shows "vis (stamp_dead x c h) \<noteq> vis (new_version rid x c)"
  using assms by (simp add: vis_stamped vis_new)

lemma unseen_insert: "\<not> seen (xmin h) (cmin h) \<Longrightarrow> \<not> vis h"
  by (simp add: vis_iff)

lemma unseen_delete: "x \<noteq> 0 \<Longrightarrow> xmax h = 0 \<Longrightarrow> \<not> seen x c \<Longrightarrow> vis (stamp_dead x c h) = vis h"
  by (simp add: vis_stamped)

end

section \<open>The rules implement the specification\<close>

lemma xip_scan_iff: "xip_scan x xs = (if x \<in> set xs then NotVisible else CommittedAndVisible)"
  by (induction xs) auto

lemma xid_view_OurOwn: "xid_view pg x snap = OurOwnXact \<longleftrightarrow> TransactionIdIsCurrentTransactionId pg x"
  by (auto simp: xid_view_def xip_scan_iff)

lemma sees_xid_view:
  "sees pg snap x c \<longleftrightarrow>
     (case xid_view pg x snap of
        OurOwnXact \<Rightarrow> c < curcid snap | CommittedAndVisible \<Rightarrow> True | NotVisible \<Rightarrow> False)"
  by (auto simp: sees_def xid_view_def xip_scan_iff)

lemma visible_mvcc_sees:
  "visible_mvcc pg h snap \<longleftrightarrow>
     sees pg snap (xmin h) (cmin h) \<and> \<not> (xmax h \<noteq> 0 \<and> sees pg snap (xmax h) (cmax h))"
  by (auto simp: visible_mvcc_def sees_xid_view Let_def not_less split: XidView.splits)

lemma visible_self_sees:
  "visible_self pg h \<longleftrightarrow>
     self_sees pg (xmin h) (cmin h) \<and> \<not> (xmax h \<noteq> 0 \<and> self_sees pg (xmax h) (cmax h))"
  by (auto simp: visible_self_def self_sees_def Let_def)

interpretation mvcc: snapshot_view "\<lambda>h. visible_mvcc pg h snap" "sees pg snap" for pg snap
  by unfold_locales (rule visible_mvcc_sees)

interpretation self: snapshot_view "visible_self pg" "self_sees pg" for pg
  by unfold_locales (rule visible_self_sees)

lemma sees_not_committed:
  "\<not> did_commit pg x \<Longrightarrow> \<not> TransactionIdIsCurrentTransactionId pg x \<Longrightarrow> \<not> sees pg snap x c"
  by (simp add: sees_def)

lemma sees_own: "TransactionIdIsCurrentTransactionId pg x \<Longrightarrow> sees pg snap x c \<longleftrightarrow> c < curcid snap"
  by (simp add: sees_def)

text \<open>Only transactions that were running, or not yet started, may change state later.\<close>

definition finished_only_running :: "pg_xact \<Rightarrow> pg_xact \<Rightarrow> Snapshot \<Rightarrow> bool" where
  "finished_only_running pg pg' snap \<longleftrightarrow>
     (\<forall>x. TransactionIdIsCurrentTransactionId pg' x = TransactionIdIsCurrentTransactionId pg x) \<and>
     (\<forall>x y. TransactionIdPrecedes pg' x y = TransactionIdPrecedes pg x y) \<and>
     (\<forall>x. TransactionIdDidCommit pg' x \<noteq> TransactionIdDidCommit pg x \<longrightarrow>
        \<not> TransactionIdPrecedes pg x (snap_xmin snap) \<and>
        (x \<in> set (xip snap) \<or> \<not> TransactionIdPrecedes pg x (snap_xmax snap)))"

lemma sees_stable:
  "finished_only_running pg pg' snap \<Longrightarrow> sees pg' snap x c = sees pg snap x c"
  by (auto simp: finished_only_running_def sees_def did_commit_def)

end
