(* ===== verification/Seen_Table.thy ===== *)
theory Seen_Table
  imports Row_Store Visibility
begin

text \<open>
  The abstract table: what an MVCC snapshot sees of a relation, as the list of the rowids and
  tuples of its visible row versions. Each operation on the stored rows is an operation on
  what every snapshot sees.
\<close>

section \<open>Definitions\<close>

definition visible_row :: "pg_xact \<Rightarrow> Snapshot \<Rightarrow> srow \<Rightarrow> bool" where
  "visible_row pg snap r = visible_mvcc pg (header (row_of r)) snap"

definition seen_table :: "pg_xact \<Rightarrow> Snapshot \<Rightarrow> srow list \<Rightarrow> (int \<times> bytes) list" where
  "seen_table pg snap rs = map (\<lambda>r. (rw_id r, rw_tuple r)) (filter (visible_row pg snap) rs)"

text \<open>A rowid is live when its row has no deleter stamped.\<close>

definition live_row :: "int \<Rightarrow> srow list \<Rightarrow> bool" where
  "live_row rid rs \<longleftrightarrow> (\<exists>r \<in> set rs. stampable rid r)"

text \<open>
  \<open>holds h view up s rel t\<close>: over an engine that keeps the contract and in a consistent
  backend, an operation on \<open>rel\<close> finds the tables \<open>t\<close>, well formed. \<open>alone\<close>: the tables of
  every other relation are the same in both states.
\<close>

definition holds :: "'w host \<Rightarrow> ('w \<Rightarrow> eng) \<Rightarrow> ('w \<Rightarrow> bool) \<Rightarrow> 'w backend \<Rightarrow> u32 \<Rightarrow> tables \<Rightarrow> bool" where
  "holds h view up s rel t \<longleftrightarrow> sqlite_engine h view up \<and> backend_ok view up s \<and>
     (\<exists>d. avail h view s rel d \<and> db_tab d = t) \<and> has_tables t \<and> rows_ok (storage t)"

definition alone :: "'w host \<Rightarrow> ('w \<Rightarrow> eng) \<Rightarrow> ('w \<Rightarrow> bool) \<Rightarrow> u32 \<Rightarrow> 'w backend \<Rightarrow> 'w backend \<Rightarrow> bool" where
  "alone h view up rel s s' \<longleftrightarrow>
     (\<forall>rel' t. rel' \<noteq> rel \<longrightarrow> holds h view up s' rel' t = holds h view up s rel' t)"

section \<open>Lemmas\<close>

lemma sint_word_of_int_small: "- (2 ^ 31) \<le> k \<Longrightarrow> k < 2 ^ 31 \<Longrightarrow> sint (word_of_int k :: u32) = k"
  by (simp add: signed_of_int signed_take_bit_int_eq_self)

lemma sint_zero_iff [simp]: "sint (x :: u32) = 0 \<longleftrightarrow> x = 0"
  by (metis word_of_int_sint_u32 signed_0 of_int_0)

lemma u32_zero_iff: "- (2 ^ 31) \<le> k \<Longrightarrow> k < 2 ^ 31 \<Longrightarrow> (word_of_int k :: u32) = 0 \<longleftrightarrow> k = 0"
  using sint_word_of_int_small [of k] by auto

lemma xmax_row_of: "rows_ok rs \<Longrightarrow> r \<in> set rs \<Longrightarrow> xmax (header (row_of r)) = 0 \<longleftrightarrow> rw_xmax r = 0"
  by (simp add: row_of_def u32_zero_iff rows_ok_def)

lemma rowid_row_of [simp]: "rowid (header (row_of r)) = rw_id r" "tuple (row_of r) = rw_tuple r"
  by (simp_all add: row_of_def)

lemma row_of_stamped:
  "header (row_of (r\<lparr>rw_xmax := sint x, rw_cmax := sint c\<rparr>)) = stamp_dead x c (header (row_of r))"
  by (simp add: row_of_def stamp_dead_def)

lemma row_of_inserted:
  "header (row_of \<lparr>rw_id = k, rw_xmin = sint x, rw_cmin = sint c, rw_xmax = 0, rw_cmax = 0, rw_tuple = b\<rparr>) =
    new_version k x c"
  by (simp add: row_of_def new_version_def)

lemma seen_insert:
  "seen_table pg snap (rows_insert (sint x) (sint c) b rs) =
    seen_table pg snap rs @ (if sees pg snap x c then [(next_rowid rs, b)] else [])"
  by (simp add: seen_table_def rows_insert_def visible_row_def row_of_inserted mvcc.vis_new)

lemma seen_batch:
  "seen_table pg snap (rows_batch (sint x) (sint c) bs rs) =
    seen_table pg snap rs @ (if sees pg snap x c then zip (batch_ids (sint x) (sint c) bs rs) bs else [])"
  by (induction bs arbitrary: rs) (simp_all add: seen_insert)

lemma visible_stamped:
  assumes "rows_ok rs" and "r \<in> set rs" and "stampable rid r" and "x \<noteq> 0"
  shows "visible_row pg snap (r\<lparr>rw_xmax := sint x, rw_cmax := sint c\<rparr>) \<longleftrightarrow> visible_row pg snap r \<and> \<not> sees pg snap x c"
  using assms xmax_row_of [OF assms(1,2)]
  by (simp add: visible_row_def row_of_stamped mvcc.vis_stamped stampable_def)

lemma stamp_dead_rid: "\<not> live_row rid rs \<Longrightarrow> rows_stamp x c rid rs = rs"
  by (auto simp: rows_stamp_def live_row_def intro!: map_idI)

lemma live_row_count: "filter (stampable rid) rs = [] \<longleftrightarrow> \<not> live_row rid rs"
  by (auto simp: live_row_def filter_empty_conv)

text \<open>With distinct rowids, only the stamped row carries the rowid.\<close>

lemma seen_stamp:
  assumes ok: "rows_ok rs" and x: "x \<noteq> 0" and live: "live_row rid rs"
  shows "seen_table pg snap (rows_stamp (sint x) (sint c) rid rs) =
    (if sees pg snap x c then filter (\<lambda>e. fst e \<noteq> rid) (seen_table pg snap rs) else seen_table pg snap rs)"
proof -
  obtain r0 where r0: "r0 \<in> set rs" "stampable rid r0" using live by (auto simp: live_row_def)
  have uniq: "r = r0" if "r \<in> set rs" "rw_id r = rid" for r
    using rows_ok_distinct [OF ok] that r0 by (auto simp: distinct_map stampable_def inj_on_def)
  have "seen_table pg snap (map (\<lambda>r. if stampable rid r then r\<lparr>rw_xmax := sint x, rw_cmax := sint c\<rparr> else r) qs) =
      (if sees pg snap x c then filter (\<lambda>e. fst e \<noteq> rid) (seen_table pg snap qs) else seen_table pg snap qs)"
    if "set qs \<subseteq> set rs" for qs
    using that
  proof (induction qs)
    case (Cons q qs)
    then have q: "q \<in> set rs" and IH: "set qs \<subseteq> set rs" by auto
    show ?case
    proof (cases "stampable rid q")
      case True
      with visible_stamped [OF ok q True x, of pg snap c] Cons.IH [OF IH]
      show ?thesis by (auto simp: seen_table_def stampable_def)
    next
      case False
      then have "rw_id q \<noteq> rid" using uniq [OF q] r0(2) by auto
      with False Cons.IH [OF IH] show ?thesis by (auto simp: seen_table_def)
    qed
  qed (simp add: seen_table_def)
  then show ?thesis by (simp add: rows_stamp_def)
qed

lemma seen_vacuum:
  assumes ok: "rows_ok rs"
    and dead: "\<And>r. r \<in> set rs \<Longrightarrow> reclaimable bound r \<Longrightarrow>
      sees pg snap (xmax (header (row_of r))) (cmax (header (row_of r)))"
  shows "seen_table pg snap (rows_vacuum bound rs) = seen_table pg snap rs"
proof -
  have "\<not> visible_row pg snap r" if r: "r \<in> set rs" "reclaimable bound r" for r
  proof -
    have "xmax (header (row_of r)) \<noteq> 0" using r xmax_row_of [OF ok r(1)] by (simp add: reclaimable_def)
    with dead [OF r] show ?thesis by (simp add: visible_row_def mvcc.vis_iff)
  qed
  then have "filter (visible_row pg snap) (rows_vacuum bound rs) = filter (visible_row pg snap) rs"
    unfolding rows_vacuum_def filter_filter by (intro filter_cong) auto
  then show ?thesis by (simp add: seen_table_def)
qed

lemma seen_delete:
  "seen_table pg snap (rows_delete rid rs) = filter (\<lambda>e. fst e \<noteq> rid) (seen_table pg snap rs)"
  by (induction rs) (auto simp: seen_table_def rows_delete_def)

lemma rows_ok_find:
  "rows_ok rs \<Longrightarrow> r \<in> set rs \<Longrightarrow> find_row (rw_id r) rs = Some r"
proof (induction rs)
  case (Cons q rs)
  then show ?case by (auto simp: find_row_def rows_ok_def)
qed simp

lemma find_row_Some: "find_row rid rs = Some r \<Longrightarrow> r \<in> set rs \<and> rw_id r = rid"
  by (auto simp: find_row_def find_Some_iff)

section \<open>Operations on the tables a relation holds\<close>

lemma holds_D:
  assumes "holds h view up s rel t"
  obtains d where "sqlite_engine h view up" "backend_ok view up s" "avail h view s rel d" "db_tab d = t"
    "has_tables t" "rows_ok (storage t)"
  using assms by (auto simp: holds_def)

lemma holds_frame:
  assumes "holds h view up s rel t" and "op_frame h view up rel s s'" and "rel_db view s' rel = Some d'"
    and "has_tables (db_tab d')" and "rows_ok (storage (db_tab d'))"
  shows "holds h view up s' rel (db_tab d')" and "alone h view up rel s s'"
  using assms rel_db_avail [OF assms(3), of h] by (auto simp: holds_def alone_def op_frame_def)

text \<open>The lifting of an operation's specification; \<open>R\<close> relates its result and the new tables.\<close>

lemma holds_op:
  assumes H: "holds h view up s rel t"
    and m: "\<And>d. sqlite_engine h view up \<Longrightarrow> backend_ok view up s \<Longrightarrow> avail h view s rel d \<Longrightarrow> db_tab d = t \<Longrightarrow>
      has_tables t \<Longrightarrow> rows_ok (storage t) \<Longrightarrow>
      wp m (\<lambda>x s'. \<exists>d'. rel_db view s' rel = Some d' \<and> P d x d' \<and> op_frame h view up rel s s') s"
    and R: "\<And>d x d'. db_tab d = t \<Longrightarrow> P d x d' \<Longrightarrow> R x (db_tab d') \<and> has_tables (db_tab d') \<and> rows_ok (storage (db_tab d'))"
  shows "wp m (\<lambda>x s'. \<exists>t'. R x t' \<and> holds h view up s' rel t' \<and> alone h view up rel s s') s"
proof -
  from H obtain d where d: "sqlite_engine h view up" "backend_ok view up s" "avail h view s rel d" "db_tab d = t"
    "has_tables t" "rows_ok (storage t)" by (rule holds_D)
  show ?thesis
    by (rule wp_mono [OF m [OF d]], elim exE conjE, frule R [OF d(4)])
      (use holds_frame [OF H] in blast)
qed

lemma holds_insert:
  assumes "holds h view up s rel t" and "length b \<le> 1000000000" and "next_rowid (storage t) \<le> i64_max"
  shows "wp (insert_row h rel x c b) (\<lambda>rid s'. \<exists>t'. (rid = next_rowid (storage t) \<and>
    t' = t\<lparr>storage := rows_insert (sint x) (sint c) b (storage t)\<rparr>) \<and>
    holds h view up s' rel t' \<and> alone h view up rel s s') s"
  by (rule holds_op [OF assms(1)], rule sqlite_engine.insert_row_spec)
    (use assms rows_ok_insert in \<open>auto simp: holds_def\<close>)

lemma holds_batch:
  assumes "holds h view up s rel t" and "\<forall>b \<in> set bs. length b \<le> 1000000000"
    and "next_rowid (storage t) + int (length bs) \<le> i64_max"
  shows "wp (insert_batch h rel x c bs) (\<lambda>ids s'. \<exists>t'. (ids = batch_ids (sint x) (sint c) bs (storage t) \<and>
    t' = t\<lparr>storage := rows_batch (sint x) (sint c) bs (storage t)\<rparr>) \<and>
    holds h view up s' rel t' \<and> alone h view up rel s s') s"
  by (rule holds_op [OF assms(1)], rule sqlite_engine.insert_batch_spec)
    (use assms rows_ok_batch in \<open>auto simp: holds_def batch_ids_upto\<close>)

lemma holds_set_xmax:
  assumes "holds h view up s rel t"
  shows "wp (set_xmax h rel rid x c) (\<lambda>n s'. \<exists>t'. (n = length (filter (stampable rid) (storage t)) \<and>
    t' = t\<lparr>storage := rows_stamp (sint x) (sint c) rid (storage t)\<rparr>) \<and>
    holds h view up s' rel t' \<and> alone h view up rel s s') s"
  by (rule holds_op [OF assms(1)], rule sqlite_engine.set_xmax_spec)
    (use assms rows_ok_stamp in \<open>auto simp: holds_def\<close>)

lemma holds_update:
  assumes "holds h view up s rel t" and "length b \<le> 1000000000" and "next_rowid (storage t) \<le> i64_max"
  shows "wp (update_row h rel rid x c b) (\<lambda>new s'. \<exists>t'. (new = next_rowid (storage t) \<and>
    t' = t\<lparr>storage := rows_insert (sint x) (sint c) b (rows_stamp (sint x) (sint c) rid (storage t))\<rparr>) \<and>
    holds h view up s' rel t' \<and> alone h view up rel s s') s"
  by (rule holds_op [OF assms(1)], rule sqlite_engine.update_row_spec)
    (use assms rows_ok_stamp rows_ok_insert in \<open>auto simp: holds_def\<close>)

lemma holds_delete:
  assumes "holds h view up s rel t"
  shows "wp (physical_delete h rel rid) (\<lambda>n s'. \<exists>t'. (n = length (filter (\<lambda>r. rw_id r = rid) (storage t)) \<and>
    t' = t\<lparr>storage := rows_delete rid (storage t)\<rparr>) \<and>
    holds h view up s' rel t' \<and> alone h view up rel s s') s"
  by (rule holds_op [OF assms(1)], rule sqlite_engine.physical_delete_spec)
    (use assms rows_ok_filter in \<open>auto simp: holds_def rows_delete_def\<close>)

lemma holds_reset:
  assumes "holds h view up s rel t"
  shows "wp (reset h rel) (\<lambda>_ s'. \<exists>t'. t' = t\<lparr>storage := []\<rparr> \<and>
    holds h view up s' rel t' \<and> alone h view up rel s s') s"
  by (rule holds_op [OF assms(1)], rule sqlite_engine.reset_relation_spec)
    (use assms in \<open>auto simp: holds_def rows_ok_def\<close>)

lemma holds_select_all:
  assumes "holds h view up s rel t"
  shows "wp (select_all h rel) (\<lambda>rs s'. \<exists>t'. (rs = map row_of (storage t) \<and> t' = t) \<and>
    holds h view up s' rel t' \<and> alone h view up rel s s') s"
  by (rule holds_op [OF assms(1)], rule sqlite_engine.select_all_spec)
    (use assms rows_ok_sorted in \<open>auto simp: holds_def\<close>)

lemma holds_select_one:
  assumes "holds h view up s rel t"
  shows "wp (select_one h rel rid) (\<lambda>r s'. \<exists>t'. (r = map_option row_of (find_row rid (storage t)) \<and> t' = t) \<and>
    holds h view up s' rel t' \<and> alone h view up rel s s') s"
  by (rule holds_op [OF assms(1)], rule sqlite_engine.select_one_spec) (use assms in \<open>auto simp: holds_def\<close>)

lemma holds_fetch:
  assumes "holds h view up s rel t"
  shows "wp (fetch_one_ref h rel rid f no_row) (\<lambda>r s'. \<exists>t'. (r = (case find_row rid (storage t) of None \<Rightarrow> no_row
      | Some q \<Rightarrow> f (header (row_of q)) (rw_tuple q)) \<and> t' = t) \<and>
    holds h view up s' rel t' \<and> alone h view up rel s s') s"
  by (rule holds_op [OF assms(1)], rule sqlite_engine.fetch_one_ref_spec) (use assms in \<open>auto simp: holds_def\<close>)

lemma holds_xmax_batch:
  assumes "holds h view up s rel t" and "rids \<noteq> []"
  shows "wp (select_xmax_batch h rel rids) (\<lambda>m s'. \<exists>t'. (m = (\<lambda>k. if k \<in> set rids
      then map_option (\<lambda>r. xmax (header (row_of r))) (find_row k (storage t)) else None) \<and> t' = t) \<and>
    holds h view up s' rel t' \<and> alone h view up rel s s') s"
  by (rule holds_op [OF assms(1)], rule sqlite_engine.select_xmax_batch_spec)
    (use assms rows_ok_distinct in \<open>auto simp: holds_def row_of_def\<close>)

lemma holds_meta_get:
  assumes "holds h view up s rel t" and "length key \<le> 1000000000"
  shows "wp (meta_get h rel key) (\<lambda>v s'. \<exists>t'. (v = meta_lookup key t \<and> t' = t) \<and>
    holds h view up s' rel t' \<and> alone h view up rel s s') s"
  by (rule holds_op [OF assms(1)], rule sqlite_engine.meta_get_spec) (use assms in \<open>auto simp: holds_def\<close>)

lemma holds_meta_set:
  assumes "holds h view up s rel t" and "length key \<le> 1000000000" and "length v \<le> 1000000000"
  shows "wp (meta_set h rel key v) (\<lambda>_ s'. \<exists>t'. t' = t\<lparr>meta := meta_put key v (meta t)\<rparr> \<and>
    holds h view up s' rel t' \<and> alone h view up rel s s') s"
  by (rule holds_op [OF assms(1)], rule sqlite_engine.meta_set_spec) (use assms in \<open>auto simp: holds_def\<close>)

lemma holds_delete_dead:
  assumes "holds h view up s rel t"
  shows "wp (with_conn h rel (delete_dead h x)) (\<lambda>n s'. \<exists>t'.
    (n = length (filter (reclaimable (sint x)) (storage t)) \<and>
     t' = t\<lparr>storage := rows_vacuum (sint x) (storage t)\<rparr>) \<and>
    holds h view up s' rel t' \<and> alone h view up rel s s') s"
  by (rule holds_op [OF assms(1)], rule sqlite_engine.delete_dead_spec)
    (use assms rows_ok_filter in \<open>auto simp: holds_def rows_vacuum_def\<close>)

lemma alone_refl: "alone h view up rel s s"
  by (simp add: alone_def)

lemma alone_trans: "alone h view up rel s s1 \<Longrightarrow> alone h view up rel s1 s2 \<Longrightarrow> alone h view up rel s s2"
  by (simp add: alone_def)

lemma aloneD: "alone h view up rel s s' \<Longrightarrow> rel' \<noteq> rel \<Longrightarrow> holds h view up s rel' t \<Longrightarrow> holds h view up s' rel' t"
  by (simp add: alone_def)

text \<open>The tables a vacuum leaves, and the number of rows it removes.\<close>

definition vacuum_due :: "u32 \<Rightarrow> tables \<Rightarrow> bool" where
  "vacuum_due oldest t \<longleftrightarrow> vacuum_watermark (meta_lookup META_LAST_VACUUM_XMIN t) < oldest"

definition vacuumed :: "u32 \<Rightarrow> tables \<Rightarrow> tables" where
  "vacuumed oldest t =
     (if vacuum_due oldest t
      then t\<lparr>storage := rows_vacuum (sint oldest) (storage t),
             meta := meta_put META_LAST_VACUUM_XMIN (to_le_bytes oldest) (meta t)\<rparr>
      else t)"

lemma holds_vacuum:
  assumes H: "holds h view up s rel t"
  shows "wp (vacuum_dead h rel oldest) (\<lambda>n s'. \<exists>t'.
    (n = (if vacuum_due oldest t then length (filter (reclaimable (sint oldest)) (storage t)) else 0) \<and>
     t' = vacuumed oldest t) \<and> holds h view up s' rel t' \<and> alone h view up rel s s') s"
proof -
  have L: "length META_LAST_VACUUM_XMIN \<le> 1000000000" by (simp add: META_LAST_VACUUM_XMIN_def)
  show ?thesis
  proof (cases "vacuum_due oldest t")
    case False
    then show ?thesis
      unfolding vacuum_dead_def
      by (intro wpB [OF holds_meta_get [OF H L]]) (auto simp: wp_rules vacuum_due_def vacuumed_def not_less)
  next
    case True
    then have lt: "\<not> oldest \<le> vacuum_watermark (meta_lookup META_LAST_VACUUM_XMIN t)"
      by (simp add: vacuum_due_def)
    have last: "wp (seqE (meta_set h rel META_LAST_VACUUM_XMIN (to_le_bytes oldest)) (ret n)) (\<lambda>m s'. \<exists>t'.
        (m = n \<and> t' = vacuumed oldest t) \<and> holds h view up s' rel t' \<and> alone h view up rel s s') s2"
      if "holds h view up s2 rel (t\<lparr>storage := rows_vacuum (sint oldest) (storage t)\<rparr>)" "alone h view up rel s s2" for n s2
      by (rule wpS [OF holds_meta_set [OF that(1) L]], simp)
        (use True that(2) in \<open>auto simp: wp_ret vacuumed_def intro: alone_trans\<close>)
    show ?thesis
      unfolding vacuum_dead_def
      by (rule wpB [OF holds_meta_get [OF H L]], elim exE conjE, simp add: lt True,
          rule wpB [OF holds_delete_dead], assumption, elim exE conjE, simp,
          rule wp_mono [OF last], assumption, erule (1) alone_trans, simp)
  qed
qed

end
