(* ===== verification/Scan.thy ===== *)
theory Scan
  imports Seen_Table
begin

text \<open>
  Scan state and the read callbacks of the table access method (\<open>src/tam.rs\<close>): sequential,
  TID-range, sample, analyze and bitmap scans, index fetch and the row-version lookups. A
  callback runs on the backend; the scan descriptor, the snapshot and the slot it is handed by
  pointer are arguments, and the callback returns what it leaves in them.
\<close>

section \<open>Scan state\<close>

record SqliteCursor =
  rows :: "StoredRow list"
  rows_loaded :: bool
  pos :: nat
  sample_block_consumed :: bool
  bitmap_blockno :: u32
  bitmap_offsets :: "u16 list"
  bitmap_offset_pos :: nat

text \<open>
  The fields of \<open>TableScanDescData\<close> the module writes or reads; \<open>'i\<close> is Postgres's bitmap iterator.
  The scan keys and the shared state of a parallel scan are pointers that are stored and never
  followed (\<open>None\<close> is null).
\<close>

type_synonym pointer = "nat option"

datatype ScanDirection = BackwardScanDirection | NoMovementScanDirection | ForwardScanDirection

record 'i SqliteScanState =
  rs_rd :: u32
  rs_snapshot :: Snapshot
  rs_nkeys :: int
  rs_key :: pointer
  rs_flags :: u32
  rs_parallel :: pointer
  rs_mintid :: ItemPointerData
  rs_maxtid :: ItemPointerData
  rs_tbmiterator :: 'i
  cursor :: SqliteCursor

definition SqliteCursor_new :: SqliteCursor where
  "SqliteCursor_new = \<lparr>rows = [], rows_loaded = False, pos = 0, sample_block_consumed = False,
     bitmap_blockno = 0, bitmap_offsets = [], bitmap_offset_pos = 0\<rparr>"

text \<open>\<open>palloc0\<close> leaves the union of the descriptor zeroed; \<open>zero_iter\<close> is a zeroed iterator.\<close>

definition SqliteScanState_alloc :: "'i \<Rightarrow> u32 \<Rightarrow> Snapshot \<Rightarrow> int \<Rightarrow> pointer \<Rightarrow> pointer \<Rightarrow> u32 \<Rightarrow> 'i SqliteScanState" where
  "SqliteScanState_alloc zero_iter rel snapshot nkeys key pscan flags =
     \<lparr>rs_rd = rel, rs_snapshot = snapshot, rs_nkeys = nkeys, rs_key = key, rs_flags = flags, rs_parallel = pscan,
      rs_mintid = \<lparr>ip_blkid = 0, ip_posid = 0\<rparr>, rs_maxtid = \<lparr>ip_blkid = 0, ip_posid = 0\<rparr>,
      rs_tbmiterator = zero_iter, cursor = SqliteCursor_new\<rparr>"

definition scan_begin :: "'i \<Rightarrow> u32 \<Rightarrow> Snapshot \<Rightarrow> int \<Rightarrow> pointer \<Rightarrow> pointer \<Rightarrow> u32 \<Rightarrow> 'i SqliteScanState" where
  "scan_begin zero_iter rel snapshot nkeys key pscan flags = SqliteScanState_alloc zero_iter rel snapshot nkeys key pscan flags"

definition scan_rescan :: "'i SqliteScanState \<Rightarrow> 'i SqliteScanState" where
  "scan_rescan scan = scan\<lparr>cursor := (cursor scan)\<lparr>pos := 0\<rparr>\<rparr>"

definition ensure_rows_loaded :: "'w host \<Rightarrow> u32 \<Rightarrow> SqliteCursor \<Rightarrow> ('w backend, SqliteCursor) prog" where
  "ensure_rows_loaded h rel_id c =
     (if \<not> rows_loaded c
      then bindE (select_all h rel_id) (\<lambda>rs. ret (c\<lparr>rows := rs, rows_loaded := True\<rparr>))
      else ret c)"

section \<open>Sequential, TID-range and sample scans\<close>

text \<open>
  The loop \<open>while cursor.pos < cursor.rows.len()\<close>: \<open>keep\<close> is the loop's test of a row,
  which may write to the snapshot.
\<close>

function scan_loop :: "(StoredRow \<Rightarrow> Snapshot \<Rightarrow> bool \<times> Snapshot) \<Rightarrow> StoredRow list \<Rightarrow> nat \<Rightarrow> Snapshot \<Rightarrow>
    StoredRow option \<times> nat \<times> Snapshot" where
  "scan_loop keep rs p snap =
     (if p < length rs
      then (let row = rs ! p; v = keep row snap
            in if fst v then (Some row, p + 1, snd v) else scan_loop keep rs (p + 1) (snd v))
      else (None, p, snap))"
  by pat_completeness auto
termination by (relation "measure (\<lambda>(_, rs, p, _). length rs - p)") auto

definition do_scan_getnext ::
    "'w host \<Rightarrow> pg_xact \<Rightarrow> 'b slot_api \<Rightarrow> SqliteCursor \<Rightarrow> Snapshot \<Rightarrow> u32 \<Rightarrow> 'b slot \<Rightarrow>
      ('w backend, bool \<times> SqliteCursor \<times> Snapshot \<times> 'b slot) prog" where
  "do_scan_getnext h pg x cur snapshot rel sl =
     (let sl0 = slot_clear x sl
      in bindE (ensure_rows_loaded h rel cur) (\<lambda>c.
         case scan_loop (\<lambda>row. row_visible pg (header row)) (rows c) (pos c) snapshot of
           (hit, p, snap) \<Rightarrow>
             (case hit of
                Some row \<Rightarrow> ret (True, c\<lparr>pos := p\<rparr>, snap, store_row x rel row sl0)
              | None \<Rightarrow> ret (False, c\<lparr>pos := p\<rparr>, snap, sl0))))"

definition scan_getnextslot ::
    "'w host \<Rightarrow> pg_xact \<Rightarrow> 'b slot_api \<Rightarrow> 'i SqliteScanState \<Rightarrow> ScanDirection \<Rightarrow> 'b slot \<Rightarrow>
      ('w backend, bool \<times> 'i SqliteScanState \<times> 'b slot) prog" where
  "scan_getnextslot h pg x scan direction sl =
     bindE (do_scan_getnext h pg x (cursor scan) (rs_snapshot scan) (rs_rd scan) sl) (\<lambda>(hit, c, snap, sl').
       ret (hit, scan\<lparr>cursor := c, rs_snapshot := snap\<rparr>, sl'))"

definition scan_set_tidrange ::
    "'i SqliteScanState \<Rightarrow> ItemPointerData \<Rightarrow> ItemPointerData \<Rightarrow> 'i SqliteScanState" where
  "scan_set_tidrange scan mintid maxtid =
     scan\<lparr>rs_mintid := mintid, rs_maxtid := maxtid, cursor := (cursor scan)\<lparr>pos := 0\<rparr>\<rparr>"

definition scan_getnextslot_tidrange ::
    "'w host \<Rightarrow> pg_xact \<Rightarrow> 'b slot_api \<Rightarrow> 'i SqliteScanState \<Rightarrow> ScanDirection \<Rightarrow> 'b slot \<Rightarrow>
      ('w backend, bool \<times> 'i SqliteScanState \<times> 'b slot) prog" where
  "scan_getnextslot_tidrange h pg x scan direction sl =
     (let min_rowid = tid_to_rowid (rs_mintid scan);
          max_rowid = tid_to_rowid (rs_maxtid scan);
          sl0 = slot_clear x sl
      in bindE (ensure_rows_loaded h (rs_rd scan) (cursor scan)) (\<lambda>c.
         case scan_loop (\<lambda>row snap. if rowid (header row) < min_rowid \<or> rowid (header row) > max_rowid
                then (False, snap) else row_visible pg (header row) snap)
              (rows c) (pos c) (rs_snapshot scan) of
           (hit, p, snap) \<Rightarrow>
             (let scan' = scan\<lparr>cursor := c\<lparr>pos := p\<rparr>, rs_snapshot := snap\<rparr>
              in case hit of
                   Some row \<Rightarrow> ret (True, scan', store_row x (rs_rd scan) row sl0)
                 | None \<Rightarrow> ret (False, scan', sl0))))"

definition scan_sample_next_block :: "'i SqliteScanState \<Rightarrow> bool \<times> 'i SqliteScanState" where
  "scan_sample_next_block scan =
     (if sample_block_consumed (cursor scan) then (False, scan)
      else (True, scan\<lparr>cursor := (cursor scan)\<lparr>sample_block_consumed := True, pos := 0\<rparr>\<rparr>))"

definition scan_sample_next_tuple ::
    "'w host \<Rightarrow> pg_xact \<Rightarrow> 'b slot_api \<Rightarrow> 'i SqliteScanState \<Rightarrow> 'b slot \<Rightarrow>
      ('w backend, bool \<times> 'i SqliteScanState \<times> 'b slot) prog" where
  "scan_sample_next_tuple h pg x scan sl =
     bindE (ensure_rows_loaded h (rs_rd scan) (cursor scan)) (\<lambda>c.
       case scan_loop (\<lambda>row. row_visible pg (header row)) (rows c) (pos c) (rs_snapshot scan) of
         (hit, p, snap) \<Rightarrow>
           (let scan' = scan\<lparr>cursor := c\<lparr>pos := p\<rparr>, rs_snapshot := snap\<rparr>
            in case hit of
                 Some row \<Rightarrow> ret (True, scan', store_row x (rs_rd scan) row sl)
               | None \<Rightarrow> ret (False, scan', sl)))"

section \<open>Analyze\<close>

definition InvalidBlockNumber :: u32 where "InvalidBlockNumber = 0xFFFFFFFF"

text \<open>\<open>blk\<close> is what Postgres's \<open>read_stream_next_block\<close> returned.\<close>

definition scan_analyze_next_block :: "u32 \<Rightarrow> 'i SqliteScanState \<Rightarrow> bool \<times> 'i SqliteScanState" where
  "scan_analyze_next_block blk scan =
     (if blk = InvalidBlockNumber then (False, scan)
      else (True, scan\<lparr>cursor := (cursor scan)\<lparr>pos := 0\<rparr>\<rparr>))"

text \<open>The row counters are doubles; they count exactly up to \<open>2 ^ 53\<close>.\<close>

function analyze_loop :: "StoredRow list \<Rightarrow> nat \<Rightarrow> nat \<Rightarrow> nat \<Rightarrow> StoredRow option \<times> nat \<times> nat \<times> nat" where
  "analyze_loop rs p liverows deadrows =
     (if p < length rs
      then (let row = rs ! p
            in if xmax (header row) = 0 then (Some row, p + 1, liverows + 1, deadrows)
               else analyze_loop rs (p + 1) liverows (deadrows + 1))
      else (None, p, liverows, deadrows))"
  by pat_completeness auto
termination by (relation "measure (\<lambda>(rs, p, _, _). length rs - p)") auto

definition scan_analyze_next_tuple ::
    "'w host \<Rightarrow> 'b slot_api \<Rightarrow> 'i SqliteScanState \<Rightarrow> nat \<Rightarrow> nat \<Rightarrow> 'b slot \<Rightarrow>
      ('w backend, bool \<times> 'i SqliteScanState \<times> nat \<times> nat \<times> 'b slot) prog" where
  "scan_analyze_next_tuple h x scan liverows deadrows sl =
     bindE (ensure_rows_loaded h (rs_rd scan) (cursor scan)) (\<lambda>c.
       case analyze_loop (rows c) (pos c) liverows deadrows of
         (hit, p, live, dead) \<Rightarrow>
           (let scan' = scan\<lparr>cursor := c\<lparr>pos := p\<rparr>\<rparr>
            in case hit of
                 Some row \<Rightarrow> ret (True, scan', live, dead, store_row x (rs_rd scan) row sl)
               | None \<Rightarrow> ret (False, scan', live, dead, sl)))"

section \<open>Fetching one row\<close>

definition fetch_one_into_slot ::
    "'w host \<Rightarrow> pg_xact \<Rightarrow> 'b slot_api \<Rightarrow> u32 \<Rightarrow> int \<Rightarrow> Snapshot \<Rightarrow> 'b slot \<Rightarrow>
      ('w backend, bool \<times> Snapshot \<times> 'b slot) prog" where
  "fetch_one_into_slot h pg x rel rid snapshot sl =
     fetch_one_ref h rel rid (\<lambda>hdr bs.
       (case row_visible pg hdr snapshot of
          (v, snap) \<Rightarrow> if \<not> v then (False, snap, sl) else (True, snap, store_parts x rel hdr bs sl)))
       (False, snapshot, sl)"

text \<open>The out-parameters \<open>call_again\<close> and \<open>all_dead\<close> may be null (\<open>None\<close>).\<close>

definition index_fetch_tuple ::
    "'w host \<Rightarrow> pg_xact \<Rightarrow> 'b slot_api \<Rightarrow> u32 \<Rightarrow> ItemPointerData \<Rightarrow> Snapshot \<Rightarrow> 'b slot \<Rightarrow> bool option \<Rightarrow>
      bool option \<Rightarrow> ('w backend, bool \<times> Snapshot \<times> 'b slot \<times> bool option \<times> bool option) prog" where
  "index_fetch_tuple h pg x rel tid snapshot sl call_again all_dead =
     bindE (fetch_one_into_slot h pg x rel (tid_to_rowid tid) snapshot sl) (\<lambda>(hit, snap, sl').
       ret (hit, snap, sl', map_option (\<lambda>_. False) call_again, map_option (\<lambda>_. False) all_dead))"

definition tuple_fetch_row_version ::
    "'w host \<Rightarrow> pg_xact \<Rightarrow> 'b slot_api \<Rightarrow> u32 \<Rightarrow> ItemPointerData \<Rightarrow> Snapshot \<Rightarrow> 'b slot \<Rightarrow>
      ('w backend, bool \<times> Snapshot \<times> 'b slot) prog" where
  "tuple_fetch_row_version h pg x rel tid snapshot sl =
     fetch_one_into_slot h pg x rel (tid_to_rowid tid) snapshot sl"

definition tuple_tid_valid :: "'w host \<Rightarrow> 'i SqliteScanState \<Rightarrow> ItemPointerData \<Rightarrow> ('w backend, bool) prog" where
  "tuple_tid_valid h scan tid =
     bindE (select_one h (rs_rd scan) (tid_to_rowid tid)) (\<lambda>r. ret (r \<noteq> None))"

definition tuple_satisfies_snapshot ::
    "'w host \<Rightarrow> pg_xact \<Rightarrow> u32 \<Rightarrow> 'b slot \<Rightarrow> Snapshot \<Rightarrow> ('w backend, bool \<times> Snapshot) prog" where
  "tuple_satisfies_snapshot h pg rel sl snapshot =
     bindE (select_one h rel (tid_to_rowid (tts_tid sl))) (\<lambda>r.
       case r of Some row \<Rightarrow> ret (row_visible pg (header row) snapshot) | None \<Rightarrow> ret (False, snapshot))"

section \<open>Bitmap scans\<close>

text \<open>
  Postgres's bitmap iterator: \<open>tbm_iterate\<close> yields the next page or nothing, and
  \<open>tbm_extract_page_tuple\<close> writes at most \<open>max\<close> offsets of an exact page and returns how many
  the page has.
\<close>

record 'p TBMIterateResult =
  tbm_blockno :: u32
  tbm_lossy :: bool
  tbm_recheck :: bool
  tbm_page :: 'p

record ('i, 'p) tbm_api =
  tbm_iterate :: "'i \<Rightarrow> 'p TBMIterateResult option \<times> 'i"
  tbm_extract_page_tuple :: "'p TBMIterateResult \<Rightarrow> nat \<Rightarrow> u16 list \<times> nat"

definition MAX_OFFSETS :: nat where "MAX_OFFSETS = 1024"

definition vec_resize :: "nat \<Rightarrow> 'a \<Rightarrow> 'a list \<Rightarrow> 'a list" where
  "vec_resize n v xs = take n xs @ replicate (n - length xs) v"

record bitmap_out =
  out_recheck :: bool
  out_lossy_pages :: nat
  out_exact_pages :: nat

text \<open>Draining the offsets of the current page; the list is what is left of them.\<close>

fun bitmap_drain ::
    "'w host \<Rightarrow> pg_xact \<Rightarrow> 'b slot_api \<Rightarrow> u32 \<Rightarrow> u16 list \<Rightarrow> SqliteCursor \<Rightarrow> Snapshot \<Rightarrow> 'b slot \<Rightarrow>
      ('w backend, bool \<times> SqliteCursor \<times> Snapshot \<times> 'b slot) prog" where
  "bitmap_drain h pg x rel [] c snapshot sl = ret (False, c, snapshot, sl)"
| "bitmap_drain h pg x rel (off # offs) c snapshot sl =
     bindE (fetch_one_into_slot h pg x rel
              (tid_to_rowid \<lparr>ip_blkid = bitmap_blockno c, ip_posid = off\<rparr>) snapshot sl) (\<lambda>(hit, snap, sl').
       let c' = c\<lparr>bitmap_offset_pos := bitmap_offset_pos c + 1\<rparr>
       in if hit then ret (True, c', snap, sl') else bitmap_drain h pg x rel offs c' snap sl')"

text \<open>The offsets of the rows of a block, as \<open>rowid_to_tid\<close> places them.\<close>

definition block_offsets :: "u32 \<Rightarrow> StoredRow list \<Rightarrow> u16 list" where
  "block_offsets blk rs =
     map (\<lambda>r. ip_posid (rowid_to_tid (rowid (header r))))
       (filter (\<lambda>r. ip_blkid (rowid_to_tid (rowid (header r))) = blk) rs)"

definition bitmap_load_page ::
    "'w host \<Rightarrow> ('i, 'p) tbm_api \<Rightarrow> u32 \<Rightarrow> 'p TBMIterateResult \<Rightarrow> SqliteCursor \<Rightarrow> ('w backend, SqliteCursor) prog" where
  "bitmap_load_page h tbm rel result c0 =
     (let c = c0\<lparr>bitmap_blockno := tbm_blockno result\<rparr>
      in if tbm_lossy result
         then bindE (ensure_rows_loaded h rel c) (\<lambda>c'.
                ret (c'\<lparr>bitmap_offsets := block_offsets (bitmap_blockno c') (rows c'), bitmap_offset_pos := 0\<rparr>))
         else (case tbm_extract_page_tuple tbm result MAX_OFFSETS of
                 (offs, n) \<Rightarrow>
                   (let buf = vec_resize MAX_OFFSETS 0 (bitmap_offsets c)
                    in ret (c\<lparr>bitmap_offsets := take n (offs @ drop (length offs) buf), bitmap_offset_pos := 0\<rparr>))))"

type_synonym ('i, 'b) bitmap_state = "'i SqliteScanState \<times> 'b slot \<times> bitmap_out"

partial_function (option) bitmap_loop ::
    "'w host \<Rightarrow> pg_xact \<Rightarrow> 'b slot_api \<Rightarrow> ('i, 'p) tbm_api \<Rightarrow> ('i, 'b) bitmap_state \<Rightarrow> 'w backend \<Rightarrow>
      ((bool \<times> ('i, 'b) bitmap_state) res \<times> 'w backend) option" where
  "bitmap_loop h pg x tbm st s =
     (case st of (scan, sl, out) \<Rightarrow>
       (let c = cursor scan in
        case bitmap_drain h pg x (rs_rd scan) (drop (bitmap_offset_pos c) (bitmap_offsets c)) c (rs_snapshot scan) sl s of
          None \<Rightarrow> None
        | Some (Panic e, s1) \<Rightarrow> Some (Panic e, s1)
        | Some (Ok (hit, c1, snap, sl1), s1) \<Rightarrow>
            (let scan1 = scan\<lparr>cursor := c1, rs_snapshot := snap\<rparr>
             in if hit then Some (Ok (True, scan1, sl1, out), s1)
                else (case tbm_iterate tbm (rs_tbmiterator scan1) of
                        (None, it) \<Rightarrow> Some (Ok (False, scan1\<lparr>rs_tbmiterator := it\<rparr>, sl1, out), s1)
                      | (Some result, it) \<Rightarrow>
                          (let out1 = (if tbm_lossy result
                                 then out\<lparr>out_recheck := tbm_recheck result, out_lossy_pages := out_lossy_pages out + 1\<rparr>
                                 else out\<lparr>out_recheck := tbm_recheck result, out_exact_pages := out_exact_pages out + 1\<rparr>)
                           in case bitmap_load_page h tbm (rs_rd scan1) result c1 s1 of
                                None \<Rightarrow> None
                              | Some (Panic e, s2) \<Rightarrow> Some (Panic e, s2)
                              | Some (Ok c2, s2) \<Rightarrow>
                                  bitmap_loop h pg x tbm
                                    (scan1\<lparr>cursor := c2, rs_tbmiterator := it\<rparr>, sl1, out1) s2)))))"

definition scan_bitmap_next_tuple ::
    "'w host \<Rightarrow> pg_xact \<Rightarrow> 'b slot_api \<Rightarrow> ('i, 'p) tbm_api \<Rightarrow> 'i SqliteScanState \<Rightarrow> 'b slot \<Rightarrow> bitmap_out \<Rightarrow>
      ('w backend, bool \<times> ('i, 'b) bitmap_state) prog" where
  "scan_bitmap_next_tuple h pg x tbm scan sl out = bitmap_loop h pg x tbm (scan, sl, out)"

declare scan_loop.simps [simp del]
declare analyze_loop.simps [simp del]

section \<open>The interface of a scan\<close>

text \<open>
  A client calls a scan's next-row function until it answers \<open>False\<close>. \<open>drain\<close> makes at most
  \<open>n\<close> calls and returns the state after each row and whether the end was reached.
\<close>

fun drain :: "('t \<Rightarrow> ('s, bool \<times> 't) prog) \<Rightarrow> nat \<Rightarrow> 't \<Rightarrow> ('s, 't list \<times> bool) prog" where
  "drain next 0 st = ret ([], False)"
| "drain next (Suc n) st =
     bindE (next st) (\<lambda>(hit, st').
       if hit then bindE (drain next n st') (\<lambda>(sts, fin). ret (st' # sts, fin)) else ret ([], True))"

locale row_source =
  fixes nxt :: "'t \<Rightarrow> ('s, bool \<times> 't) prog"
    and pending :: "'t \<Rightarrow> 'r list \<Rightarrow> 's \<Rightarrow> bool"
    and out :: "'t \<Rightarrow> 'o" and emit :: "'r \<Rightarrow> 'o"
  assumes next_row: "pending st (r # rs) s \<Longrightarrow>
      wp (nxt st) (\<lambda>(hit, st') s'. hit \<and> out st' = emit r \<and> pending st' rs s') s"
    and no_row: "pending st [] s \<Longrightarrow> wp (nxt st) (\<lambda>(hit, st') s'. \<not> hit) s"
begin

lemma drain_all:
  "pending st rs s \<Longrightarrow> length rs < n \<Longrightarrow>
    wp (drain nxt n st) (\<lambda>(sts, fin) s'. fin \<and> map out sts = map emit rs) s"
proof (induction rs arbitrary: st s n)
  case Nil
  then obtain m where "n = Suc m" by (cases n) auto
  then show ?case by (auto simp: wp_rules intro!: wp_mono [OF no_row [OF Nil.prems(1)]])
next
  case (Cons r rs)
  then obtain m where m: "n = Suc m" "length rs < m" by (cases n) auto
  show ?case
    unfolding m(1) drain.simps
  proof (rule wpB [OF next_row [OF Cons.prems(1)]], clarsimp)
    fix st' s' assume "pending st' rs s'"
    from Cons.IH [OF this m(2)] show "wp (bindE (drain nxt m st') (\<lambda>(sts, fin). ret (st' # sts, fin)))
        (\<lambda>(sts, fin) s'. fin \<and> map out sts = emit r # map emit rs) s'" if "out st' = emit r"
      by (rule wpB) (auto simp: wp_rules that)
  qed
qed

end

section \<open>Loops\<close>

lemma scan_loop_spec:
  assumes "\<And>r. r \<in> set rs \<Longrightarrow> keep r snap = (k r, snap)"
  shows "\<exists>p'. scan_loop keep rs p snap =
      ((case filter k (drop p rs) of [] \<Rightarrow> None | r # _ \<Rightarrow> Some r), p', snap) \<and>
    filter k (drop p' rs) = tl (filter k (drop p rs))"
  using assms
proof (induction keep rs p snap rule: scan_loop.induct)
  case (1 keep rs p snap)
  show ?case
  proof (cases "p < length rs")
    case True
    note d = Cons_nth_drop_Suc [OF True, symmetric]
    have kp: "keep (rs ! p) snap = (k (rs ! p), snap)" using 1(2) True by simp
    show ?thesis
    proof (cases "k (rs ! p)")
      case True
      with \<open>p < length rs\<close> kp show ?thesis by (subst scan_loop.simps, subst (1 2) d) simp
    next
      case False
      with 1(1) [OF True refl refl] 1(2) kp obtain p' where
        "scan_loop keep rs (p + 1) snap = ((case filter k (drop (p + 1) rs) of [] \<Rightarrow> None | r # _ \<Rightarrow> Some r), p', snap)"
        "filter k (drop p' rs) = tl (filter k (drop (p + 1) rs))" by auto
      with False True kp show ?thesis by (subst scan_loop.simps, subst (1 2) d) auto
    qed
  next
    case False
    then show ?thesis by (subst scan_loop.simps) simp
  qed
qed

lemma analyze_loop_spec:
  "analyze_loop rs p l d = (hit, p', l', d') \<Longrightarrow>
    (case hit of
       Some r \<Rightarrow> p < p' \<and> p' \<le> length rs \<and> r = rs ! (p' - 1) \<and> xmax (header r) = 0 \<and> l' = l + 1
     | None \<Rightarrow> length rs \<le> p' \<and> l' = l) \<and>
    l' + d' = l + d + (p' - p) \<and> p \<le> p' \<and>
    filter (\<lambda>r. xmax (header r) = 0) (drop p rs) =
      (case hit of Some r \<Rightarrow> r # filter (\<lambda>r. xmax (header r) = 0) (drop p' rs) | None \<Rightarrow> [])"
proof (induction rs p l d rule: analyze_loop.induct)
  case (1 rs p l d)
  show ?case
  proof (cases "p < length rs")
    case True
    note dr = Cons_nth_drop_Suc [OF True, symmetric]
    show ?thesis
    proof (cases "xmax (header (rs ! p)) = 0")
      case z: True
      then show ?thesis using True 1(2) by (subst (asm) analyze_loop.simps) (auto simp: dr)
    next
      case False
      with True 1(2) have "analyze_loop rs (p + 1) l (d + 1) = (hit, p', l', d')"
        by (subst (asm) analyze_loop.simps) (simp add: Let_def)
      from 1(1) [OF True refl False this] False show ?thesis
        by (subst dr) (auto split: option.splits)
    qed
  next
    case False
    then show ?thesis using 1(2) by (subst (asm) analyze_loop.simps) simp
  qed
qed

section \<open>Snapshots that a visibility check only reads\<close>

definition read_only :: "Snapshot \<Rightarrow> bool" where
  "read_only snap \<longleftrightarrow> snapshot_type snap \<noteq> SNAPSHOT_DIRTY"

definition sees_row :: "pg_xact \<Rightarrow> Snapshot \<Rightarrow> StoredRow \<Rightarrow> bool" where
  "sees_row pg snap r = fst (row_visible pg (header r) snap)"

lemma row_visible_read_only:
  "read_only snap \<Longrightarrow> row_visible pg (header r) snap = (sees_row pg snap r, snap)"
  by (cases "snapshot_type snap") (simp_all add: row_visible_def sees_row_def read_only_def)

lemma sees_row_mvcc:
  "snapshot_type snap = SNAPSHOT_MVCC \<Longrightarrow> sees_row pg snap r = visible_mvcc pg (header r) snap"
  by (simp add: sees_row_def row_visible_def)

section \<open>Loading the rows\<close>

text \<open>\<open>source_rows\<close>: the rows a cursor has loaded, or will load from the relation.\<close>

definition source_rows ::
    "'w host \<Rightarrow> ('w \<Rightarrow> eng) \<Rightarrow> 'w backend \<Rightarrow> u32 \<Rightarrow> SqliteCursor \<Rightarrow> StoredRow list \<Rightarrow> bool" where
  "source_rows h view s rel c rs \<longleftrightarrow>
     (if rows_loaded c then rs = rows c
      else (\<exists>d. avail h view s rel d \<and> has_tables (db_tab d) \<and>
              rs = map row_of (sort_key rw_id (storage (db_tab d)))))"

definition engine_at :: "'w host \<Rightarrow> ('w \<Rightarrow> eng) \<Rightarrow> ('w \<Rightarrow> bool) \<Rightarrow> 'w backend \<Rightarrow> bool" where
  "engine_at h view up s \<longleftrightarrow> sqlite_engine h view up \<and> backend_ok view up s"

lemma ensure_rows_loaded_spec:
  assumes e: "engine_at h view up s" and r: "source_rows h view s rel c rs"
  shows "wp (ensure_rows_loaded h rel c) (\<lambda>c' s'. c' = c\<lparr>rows := rs, rows_loaded := True\<rparr> \<and>
    engine_at h view up s') s"
proof (cases "rows_loaded c")
  case True
  with e r show ?thesis by (simp add: ensure_rows_loaded_def wp_ret source_rows_def)
next
  case False
  with r obtain d where d: "avail h view s rel d" "has_tables (db_tab d)"
    "rs = map row_of (sort_key rw_id (storage (db_tab d)))" by (auto simp: source_rows_def)
  from e have E: "sqlite_engine h view up" "backend_ok view up s" by (auto simp: engine_at_def)
  from False show ?thesis
    unfolding ensure_rows_loaded_def
    by (simp, intro wpB [OF sqlite_engine.select_all_spec [OF E d(1,2)]])
      (auto simp: wp_ret d(3) engine_at_def op_frame_def E(1))
qed

section \<open>Sequential, TID-range and sample scans are row sources\<close>

definition stored_tuple :: "u32 \<Rightarrow> StoredRow \<Rightarrow> HeapTupleData" where
  "stored_tuple rel r = build_heap_tuple_from_parts rel (header r) (tuple r)"

definition slot_tuple :: "'b slot_api \<Rightarrow> 'i SqliteScanState \<times> 'b slot \<Rightarrow> HeapTupleData" where
  "slot_tuple x st = ExecCopySlotHeapTuple x (snd st)"

text \<open>\<open>rs\<close> are the rows, kept by \<open>kf\<close>, that the scan has still to hand out.\<close>

definition scan_pending ::
    "'w host \<Rightarrow> ('w \<Rightarrow> eng) \<Rightarrow> ('w \<Rightarrow> bool) \<Rightarrow> 'b slot_api \<Rightarrow> ('i SqliteScanState \<Rightarrow> StoredRow \<Rightarrow> bool) \<Rightarrow> u32 \<Rightarrow>
      'i SqliteScanState \<times> 'b slot \<Rightarrow> StoredRow list \<Rightarrow> 'w backend \<Rightarrow> bool" where
  "scan_pending h view up x kf rel st rs s \<longleftrightarrow>
     (case st of (scan, sl) \<Rightarrow> engine_at h view up s \<and> slot_laws x \<and> read_only (rs_snapshot scan) \<and>
        rs_rd scan = rel \<and> (\<exists>all. source_rows h view s rel (cursor scan) all \<and>
        rs = filter (kf scan) (drop (pos (cursor scan)) all)))"

definition seq_kept :: "pg_xact \<Rightarrow> 'i SqliteScanState \<Rightarrow> StoredRow \<Rightarrow> bool" where
  "seq_kept pg scan r = sees_row pg (rs_snapshot scan) r"

definition tid_kept :: "pg_xact \<Rightarrow> 'i SqliteScanState \<Rightarrow> StoredRow \<Rightarrow> bool" where
  "tid_kept pg scan r \<longleftrightarrow> tid_to_rowid (rs_mintid scan) \<le> rowid (header r) \<and>
     rowid (header r) \<le> tid_to_rowid (rs_maxtid scan) \<and> sees_row pg (rs_snapshot scan) r"

definition seq_next where
  "seq_next h pg x dir st = (case st of (scan, sl) \<Rightarrow> scan_getnextslot h pg x scan dir sl)"

definition tid_next where
  "tid_next h pg x dir st = (case st of (scan, sl) \<Rightarrow> scan_getnextslot_tidrange h pg x scan dir sl)"

definition sample_next where
  "sample_next h pg x st = (case st of (scan, sl) \<Rightarrow> scan_sample_next_tuple h pg x scan sl)"

text \<open>The common body of the three next-row functions.\<close>

definition scan_body ::
    "'w host \<Rightarrow> 'b slot_api \<Rightarrow> (StoredRow \<Rightarrow> Snapshot \<Rightarrow> bool \<times> Snapshot) \<Rightarrow> 'i SqliteScanState \<Rightarrow> 'b slot \<Rightarrow>
      ('w backend, bool \<times> 'i SqliteScanState \<times> 'b slot) prog" where
  "scan_body h x keep scan sl =
     bindE (ensure_rows_loaded h (rs_rd scan) (cursor scan)) (\<lambda>c.
       case scan_loop keep (rows c) (pos c) (rs_snapshot scan) of
         (hit, p, snap) \<Rightarrow>
           (let scan' = scan\<lparr>cursor := c\<lparr>pos := p\<rparr>, rs_snapshot := snap\<rparr>
            in case hit of
                 Some row \<Rightarrow> ret (True, scan', store_row x (rs_rd scan) row sl)
               | None \<Rightarrow> ret (False, scan', sl)))"

lemma scan_body_spec:
  assumes P: "scan_pending h view up x kf rel (scan, sl0) rs s"
    and keep: "\<And>r. keep r (rs_snapshot scan) = (kf scan r, rs_snapshot scan)"
    and kf: "\<And>c. kf (scan\<lparr>cursor := c\<rparr>) = kf scan"
  shows "wp (scan_body h x keep scan sl) (\<lambda>(hit, st') s'.
    case rs of [] \<Rightarrow> \<not> hit
    | r # rs' \<Rightarrow> hit \<and> slot_tuple x st' = stored_tuple rel r \<and> scan_pending h view up x kf rel st' rs' s') s"
proof -
  obtain all where e: "engine_at h view up s" and sl: "slot_laws x" and ro: "read_only (rs_snapshot scan)"
    and rel: "rs_rd scan = rel" and src: "source_rows h view s rel (cursor scan) all"
    and rs: "rs = filter (kf scan) (drop (pos (cursor scan)) all)"
    using P by (auto simp: scan_pending_def)
  let ?c = "(cursor scan)\<lparr>rows := all, rows_loaded := True\<rparr>"
  obtain p' where loop: "scan_loop keep all (pos (cursor scan)) (rs_snapshot scan) =
      ((case rs of [] \<Rightarrow> None | r # _ \<Rightarrow> Some r), p', rs_snapshot scan)"
    and rest: "filter (kf scan) (drop p' all) = tl rs"
    using scan_loop_spec [of all keep "rs_snapshot scan" "kf scan" "pos (cursor scan)"] keep rs by auto
  have tup: "slot_tuple x (scan', store_row x rel r sl') = stored_tuple rel r" for scan' r sl'
    using sl by (simp add: slot_tuple_def store_row_def stored_tuple_def slot_laws_def)
  show ?thesis
    unfolding scan_body_def rel
    by (rule wpB [OF ensure_rows_loaded_spec [OF e src]])
      (use sl ro rel rest in \<open>auto simp: loop wp_ret tup scan_pending_def source_rows_def kf Let_def split: list.splits\<close>)
qed

lemma seq_next_body:
  "seq_next h pg x dir (scan, sl) = scan_body h x (\<lambda>row. row_visible pg (header row)) scan (slot_clear x sl)"
  by (simp add: seq_next_def scan_getnextslot_def do_scan_getnext_def scan_body_def bindE_assoc Let_def
      cong: option.case_cong) (auto simp: fun_eq_iff bindE_def ret_def split: option.splits res.splits prod.splits)

lemma tid_next_body:
  "tid_next h pg x dir (scan, sl) = scan_body h x (\<lambda>row snap. if rowid (header row) < tid_to_rowid (rs_mintid scan) \<or>
       rowid (header row) > tid_to_rowid (rs_maxtid scan) then (False, snap) else row_visible pg (header row) snap)
     scan (slot_clear x sl)"
  by (simp add: tid_next_def scan_getnextslot_tidrange_def scan_body_def Let_def)

lemma sample_next_body:
  "sample_next h pg x (scan, sl) = scan_body h x (\<lambda>row. row_visible pg (header row)) scan sl"
  by (simp add: sample_next_def scan_sample_next_tuple_def scan_body_def)

lemma pending_read_only: "scan_pending h view up x kf rel (scan, sl) rs s \<Longrightarrow> read_only (rs_snapshot scan)"
  by (simp add: scan_pending_def)

lemma seq_next_spec:
  assumes "scan_pending h view up x (seq_kept pg) rel st rs s"
  shows "wp (seq_next h pg x dir st) (\<lambda>(hit, st') s'. case rs of [] \<Rightarrow> \<not> hit
    | r # rs' \<Rightarrow> hit \<and> slot_tuple x st' = stored_tuple rel r \<and> scan_pending h view up x (seq_kept pg) rel st' rs' s') s"
  using assms pending_read_only [of h view up x "seq_kept pg" rel "fst st" "snd st" rs s]
  by (cases st) (auto simp: seq_next_body seq_kept_def fun_eq_iff row_visible_read_only intro!: scan_body_spec)

lemma tid_next_spec:
  assumes "scan_pending h view up x (tid_kept pg) rel st rs s"
  shows "wp (tid_next h pg x dir st) (\<lambda>(hit, st') s'. case rs of [] \<Rightarrow> \<not> hit
    | r # rs' \<Rightarrow> hit \<and> slot_tuple x st' = stored_tuple rel r \<and> scan_pending h view up x (tid_kept pg) rel st' rs' s') s"
  using assms pending_read_only [of h view up x "tid_kept pg" rel "fst st" "snd st" rs s]
  by (cases st) (auto simp: tid_next_body tid_kept_def fun_eq_iff row_visible_read_only intro!: scan_body_spec)

lemma sample_next_spec:
  assumes "scan_pending h view up x (seq_kept pg) rel st rs s"
  shows "wp (sample_next h pg x st) (\<lambda>(hit, st') s'. case rs of [] \<Rightarrow> \<not> hit
    | r # rs' \<Rightarrow> hit \<and> slot_tuple x st' = stored_tuple rel r \<and> scan_pending h view up x (seq_kept pg) rel st' rs' s') s"
  using assms pending_read_only [of h view up x "seq_kept pg" rel "fst st" "snd st" rs s]
  by (cases st) (auto simp: sample_next_body seq_kept_def fun_eq_iff row_visible_read_only intro!: scan_body_spec)

interpretation seq_scan: row_source "seq_next h pg x dir" "scan_pending h view up x (seq_kept pg) rel"
    "slot_tuple x" "stored_tuple rel" for h pg x dir view up rel
  by unfold_locales (drule seq_next_spec, simp)+

interpretation tid_scan: row_source "tid_next h pg x dir" "scan_pending h view up x (tid_kept pg) rel"
    "slot_tuple x" "stored_tuple rel" for h pg x dir view up rel
  by unfold_locales (drule tid_next_spec, simp)+

interpretation sample_scan: row_source "sample_next h pg x" "scan_pending h view up x (seq_kept pg) rel"
    "slot_tuple x" "stored_tuple rel" for h pg x view up rel
  by unfold_locales (drule sample_next_spec, simp)+

text \<open>A scan that has read nothing yet has all the kept rows of the relation before it.\<close>

lemma scan_begin_simps [simp]:
  "rs_rd (scan_begin it rel snap nkeys key pscan flags) = rel" "rs_snapshot (scan_begin it rel snap nkeys key pscan flags) = snap"
  "cursor (scan_begin it rel snap nkeys key pscan flags) = SqliteCursor_new"
  by (simp_all add: scan_begin_def SqliteScanState_alloc_def)

lemma cursor_new_simps [simp]: "pos SqliteCursor_new = 0" "\<not> rows_loaded SqliteCursor_new"
  by (simp_all add: SqliteCursor_new_def)

lemma pending_fresh:
  assumes "holds h view up s (rs_rd scan) t" and "slot_laws x" and "read_only (rs_snapshot scan)"
    and "\<not> rows_loaded (cursor scan)" and "pos (cursor scan) = 0"
  shows "scan_pending h view up x kf (rs_rd scan) (scan, sl) (filter (kf scan) (map row_of (storage t))) s"
  using assms by (auto simp: scan_pending_def engine_at_def source_rows_def rows_ok_sorted holds_def
      intro!: exI [of _ "map row_of (storage t)"])

lemma tidrange_drain:
  assumes "holds h view up s rel t" and "slot_laws x" and "read_only snap" and "length (storage t) < n"
  shows "wp (drain (tid_next h pg x dir) n (scan_set_tidrange (scan_begin it rel snap nkeys key pscan flags) lo hi, sl))
    (\<lambda>(sts, fin) s'. fin \<and> map (slot_tuple x) sts = map (stored_tuple rel) (filter (\<lambda>r.
       tid_to_rowid lo \<le> rowid (header r) \<and> rowid (header r) \<le> tid_to_rowid hi \<and> sees_row pg snap r)
       (map row_of (storage t)))) s"
proof -
  let ?scan = "scan_set_tidrange (scan_begin it rel snap nkeys key pscan flags) lo hi"
  have k: "tid_kept pg ?scan = (\<lambda>r. tid_to_rowid lo \<le> rowid (header r) \<and> rowid (header r) \<le> tid_to_rowid hi \<and> sees_row pg snap r)"
    and rd: "rs_rd ?scan = rel" by (simp_all add: fun_eq_iff tid_kept_def scan_set_tidrange_def)
  have "scan_pending h view up x (tid_kept pg) (rs_rd ?scan) (?scan, sl)
      (filter (tid_kept pg ?scan) (map row_of (storage t))) s"
    by (rule pending_fresh) (use assms in \<open>simp_all add: scan_set_tidrange_def\<close>)
  moreover have "length (filter (tid_kept pg ?scan) (map row_of (storage t))) < n"
    by (rule le_less_trans [OF length_filter_le]) (simp add: assms(4))
  ultimately show ?thesis unfolding k rd by (rule tid_scan.drain_all)
qed

lemma seq_drain:
  assumes "holds h view up s rel t" and "slot_laws x" and "read_only snap" and "length (storage t) < n"
  shows "wp (drain (seq_next h pg x dir) n (scan_begin it rel snap nkeys key pscan flags, sl)) (\<lambda>(sts, fin) s'.
    fin \<and> map (slot_tuple x) sts =
      map (stored_tuple rel) (filter (sees_row pg snap) (map row_of (storage t)))) s"
proof -
  let ?scan = "scan_begin it rel snap nkeys key pscan flags"
  have k: "seq_kept pg ?scan = sees_row pg snap" by (simp add: fun_eq_iff seq_kept_def)
  have "scan_pending h view up x (seq_kept pg) (rs_rd ?scan) (?scan, sl)
      (filter (seq_kept pg ?scan) (map row_of (storage t))) s"
    by (rule pending_fresh) (use assms in simp_all)
  moreover have "length (filter (sees_row pg snap) (map row_of (storage t))) < n"
    by (rule le_less_trans [OF length_filter_le]) (simp add: assms(4))
  ultimately show ?thesis unfolding k by (intro seq_scan.drain_all) simp_all
qed

end
