(* ===== verification/Xact_Hooks.thy ===== *)
theory Xact_Hooks
  imports Row_Store
begin

text \<open>
  The transaction hooks (\<open>src/sqlite.rs\<close>, \<open>run_on_txn_conns\<close> to \<open>on_abort\<close>): what the
  storage does when Postgres starts, commits or aborts a subtransaction, is about to commit,
  has committed or has aborted, and the closures that a transaction registers.
\<close>

section \<open>Hooks\<close>

definition sp_name :: "u32 \<Rightarrow> string" where
  "sp_name subid = ''sp_'' @ show_u32 subid"

definition run_on_txn_conns :: "'w host \<Rightarrow> string \<Rightarrow> ('w backend, unit) prog" where
  "run_on_txn_conns h stmt =
     bindE (getE TX_RELS) (\<lambda>rels.
     forE (hash_iter h rels) (\<lambda>rel_id.
       bindE (getE (\<lambda>s. CONNS s rel_id)) (\<lambda>c.
         case c of
           None \<Rightarrow> ret ()
         | Some conn \<Rightarrow>
             if in_txn conn
             then bindE (on_conn rel_id (try_exec h stmt)) (\<lambda>r.
                    case r of Inr _ \<Rightarrow> ret ()
                    | Inl e \<Rightarrow> hostWB (pg_warning h (''sqlite_heap: `'' @ stmt @ ''` failed: '' @ e)))
             else ret ())))"

definition on_sub_start :: "'w host \<Rightarrow> u32 \<Rightarrow> ('w backend, unit) prog" where
  "on_sub_start h my_subid =
     bindE (getE TX_RELS) (\<lambda>rels.
     forE (hash_iter h rels) (\<lambda>rel_id.
       bindE (getE (\<lambda>s. CONNS s rel_id)) (\<lambda>c.
         case c of
           None \<Rightarrow> ret ()
         | Some conn \<Rightarrow>
             bindE (on_conn rel_id (seqE (begin_if_needed h)
                      (try_exec h (''SAVEPOINT '' @ sp_name my_subid @ '';'')))) (\<lambda>r.
               case r of Inr _ \<Rightarrow> ret ()
               | Inl e \<Rightarrow> hostWB (pg_warning h (''sqlite_heap: savepoint failed: '' @ e))))))"

definition on_sub_commit :: "'w host \<Rightarrow> u32 \<Rightarrow> ('w backend, unit) prog" where
  "on_sub_commit h my_subid =
     run_on_txn_conns h (''RELEASE SAVEPOINT '' @ sp_name my_subid @ '';'')"

definition on_sub_abort :: "'w host \<Rightarrow> u32 \<Rightarrow> ('w backend, unit) prog" where
  "on_sub_abort h my_subid =
     run_on_txn_conns h (''ROLLBACK TO SAVEPOINT '' @ sp_name my_subid @ '';'')"

text \<open>\<open>std::mem::take\<close> of \<open>TX_RELS\<close>, then one call per connection that is open.\<close>

definition take_and_run :: "'w host \<Rightarrow> ('w cstate, unit) prog \<Rightarrow> ('w backend, unit) prog" where
  "take_and_run h f =
     bindE (getE TX_RELS) (\<lambda>rels.
     seqE (modE (\<lambda>s. s\<lparr>TX_RELS := {}\<rparr>))
    (forE (hash_iter h rels) (\<lambda>rel_id.
       bindE (getE (\<lambda>s. CONNS s rel_id)) (\<lambda>c.
         case c of None \<Rightarrow> ret () | Some conn \<Rightarrow> on_conn rel_id f))))"

definition on_precommit :: "'w host \<Rightarrow> ('w backend, unit) prog" where
  "on_precommit h = take_and_run h (commit h)"

definition on_abort :: "'w host \<Rightarrow> ('w backend, unit) prog" where
  "on_abort h = take_and_run h (rollback h)"

section \<open>Dispatch\<close>

text \<open>
  The closure a hook registration stands for. pgrx keeps the registered closures and calls
  those of the event at hand; the table of closures is Postgres's and pgrx's side.
\<close>

datatype xevent = StartSub u32 | CommitSub u32 | AbortSub u32 | PreCommit | Commit | Abort

fun run_hook :: "'w host \<Rightarrow> xevent \<Rightarrow> hook \<Rightarrow> ('w backend, unit) prog" where
  "run_hook h (StartSub n) StartSubHook = on_sub_start h n"
| "run_hook h (CommitSub n) CommitSubHook = on_sub_commit h n"
| "run_hook h (AbortSub n) AbortSubHook = on_sub_abort h n"
| "run_hook h PreCommit PreCommitHook = on_precommit h"
| "run_hook h Abort AbortHook = on_abort h"
| "run_hook h Commit (CommitUnlink rel) = unlink_storage h rel"
| "run_hook h _ _ = ret ()"

section \<open>Effect of the hooks on a connection\<close>

definition savepointed :: "string \<Rightarrow> dbconn \<Rightarrow> dbconn" where
  "savepointed n d =
     (case db_txn (begun d) of None \<Rightarrow> d
      | Some (t0, sps) \<Rightarrow> (begun d)\<lparr>db_txn := Some (t0, (n, db_tab d) # sps)\<rparr>)"

definition released :: "string \<Rightarrow> dbconn \<Rightarrow> dbconn" where
  "released n d = (case exec_conn (X_release n) d of None \<Rightarrow> d | Some d' \<Rightarrow> d')"

definition rolled_to :: "string \<Rightarrow> dbconn \<Rightarrow> dbconn" where
  "rolled_to n d = (case exec_conn (X_rollback_to n) d of None \<Rightarrow> d | Some d' \<Rightarrow> d')"

definition closed_txn :: "dbconn \<Rightarrow> dbconn" where
  "closed_txn d = d\<lparr>db_txn := None\<rparr>"

text \<open>
  \<open>g\<close> has been applied to the connections of the relations \<open>R\<close>, and to nothing else: the files of
  relations that are not open have not changed (\<open>unopened_same\<close>).
\<close>

definition unopened_same :: "('w \<Rightarrow> eng) \<Rightarrow> 'w backend \<Rightarrow> 'w backend \<Rightarrow> bool" where
  "unopened_same view s s' \<longleftrightarrow> (\<forall>rel. CONNS s rel = None \<longrightarrow> CONNS s' rel = None \<and>
     (\<forall>dir. SQLITE_DIR s \<in> {None, Some dir} \<longrightarrow>
        e_files (view (World s')) (rel_path dir rel) = e_files (view (World s)) (rel_path dir rel)))"

definition mapped ::
    "('w \<Rightarrow> eng) \<Rightarrow> ('w \<Rightarrow> bool) \<Rightarrow> u32 set \<Rightarrow> (dbconn \<Rightarrow> dbconn) \<Rightarrow> 'w backend \<Rightarrow> 'w backend \<Rightarrow> bool" where
  "mapped view up R g s s' \<longleftrightarrow> backend_ok view up s' \<and>
     (\<forall>rel. rel_db view s' rel = (if rel \<in> R then map_option g (rel_db view s rel) else rel_db view s rel)) \<and>
     TX_RELS s' = TX_RELS s \<and> HOOKS s' = HOOKS s \<and> SQLITE_DIR s' = SQLITE_DIR s \<and> unopened_same view s s'"

lemma sp_name_inj: "sp_name a = sp_name b \<longleftrightarrow> a = b"
  by (simp add: sp_name_def oid_codec.enc_inj)

lemma sp_name_clean: "CHR '';'' \<notin> set (sp_name n)" "CHR 0x00 \<notin> set (sp_name n)"
  using show_nat_clean [of "unat n"] by (auto simp: sp_name_def show_u32_def)

section \<open>The hooks over an engine that keeps the contract\<close>

lemma mapped_trans:
  assumes "mapped view up R g s s1" and "mapped view up {x} g s1 s2" and "x \<notin> R"
  shows "mapped view up (insert x R) g s s2"
  using assms by (auto simp: mapped_def unopened_same_def)

lemma mapped_none: "backend_ok view up s \<Longrightarrow> mapped view up {} g s s"
  by (simp add: mapped_def unopened_same_def)

lemma mapped_avail:
  assumes "mapped view up R g s s'" and "CONNS s rel = None"
  shows "avail h view s' rel = avail h view s rel"
proof -
  have "dir_of h s' = dir_of h s" using assms(1) by (simp add: mapped_def dir_of_def)
  moreover have "e_files (view (World s')) (rel_path dir rel) = e_files (view (World s)) (rel_path dir rel)"
    if "dir_of h s = Some dir" for dir
    using assms that by (cases "SQLITE_DIR s") (auto simp: mapped_def unopened_same_def dir_of_def)
  moreover have "CONNS s' rel = None" "TX_RELS s' = TX_RELS s" using assms by (auto simp: mapped_def unopened_same_def)
  ultimately show ?thesis using assms(2) by (auto simp: avail_def fun_eq_iff open_conn_at_def)
qed

lemma exec_conn_fallback_path:
  "db_path (case exec_conn q d of None \<Rightarrow> d | Some d' \<Rightarrow> d') = db_path d"
  using exec_conn_path by (auto split: option.splits)

lemma savepointed_path [simp]: "db_path (savepointed n d) = db_path d" "db_tab (savepointed n d) = db_tab d"
  by (auto simp: savepointed_def split: option.splits)

lemma rolled_back_path [simp]: "db_path (rolled_back d) = db_path d"
  by (auto simp: rolled_back_def split: option.splits)

lemma sp_texts:
  "parse_sql (''SAVEPOINT '' @ sp_name n @ '';'') = Some (X_savepoint (sp_name n))"
  "parse_sql (''RELEASE SAVEPOINT '' @ sp_name n @ '';'') = Some (X_release (sp_name n))"
  "parse_sql (''ROLLBACK TO SAVEPOINT '' @ sp_name n @ '';'') = Some (X_rollback_to (sp_name n))"
  by (rule parse_sql_savepoints [OF sp_name_clean(1)])+

lemma sp_texts_no_nul:
  "CHR 0x00 \<notin> set (''SAVEPOINT '' @ sp_name n @ '';'')"
  "CHR 0x00 \<notin> set (''RELEASE SAVEPOINT '' @ sp_name n @ '';'')"
  "CHR 0x00 \<notin> set (''ROLLBACK TO SAVEPOINT '' @ sp_name n @ '';'')"
  using sp_name_clean(2) by simp_all

context sqlite_engine
begin

lemma on_conn_mapped:
  assumes ok: "BK s" and c: "CONNS s rel = Some c" and d: "conn_ok (view (World s)) c d"
    and p: "db_path (g d) = db_path d"
    and f: "\<And>e0 db cs. CI e0 db d cs \<Longrightarrow> wp f (\<lambda>_. CI e0 db (g d)) cs"
  shows "wp (on_conn rel f) (\<lambda>_. mapped view up {rel} g s) s"
proof (rule wp_on_conn [OF c])
  have "CI (view (World s)) (rc_db c) d (c, World s)"
    using d backend_ok_up [OF ok] by (simp add: cinv_def)
  from f [OF this] show "wp f (\<lambda>x cs'. mapped view up {rel} g s
      (s\<lparr>CONNS := (CONNS s)(rel \<mapsto> fst cs'), World := snd cs'\<rparr>)) (c, World s)"
  proof (rule wp_mono)
    fix x cs' assume I: "CI (view (World s)) (rc_db c) (g d) cs'"
    obtain dir where dir: "SQLITE_DIR s = Some dir" "db_path d = rel_path dir rel"
      using backend_ok_D [OF ok c] d conn_ok_unique by metis
    have "rel_db view s rel = Some d" using c d by (simp add: rel_db_def conn_ok_def)
    moreover have "unopened_same view s (s\<lparr>CONNS := (CONNS s)(rel \<mapsto> fst cs'), World := snd cs'\<rparr>)"
      using I p dir c by (auto simp: unopened_same_def cinv_def same_but_def rel_path_inj)
    ultimately show "mapped view up {rel} g s (s\<lparr>CONNS := (CONNS s)(rel \<mapsto> fst cs'), World := snd cs'\<rparr>)"
      using backend_ok_upd [OF ok c d p I refl] by (simp add: mapped_def)
  qed
qed

lemma each_conn_spec:
  assumes "BK s" and "distinct rels"
    and K: "\<And>s rel c d. BK s \<Longrightarrow> CONNS s rel = Some c \<Longrightarrow> conn_ok (view (World s)) c d \<Longrightarrow>
      wp (K rel c) (\<lambda>_. mapped view up {rel} g s) s"
  shows "wp (forE rels (\<lambda>rel. bindE (getE (\<lambda>s. CONNS s rel))
      (\<lambda>c. case c of None \<Rightarrow> ret () | Some c \<Rightarrow> K rel c)))
    (\<lambda>_. mapped view up (set rels) g s) s"
  using assms(1,2)
proof (induction rels arbitrary: s rule: rev_induct)
  case Nil
  then show ?case by (simp add: wp_ret mapped_none)
next
  case (snoc rel rels)
  have body: "wp (bindE (getE (\<lambda>s. CONNS s rel)) (\<lambda>c. case c of None \<Rightarrow> ret () | Some c \<Rightarrow> K rel c))
      (\<lambda>_. mapped view up {rel} g s') s'" if "BK s'" for s'
  proof (cases "CONNS s' rel")
    case None
    then show ?thesis using that by (auto simp: wp_rules mapped_def rel_db_def unopened_same_def)
  next
    case (Some c)
    then show ?thesis using K [OF that Some] backend_ok_D [OF that Some] by (auto simp: wp_rules)
  qed
  show ?case
    unfolding forE_snoc
    by (rule wpS [OF snoc.IH [OF snoc.prems(1)]], use snoc.prems(2) in simp,
        rule wp_mono [OF body], simp add: mapped_def,
        use snoc.prems(2) in \<open>auto intro: mapped_trans\<close>)
qed

lemma hostWB_mapped:
  assumes "BK s" and "\<And>w. up w \<Longrightarrow> view (f w) = view w \<and> up (f w)"
  shows "wp (hostWB f) (\<lambda>_ s'. BK s' \<and> (\<forall>rel. rel_db view s' rel = rel_db view s rel) \<and>
    CONNS s' = CONNS s \<and> TX_RELS s' = TX_RELS s \<and> HOOKS s' = HOOKS s \<and> SQLITE_DIR s' = SQLITE_DIR s \<and>
    view (World s') = view (World s)) s"
  using assms(1) assms(2) [OF backend_ok_up [OF assms(1)]]
  by (simp add: hostWB_def wp_rules backend_ok_def rel_db_def split: option.splits)

lemma warn_unless_mapped:
  assumes "wp m (\<lambda>_. mapped view up R g s) s"
  shows "wp (bindE m (\<lambda>r. case r of Inr _ \<Rightarrow> ret () | Inl e \<Rightarrow> hostWB (pg_warning h (p e))))
    (\<lambda>_. mapped view up R g s) s"
proof (rule wpB [OF assms])
  fix r s' assume M: "mapped view up R g s s'"
  show "wp (case r of Inr _ \<Rightarrow> ret () | Inl e \<Rightarrow> hostWB (pg_warning h (p e))) (\<lambda>_. mapped view up R g s) s'"
  proof (cases r)
    case (Inl e)
    have "wp (hostWB (pg_warning h (p e))) (\<lambda>_. mapped view up R g s) s'"
      by (rule wp_mono [OF hostWB_mapped]) (use M warning_ok in \<open>auto simp: mapped_def unopened_same_def\<close>)
    with Inl show ?thesis by simp
  qed (use M in \<open>simp add: wp_ret\<close>)
qed

text \<open>A savepoint statement does what it says or is refused, with the connection as it was.\<close>

lemma try_exec_fallback:
  assumes I: "CI e0 db d cs" and n: "CHR 0x00 \<notin> set sq" and q: "parse_sql sq = Some q"
    and e: "exec_conn q d = None \<Longrightarrow> exec_error q d"
    and t: "\<And>d'. exec_conn q d = Some d' \<Longrightarrow> (db_txn d' = None) = (db_txn d = None)"
  shows "wp (try_exec h sq) (\<lambda>_. CI e0 db (case exec_conn q d of None \<Rightarrow> d | Some d' \<Rightarrow> d')) cs"
proof (cases "exec_conn q d")
  case None
  with wp_mono [OF try_exec_error [OF I n q e [OF None]]] show ?thesis by auto
next
  case (Some d')
  have "wp (try_exec h sq) (\<lambda>_ cs'. CI e0 db d' (fst cs', snd cs')) cs"
    by (rule wp_mono [OF try_exec_ok [OF I n q Some]], rule cinv_put_conn [of _ _ _ _ d "fst cs" "snd cs"])
      (use I CI_D(4) [OF I] exec_conn_path [OF Some] exec_conn_committed [OF Some] t [OF Some] in simp_all)
  with Some show ?thesis by simp
qed

lemma run_on_txn_conns_spec:
  assumes "BK s" and n: "CHR 0x00 \<notin> set sq" and q: "parse_sql sq = Some q"
    and e: "\<And>d. exec_conn q d = None \<longleftrightarrow> exec_error q d"
    and t: "\<And>d d'. exec_conn q d = Some d' \<Longrightarrow> db_txn d' \<noteq> None \<and> db_txn d \<noteq> None"
  shows "wp (run_on_txn_conns h sq)
    (\<lambda>_. mapped view up (TX_RELS s) (\<lambda>d. case exec_conn q d of None \<Rightarrow> d | Some d' \<Rightarrow> d') s) s"
    (is "wp _ (\<lambda>_. mapped view up _ ?g s) s")
proof -
  have "wp (if in_txn c then bindE (on_conn rel (try_exec h sq)) (\<lambda>r. case r of Inr _ \<Rightarrow> ret ()
      | Inl e \<Rightarrow> hostWB (pg_warning h (''sqlite_heap: `'' @ sq @ ''` failed: '' @ e))) else ret ())
    (\<lambda>_. mapped view up {rel} ?g s) s"
    if "BK s" "CONNS s rel = Some c" "conn_ok (view (World s)) c d" for s rel c d
  proof (cases "in_txn c")
    case True
    have "wp (on_conn rel (try_exec h sq)) (\<lambda>_. mapped view up {rel} ?g s) s"
      by (rule on_conn_mapped [OF that], rule exec_conn_fallback_path,
          rule try_exec_fallback [OF _ n q]) (use e t in blast)+
    then show ?thesis unfolding if_P [OF True] by (rule warn_unless_mapped)
  next
    case False
    with that(3) have "exec_conn q d = None" using t [of d] by (cases "exec_conn q d") (auto simp: conn_ok_def)
    moreover have "rel_db view s rel = Some d" using that(2,3) by (simp add: rel_db_def conn_ok_def)
    ultimately show ?thesis using that(1) False by (auto simp: wp_rules mapped_def unopened_same_def)
  qed
  from each_conn_spec [OF assms(1) conjunct2 [OF hash_iter_ok [of "TX_RELS s"]] this]
  show ?thesis by (simp add: run_on_txn_conns_def wp_getE wp_bindE hash_iter_ok)
qed

lemma on_sub_commit_spec:
  "BK s \<Longrightarrow> wp (on_sub_commit h n) (\<lambda>_. mapped view up (TX_RELS s) (released (sp_name n)) s) s"
  unfolding on_sub_commit_def released_def
  by (rule run_on_txn_conns_spec [OF _ sp_texts_no_nul(2) sp_texts(2)])
    (auto split: option.splits prod.splits)

lemma on_sub_abort_spec:
  "BK s \<Longrightarrow> wp (on_sub_abort h n) (\<lambda>_. mapped view up (TX_RELS s) (rolled_to (sp_name n)) s) s"
  unfolding on_sub_abort_def rolled_to_def
  by (rule run_on_txn_conns_spec [OF _ sp_texts_no_nul(3) sp_texts(3)])
    (auto split: option.splits prod.splits)

lemma on_sub_start_spec:
  assumes "BK s"
  shows "wp (on_sub_start h n) (\<lambda>_. mapped view up (TX_RELS s) (savepointed (sp_name n)) s) s"
proof -
  let ?q = "X_savepoint (sp_name n)"
  have one: "wp (seqE (begin_if_needed h) (try_exec h (''SAVEPOINT '' @ sp_name n @ '';'')))
      (\<lambda>_. CI e0 db (savepointed (sp_name n) d)) cs" if "CI e0 db d cs" for e0 db d cs
  proof -
    obtain t0 sps where b: "db_txn (begun d) = Some (t0, sps)"
      using begun_simps(3) [of d] by (cases "db_txn (begun d)") auto
    then have g: "savepointed (sp_name n) d = (case exec_conn ?q (begun d) of None \<Rightarrow> begun d | Some d' \<Rightarrow> d')"
      by (simp add: savepointed_def)
    show ?thesis
      unfolding g
      by (rule wpS [OF begin_spec [OF that]], rule try_exec_fallback [OF _ sp_texts_no_nul(1) sp_texts(1)])
        (use b in auto)
  qed
  have "wp (bindE (on_conn rel (seqE (begin_if_needed h) (try_exec h (''SAVEPOINT '' @ sp_name n @ '';''))))
      (\<lambda>r. case r of Inr _ \<Rightarrow> ret () | Inl e \<Rightarrow> hostWB (pg_warning h (''sqlite_heap: savepoint failed: '' @ e))))
    (\<lambda>_. mapped view up {rel} (savepointed (sp_name n)) s) s"
    if "BK s" "CONNS s rel = Some c" "conn_ok (view (World s)) c d" for s rel c d
    by (rule warn_unless_mapped, rule on_conn_mapped [OF that], simp, rule one)
  from each_conn_spec [OF assms conjunct2 [OF hash_iter_ok [of "TX_RELS s"]] this]
  show ?thesis by (simp add: on_sub_start_def wp_getE wp_bindE hash_iter_ok)
qed

lemma take_and_run_spec:
  assumes "BK s" and f: "\<And>e0 db d cs. CI e0 db d cs \<Longrightarrow> wp f (\<lambda>_. CI e0 db (g d)) cs"
    and p: "\<And>d. db_path (g d) = db_path d"
  shows "wp (take_and_run h f) (\<lambda>_. mapped view up (TX_RELS s) g (s\<lparr>TX_RELS := {}\<rparr>)) s"
proof -
  have ok: "BK (s\<lparr>TX_RELS := {}\<rparr>)" using assms(1) by (simp add: backend_ok_def)
  have "wp (on_conn rel f) (\<lambda>_. mapped view up {rel} g s) s"
    if "BK s" "CONNS s rel = Some c" "conn_ok (view (World s)) c d" for s rel c d
    by (rule on_conn_mapped [OF that], rule p, rule f)
  from each_conn_spec [OF ok conjunct2 [OF hash_iter_ok [of "TX_RELS s"]] this]
  show ?thesis by (simp add: take_and_run_def wp_getE wp_bindE wp_seqE wp_modE hash_iter_ok)
qed

lemma on_precommit_spec:
  "BK s \<Longrightarrow> wp (on_precommit h) (\<lambda>_. mapped view up (TX_RELS s) closed_txn (s\<lparr>TX_RELS := {}\<rparr>)) s"
  unfolding on_precommit_def
  by (rule take_and_run_spec) (simp_all add: closed_txn_def commit_spec)

lemma on_abort_spec:
  "BK s \<Longrightarrow> wp (on_abort h) (\<lambda>_. mapped view up (TX_RELS s) rolled_back (s\<lparr>TX_RELS := {}\<rparr>)) s"
  unfolding on_abort_def by (rule take_and_run_spec) (simp_all add: rollback_spec)

end

end
