(* ===== verification/Table_Am.thy ===== *)
theory Table_Am
  imports Scan Xact_Hooks
begin

text \<open>
  The write and maintenance callbacks of the table access method (\<open>src/tam.rs\<close>) and the
  inspection functions (\<open>src/lib.rs\<close>): tuple lifecycle, index maintenance, relation
  lifecycle, vacuum, cluster, index build and size estimates.
\<close>

section \<open>Tuple lifecycle\<close>

datatype TM_Result =
    TM_Ok | TM_Invisible | TM_SelfModified | TM_Updated | TM_Deleted | TM_BeingModified | TM_WouldBlock

datatype TU_UpdateIndexes = TU_None | TU_All | TU_Summarizing

definition current_xid_u32 :: "pg_xact \<Rightarrow> u32" where
  "current_xid_u32 pg = GetCurrentTransactionId pg"

definition do_tuple_insert ::
    "'w host \<Rightarrow> pg_xact \<Rightarrow> 'b slot_api \<Rightarrow> u32 \<Rightarrow> 'b slot \<Rightarrow> u32 \<Rightarrow> ('w backend, 'b slot) prog" where
  "do_tuple_insert h pg x rel sl cid =
     (let tup = copy_heap_tuple x sl; xid = current_xid_u32 pg
      in bindE (insert_row h rel xid cid tup) (\<lambda>rid. ret (set_inserted_tid rel rid sl)))"

definition tuple_insert ::
    "'w host \<Rightarrow> pg_xact \<Rightarrow> 'b slot_api \<Rightarrow> u32 \<Rightarrow> 'b slot \<Rightarrow> u32 \<Rightarrow> ('w backend, 'b slot) prog" where
  "tuple_insert h pg x rel sl cid = do_tuple_insert h pg x rel sl cid"

definition tuple_insert_speculative ::
    "'w host \<Rightarrow> pg_xact \<Rightarrow> 'b slot_api \<Rightarrow> u32 \<Rightarrow> 'b slot \<Rightarrow> u32 \<Rightarrow> u32 \<Rightarrow> ('w backend, 'b slot) prog" where
  "tuple_insert_speculative h pg x rel sl cid spec_token = do_tuple_insert h pg x rel sl cid"

definition tuple_complete_speculative ::
    "'w host \<Rightarrow> u32 \<Rightarrow> 'b slot \<Rightarrow> bool \<Rightarrow> ('w backend, unit) prog" where
  "tuple_complete_speculative h rel sl succeeded =
     (if succeeded then ret ()
      else bindE (physical_delete h rel (tid_to_rowid (tts_tid sl))) (\<lambda>_. ret ()))"

text \<open>The slots and the returned rowids are paired as \<open>zip\<close> does; a slot without one is left alone.\<close>

fun stamp_slots :: "u32 \<Rightarrow> 'b slot list \<Rightarrow> int list \<Rightarrow> 'b slot list" where
  "stamp_slots rel (sl # sls) (rid # rids) = set_inserted_tid rel rid sl # stamp_slots rel sls rids"
| "stamp_slots rel sls _ = sls"

definition multi_insert ::
    "'w host \<Rightarrow> pg_xact \<Rightarrow> 'b slot_api \<Rightarrow> u32 \<Rightarrow> 'b slot list \<Rightarrow> u32 \<Rightarrow> ('w backend, 'b slot list) prog" where
  "multi_insert h pg x rel slots cid =
     (if slots = [] then ret []
      else (let xid = current_xid_u32 pg; byte_slices = map (copy_heap_tuple x) slots
            in bindE (insert_batch h rel xid cid byte_slices) (\<lambda>rowids. ret (stamp_slots rel slots rowids))))"

definition tuple_delete :: "'w host \<Rightarrow> pg_xact \<Rightarrow> u32 \<Rightarrow> ItemPointerData \<Rightarrow> u32 \<Rightarrow> ('w backend, TM_Result) prog" where
  "tuple_delete h pg rel tid cid =
     bindE (set_xmax h rel (tid_to_rowid tid) (current_xid_u32 pg) cid) (\<lambda>n.
       ret (if n = 0 then TM_Deleted else TM_Ok))"

text \<open>\<open>update_indexes\<close> is an out-parameter that may be null (\<open>None\<close>).\<close>

definition tuple_update ::
    "'w host \<Rightarrow> pg_xact \<Rightarrow> 'b slot_api \<Rightarrow> u32 \<Rightarrow> ItemPointerData \<Rightarrow> 'b slot \<Rightarrow> u32 \<Rightarrow> TU_UpdateIndexes option \<Rightarrow>
      ('w backend, TM_Result \<times> 'b slot \<times> TU_UpdateIndexes option) prog" where
  "tuple_update h pg x rel otid sl cid update_indexes =
     (let old_rowid = tid_to_rowid otid; xid = current_xid_u32 pg; tup = copy_heap_tuple x sl
      in bindE (update_row h rel old_rowid xid cid tup) (\<lambda>new_rowid.
           ret (TM_Ok, set_inserted_tid rel new_rowid sl, map_option (\<lambda>_. TU_All) update_indexes)))"

definition tuple_lock ::
    "'w host \<Rightarrow> pg_xact \<Rightarrow> 'b slot_api \<Rightarrow> u32 \<Rightarrow> ItemPointerData \<Rightarrow> Snapshot \<Rightarrow> 'b slot \<Rightarrow>
      ('w backend, TM_Result \<times> Snapshot \<times> 'b slot) prog" where
  "tuple_lock h pg x rel tid snapshot sl =
     bindE (fetch_one_into_slot h pg x rel (tid_to_rowid tid) snapshot sl) (\<lambda>(hit, snap, sl').
       ret (if hit then TM_Ok else TM_Deleted, snap, sl'))"

section \<open>Index maintenance\<close>

record TM_IndexDelete =
  del_tid :: ItemPointerData
  del_id :: nat

text \<open>\<open>status\<close> holds the \<open>knowndeletable\<close> flag of each entry.\<close>

record TM_IndexDeleteOp =
  ndeltids :: nat
  deltids :: "TM_IndexDelete list"
  status :: "bool list"

definition deletable :: "pg_xact \<Rightarrow> u32 \<Rightarrow> u32 option \<Rightarrow> bool" where
  "deletable pg oldest xm =
     (case xm of
        None \<Rightarrow> True
      | Some v \<Rightarrow> if v = 0 then False else did_commit pg v \<and> TransactionIdPrecedes pg v oldest)"

definition track_removed :: "pg_xact \<Rightarrow> u32 option \<Rightarrow> u32 \<Rightarrow> u32" where
  "track_removed pg xm latest =
     (case xm of Some v \<Rightarrow> if v \<noteq> 0 \<and> TransactionIdFollows pg v latest then v else latest | None \<Rightarrow> latest)"

fun index_delete_loop ::
    "pg_xact \<Rightarrow> u32 \<Rightarrow> (int \<rightharpoonup> u32) \<Rightarrow> (TM_IndexDelete \<times> int) list \<Rightarrow> bool list \<Rightarrow> u32 \<Rightarrow> bool \<Rightarrow>
      ('s, bool list \<times> u32 \<times> bool) prog" where
  "index_delete_loop pg oldest m [] sts latest any = ret (sts, latest, any)"
| "index_delete_loop pg oldest m ((entry, rid) # es) sts latest any =
     (if deletable pg oldest (m rid)
      then (if del_id entry < length sts
            then index_delete_loop pg oldest m es (sts[del_id entry := True]) (track_removed pg (m rid) latest) True
            else panic ''index out of bounds'')
      else index_delete_loop pg oldest m es sts latest any)"

text \<open>The slices \<open>deltids\<close> and \<open>status\<close> are the first \<open>ndeltids\<close> elements of the arrays.\<close>

definition index_delete_tuples ::
    "'w host \<Rightarrow> pg_xact \<Rightarrow> u32 \<Rightarrow> TM_IndexDeleteOp \<Rightarrow> ('w backend, u32 \<times> TM_IndexDeleteOp) prog" where
  "index_delete_tuples h pg rel op =
     (let n = ndeltids op
      in if n = 0 then ret (0, op)
         else (let dels = take n (deltids op);
                   oldest = GetOldestNonRemovableTransactionId pg rel;
                   rowids = map (\<lambda>e. tid_to_rowid (del_tid e)) dels
               in bindE (select_xmax_batch h rel rowids) (\<lambda>xmax_map.
                  bindE (index_delete_loop pg oldest xmax_map (zip dels rowids) (take n (status op)) 0 False)
                    (\<lambda>(sts, latest_removed, any_deletable).
                      ret (latest_removed,
                           op\<lparr>status := sts @ drop n (status op),
                              ndeltids := (if \<not> any_deletable then 0 else n)\<rparr>)))))"

text \<open>
  Index build: \<open>form\<close> is \<open>FormIndexDatum\<close> on the stored slot, \<open>cb\<close> the index access method's
  callback, threading its own state.
\<close>

fun build_index_loop ::
    "'b slot_api \<Rightarrow> ('b slot \<Rightarrow> 'v) \<Rightarrow> (ItemPointerData \<Rightarrow> 'v \<Rightarrow> 'c \<Rightarrow> 'c) \<Rightarrow> u32 \<Rightarrow> StoredRow list \<Rightarrow> 'b slot \<Rightarrow> 'c \<Rightarrow>
      nat \<Rightarrow> nat \<times> 'c" where
  "build_index_loop x form cb rel [] sl cs n = (n, cs)"
| "build_index_loop x form cb rel (row # rs) sl cs n =
     (if xmax (header row) \<noteq> 0 then build_index_loop x form cb rel rs sl cs n
      else (let sl' = store_row x rel row sl; tid = rowid_to_tid (rowid (header row))
            in build_index_loop x form cb rel rs sl' (cb tid (form sl') cs) (n + 1)))"

definition build_index ::
    "'w host \<Rightarrow> 'b slot_api \<Rightarrow> ('b slot \<Rightarrow> 'v) \<Rightarrow> (ItemPointerData \<Rightarrow> 'v \<Rightarrow> 'c \<Rightarrow> 'c) \<Rightarrow> u32 \<Rightarrow> 'b slot \<Rightarrow> 'c \<Rightarrow>
      ('w backend, nat \<times> 'c) prog" where
  "build_index h x form cb table sl0 cs =
     bindE (select_all h table) (\<lambda>rs. ret (build_index_loop x form cb table rs sl0 cs 0))"

definition index_build_range_scan ::
    "'w host \<Rightarrow> 'b slot_api \<Rightarrow> ('b slot \<Rightarrow> 'v) \<Rightarrow> (ItemPointerData \<Rightarrow> 'v \<Rightarrow> 'c \<Rightarrow> 'c) option \<Rightarrow> u32 \<Rightarrow> 'b slot \<Rightarrow> 'c \<Rightarrow>
      ('w backend, nat \<times> 'c) prog" where
  "index_build_range_scan h x form callback table sl0 cs =
     (case callback of None \<Rightarrow> ret (0, cs) | Some cb \<Rightarrow> build_index h x form cb table sl0 cs)"

section \<open>Relation lifecycle\<close>

definition relation_set_new_filelocator :: "'w host \<Rightarrow> u32 \<Rightarrow> ('w backend, unit) prog" where
  "relation_set_new_filelocator h rel = reset h rel"

definition relation_nontransactional_truncate :: "'w host \<Rightarrow> u32 \<Rightarrow> ('w backend, unit) prog" where
  "relation_nontransactional_truncate h rel = reset h rel"

fun cluster_loop ::
    "'w host \<Rightarrow> u32 \<Rightarrow> u32 \<Rightarrow> u32 \<Rightarrow> StoredRow list \<Rightarrow> nat \<Rightarrow> nat \<Rightarrow> ('w backend, nat \<times> nat) prog" where
  "cluster_loop h new xid cid [] live dead = ret (live, dead)"
| "cluster_loop h new xid cid (row # rs) live dead =
     (if xmax (header row) \<noteq> 0 then cluster_loop h new xid cid rs live (dead + 1)
      else bindE (insert_row h new xid cid (tuple row)) (\<lambda>_. cluster_loop h new xid cid rs (live + 1) dead))"

text \<open>Returns \<open>num_tuples\<close>, \<open>tups_vacuumed\<close> and \<open>tups_recently_dead\<close>.\<close>

definition relation_copy_for_cluster ::
    "'w host \<Rightarrow> pg_xact \<Rightarrow> u32 \<Rightarrow> u32 \<Rightarrow> ('w backend, nat \<times> nat \<times> nat) prog" where
  "relation_copy_for_cluster h pg old new =
     (let xid = current_xid_u32 pg; cid = GetCurrentCommandId pg
      in bindE (select_all h old) (\<lambda>rs.
         bindE (cluster_loop h new xid cid rs 0 0) (\<lambda>(live, dead). ret (live, dead, 0))))"

definition relation_vacuum :: "'w host \<Rightarrow> pg_xact \<Rightarrow> u32 \<Rightarrow> ('w backend, unit) prog" where
  "relation_vacuum h pg rel =
     bindE (vacuum_dead h rel (GetOldestNonRemovableTransactionId pg rel)) (\<lambda>_. ret ())"

datatype ForkNumber = MAIN_FORKNUM | FSM_FORKNUM | VISIBILITYMAP_FORKNUM | INIT_FORKNUM

definition BLCKSZ :: u64 where "BLCKSZ = 8192"

definition relation_size :: "ForkNumber \<Rightarrow> u64" where
  "relation_size fork = (if fork = MAIN_FORKNUM then BLCKSZ else 0)"

definition div_ceil :: "u64 \<Rightarrow> u64 \<Rightarrow> u64" where
  "div_ceil a b = (let q = a div b in if a mod b > 0 then q + 1 else q)"

text \<open>Returns \<open>pages\<close>, \<open>tuples\<close> and \<open>allvisfrac\<close>.\<close>

definition relation_estimate_size :: "'w host \<Rightarrow> u32 \<Rightarrow> ('w backend, u32 \<times> int \<times> nat) prog" where
  "relation_estimate_size h rel =
     bindE (estimate_size h rel) (\<lambda>(file_bytes, n). ret (ucast (max (div_ceil file_bytes 8192) 1), n, 1))"

section \<open>Inspection\<close>

definition sqlite_heap_physical_rows :: "'w host \<Rightarrow> u32 \<Rightarrow> ('w backend, int) prog" where
  "sqlite_heap_physical_rows h rel = bindE (select_all h rel) (\<lambda>rs. ret (int (length rs)))"

definition sqlite_heap_live_rows :: "'w host \<Rightarrow> u32 \<Rightarrow> ('w backend, int) prog" where
  "sqlite_heap_live_rows h rel =
     bindE (select_all h rel) (\<lambda>rs. ret (int (length (filter (\<lambda>r. xmax (header r) = 0) rs))))"

definition sqlite_heap_file_path :: "'w host \<Rightarrow> u32 \<Rightarrow> ('w backend, string) prog" where
  "sqlite_heap_file_path h rel = file_path h rel"

definition sqlite_heap_file_size :: "'w host \<Rightarrow> u32 \<Rightarrow> ('w backend, int) prog" where
  "sqlite_heap_file_size h rel =
     bindE (file_path h rel) (\<lambda>p. getE (\<lambda>s. case fs_metadata_len h p (World s) of Some n \<Rightarrow> sint n | None \<Rightarrow> 0))"

definition sqlite_heap_schema_version :: "'w host \<Rightarrow> u32 \<Rightarrow> ('w backend, int) prog" where
  "sqlite_heap_schema_version h rel = schema_version h rel"

definition storage_line :: "StoredRow \<Rightarrow> int \<times> int \<times> int \<times> int \<times> int \<times> int \<times> bool" where
  "storage_line r =
     (rowid (header r), uint (xmin (header r)), uint (cmin (header r)), uint (xmax (header r)),
      uint (cmax (header r)), sint (of_nat (length (tuple r)) :: u32), xmax (header r) = 0)"

definition sqlite_heap_storage ::
    "'w host \<Rightarrow> u32 \<Rightarrow> ('w backend, (int \<times> int \<times> int \<times> int \<times> int \<times> int \<times> bool) list) prog" where
  "sqlite_heap_storage h rel = bindE (select_all h rel) (\<lambda>rs. ret (map storage_line rs))"

definition sqlite_heap_files :: "'w host \<Rightarrow> ('w backend, (u32 \<times> int) list) prog" where
  "sqlite_heap_files h = bindE (list_files h) (\<lambda>fs. ret (map (\<lambda>(oid, n). (oid, sint n)) fs))"

definition sqlite_heap_drop_storage :: "u32 \<Rightarrow> ('w backend, unit) prog" where
  "sqlite_heap_drop_storage rel = drop_relation rel"

section \<open>Loops\<close>

lemma track_removed_cases:
  "deletable pg oldest xm \<Longrightarrow> track_removed pg xm latest = latest \<or>
    (\<exists>v. track_removed pg xm latest = v \<and> xm = Some v \<and> did_commit pg v \<and> TransactionIdPrecedes pg v oldest)"
  by (auto simp: deletable_def track_removed_def split: option.splits if_splits)

lemma index_delete_loop_spec:
  assumes "\<forall>e \<in> set es. del_id (fst e) < length sts"
  shows "wp (index_delete_loop pg oldest m es sts latest any) (\<lambda>(sts', latest', any') s'. s' = s \<and>
    length sts' = length sts \<and>
    (\<forall>i < length sts. sts' ! i \<longleftrightarrow> sts ! i \<or> (\<exists>e \<in> set es. del_id (fst e) = i \<and> deletable pg oldest (m (snd e)))) \<and>
    (any' \<longleftrightarrow> any \<or> (\<exists>e \<in> set es. deletable pg oldest (m (snd e)))) \<and>
    (latest' = latest \<or> did_commit pg latest' \<and> TransactionIdPrecedes pg latest' oldest)) s"
  using assms
proof (induction es arbitrary: sts latest any)
  case (Cons e es)
  obtain entry rid where e: "e = (entry, rid)" by (cases e)
  show ?case
  proof (cases "deletable pg oldest (m rid)")
    case True
    have "wp (index_delete_loop pg oldest m es (sts[del_id entry := True]) (track_removed pg (m rid) latest) True)
      (\<lambda>(sts', latest', any') s'. s' = s \<and> length sts' = length sts \<and>
        (\<forall>i < length sts. sts' ! i \<longleftrightarrow> sts[del_id entry := True] ! i \<or>
           (\<exists>e \<in> set es. del_id (fst e) = i \<and> deletable pg oldest (m (snd e)))) \<and> any' \<and>
        (latest' = track_removed pg (m rid) latest \<or> did_commit pg latest' \<and> TransactionIdPrecedes pg latest' oldest)) s"
      using Cons.IH [of "sts[del_id entry := True]" "track_removed pg (m rid) latest" True] Cons.prems by simp
    then have "wp (index_delete_loop pg oldest m es (sts[del_id entry := True]) (track_removed pg (m rid) latest) True)
      (\<lambda>(sts', latest', any') s'. s' = s \<and> length sts' = length sts \<and>
        (\<forall>i < length sts. sts' ! i \<longleftrightarrow> sts ! i \<or>
           (\<exists>e' \<in> set (e # es). del_id (fst e') = i \<and> deletable pg oldest (m (snd e')))) \<and>
        (any' \<longleftrightarrow> any \<or> (\<exists>e' \<in> set (e # es). deletable pg oldest (m (snd e')))) \<and>
        (latest' = latest \<or> did_commit pg latest' \<and> TransactionIdPrecedes pg latest' oldest)) s"
      by (rule wp_mono)
        (use True Cons.prems track_removed_cases [OF True, of latest] in \<open>auto simp: e nth_list_update split: if_splits\<close>)
    then show ?thesis using True Cons.prems by (simp add: e)
  next
    case False
    then show ?thesis using Cons by (simp add: e)
  qed
qed (simp add: wp_ret)

text \<open>The rows a cluster copies and the number it leaves behind.\<close>

definition copied :: "srow list \<Rightarrow> bytes list" where
  "copied rs = map rw_tuple (filter (\<lambda>r. rw_xmax r = 0) rs)"

lemma cluster_loop_spec:
  assumes "rows_ok all" and "set rs \<subseteq> set all" and "old \<noteq> new" and "holds h view up s old t"
    and "holds h view up s new u" and "\<forall>b \<in> set (copied rs). length b \<le> 1000000000"
    and "next_rowid (storage u) + int (length (copied rs)) \<le> i64_max"
  shows "wp (cluster_loop h new x c (map row_of rs) live dead) (\<lambda>(l, d) s'. holds h view up s' old t \<and>
    holds h view up s' new (u\<lparr>storage := rows_batch (sint x) (sint c) (copied rs) (storage u)\<rparr>) \<and>
    l = live + length (copied rs) \<and> d = dead + (length rs - length (copied rs))) s"
  using assms(2,4-7)
proof (induction rs arbitrary: s u live dead)
  case Nil
  then show ?case by (simp add: copied_def wp_ret)
next
  case (Cons r rs)
  have sub: "set rs \<subseteq> set all" and z: "xmax (header (row_of r)) = 0 \<longleftrightarrow> rw_xmax r = 0"
    using Cons.prems(1) xmax_row_of [OF assms(1)] by auto
  have le: "length (copied rs) \<le> length rs" by (simp add: copied_def)
  show ?case
  proof (cases "rw_xmax r = 0")
    case True
    then have cp: "copied (r # rs) = rw_tuple r # copied rs" by (simp add: copied_def)
    have n: "next_rowid (storage u) \<le> i64_max" using Cons.prems(5) by (simp add: cp)
    have "next_rowid (rows_insert (sint x) (sint c) (rw_tuple r) (storage u)) = next_rowid (storage u) + 1"
      using batch_ids_upto [of "sint x" "sint c" "[rw_tuple r, rw_tuple r]" "storage u"] by simp
    then have "next_rowid (storage (u\<lparr>storage := rows_insert (sint x) (sint c) (rw_tuple r) (storage u)\<rparr>)) +
        int (length (copied rs)) \<le> i64_max" using Cons.prems(5) by (simp add: cp)
    note IH = Cons.IH [OF sub _ _ _ this, of _ "live + 1" dead]
    have "wp (bindE (insert_row h new x c (rw_tuple r)) (\<lambda>_. cluster_loop h new x c (map row_of rs) (live + 1) dead))
      (\<lambda>(l, d) s'. holds h view up s' old t \<and>
        holds h view up s' new (u\<lparr>storage := rows_batch (sint x) (sint c) (copied (r # rs)) (storage u)\<rparr>) \<and>
        l = live + length (copied (r # rs)) \<and> d = dead + (length (r # rs) - length (copied (r # rs)))) s"
      by (rule wpB [OF holds_insert [OF Cons.prems(3) _ n]], use Cons.prems(4) cp in simp, elim exE conjE, simp only:,
          rule wp_mono [OF IH]) (use Cons.prems cp aloneD [OF _ assms(3)] in auto)
    then show ?thesis using True z by simp
  next
    case False
    then have cp: "copied (r # rs) = copied rs" by (simp add: copied_def)
    have "wp (cluster_loop h new x c (map row_of rs) live (dead + 1)) (\<lambda>(l, d) s'. holds h view up s' old t \<and>
        holds h view up s' new (u\<lparr>storage := rows_batch (sint x) (sint c) (copied rs) (storage u)\<rparr>) \<and>
        l = live + length (copied rs) \<and> d = dead + 1 + (length rs - length (copied rs))) s"
      by (rule Cons.IH [OF sub]) (use Cons.prems cp in auto)
    then show ?thesis using False z le by (simp add: cp) (auto elim!: wp_mono simp: Suc_diff_le)
  qed
qed

text \<open>A rowid is dead to the horizon: no row has it, or one whose deleter committed before it.\<close>

definition dead_rowid :: "pg_xact \<Rightarrow> u32 \<Rightarrow> srow list \<Rightarrow> int \<Rightarrow> bool" where
  "dead_rowid pg oldest rs rid \<longleftrightarrow> (\<forall>r \<in> set rs. rw_id r = rid \<longrightarrow>
     xmax (header (row_of r)) \<noteq> 0 \<and> did_commit pg (xmax (header (row_of r))) \<and>
     TransactionIdPrecedes pg (xmax (header (row_of r))) oldest)"

lemma deletable_dead:
  assumes "rows_ok rs"
  shows "deletable pg oldest (map_option (\<lambda>r. xmax (header (row_of r))) (find_row rid rs)) = dead_rowid pg oldest rs rid"
proof (cases "find_row rid rs")
  case None
  then have "\<forall>r \<in> set rs. rw_id r \<noteq> rid" by (auto simp: find_row_def find_None_iff)
  with None show ?thesis by (simp add: deletable_def dead_rowid_def)
next
  case (Some r)
  then have r: "r \<in> set rs" "rw_id r = rid" by (auto dest: find_row_Some)
  have "q = r" if "q \<in> set rs" "rw_id q = rid" for q
    using rows_ok_distinct [OF assms] that r by (auto simp: distinct_map inj_on_def)
  then have "dead_rowid pg oldest rs rid \<longleftrightarrow> xmax (header (row_of r)) \<noteq> 0 \<and> did_commit pg (xmax (header (row_of r))) \<and>
      TransactionIdPrecedes pg (xmax (header (row_of r))) oldest"
    unfolding dead_rowid_def using r by blast
  with Some show ?thesis by (simp add: deletable_def)
qed

lemma dead_rowid_unseen:
  assumes "rows_ok rs" and "dead_rowid pg oldest rs rid"
    and "\<And>x c. did_commit pg x \<Longrightarrow> TransactionIdPrecedes pg x oldest \<Longrightarrow> sees pg snap x c"
  shows "(rid, b) \<notin> set (seen_table pg snap rs)"
  using assms(2,3) by (auto simp: seen_table_def dead_rowid_def visible_row_def mvcc.vis_iff)

lemma relation_copy_spec:
  fixes pg :: pg_xact
  defines "x \<equiv> GetCurrentTransactionId pg" and "c \<equiv> GetCurrentCommandId pg"
  assumes "holds h view up s old t" and "holds h view up s new u" and "old \<noteq> new"
    and "\<forall>b \<in> set (copied (storage t)). length b \<le> 1000000000"
    and "next_rowid (storage u) + int (length (copied (storage t))) \<le> i64_max"
  shows "wp (relation_copy_for_cluster h pg old new) (\<lambda>(live, vacuumed, recent) s'. holds h view up s' old t \<and>
    holds h view up s' new (u\<lparr>storage := rows_batch (sint x) (sint c) (copied (storage t)) (storage u)\<rparr>) \<and>
    live = length (copied (storage t)) \<and> vacuumed + live = length (storage t) \<and> recent = 0) s"
proof -
  have ok: "rows_ok (storage t)" using assms(3) by (simp add: holds_def)
  have le: "length (copied (storage t)) \<le> length (storage t)" by (simp add: copied_def)
  show ?thesis
    unfolding relation_copy_for_cluster_def Let_def current_xid_u32_def x_def c_def
    by (rule wpB [OF holds_select_all [OF assms(3)]], elim exE conjE, simp only:,
        rule wpB [OF cluster_loop_spec [OF ok subset_refl assms(5)]], assumption,
        erule aloneD [OF _ assms(5) [symmetric] assms(4)], rule assms(6), rule assms(7))
      (use le in \<open>auto simp: wp_ret\<close>)
qed

end
