(* ===== verification/Drop_Storage.thy ===== *)
theory Drop_Storage
  imports Table_Am
begin

text \<open>
  Dropping a table: the \<open>sql_drop\<close> event trigger (\<open>src/lib.rs\<close>) asks for the storage of every
  dropped table to be reclaimed, \<open>drop_relation\<close> defers that to the commit, and
  \<open>unlink_storage\<close> (\<open>src/sqlite.rs\<close>) closes the connection and removes the files.
\<close>

section \<open>The event trigger\<close>

text \<open>A row of \<open>pg_event_trigger_dropped_objects\<close>: the object's type and oid.\<close>

definition sqlite_heap_drop_handler :: "(string \<times> u32) list \<Rightarrow> ('w backend, unit) prog" where
  "sqlite_heap_drop_handler objs =
     forE (filter (\<lambda>(object_type, _). object_type = ''table'') objs) (\<lambda>(_, objid). sqlite_heap_drop_storage objid)"

lemma drop_handler_spec:
  "wp (sqlite_heap_drop_handler objs) (\<lambda>_ s'. s' = s\<lparr>HOOKS := HOOKS s @
     map (\<lambda>obj. CommitUnlink (snd obj)) (filter (\<lambda>obj. fst obj = ''table'') objs)\<rparr>) s"
proof (induction objs arbitrary: s)
  case (Cons obj objs)
  note IH = Cons.IH [unfolded sqlite_heap_drop_handler_def]
  show ?case
  proof (cases "fst obj = ''table''")
    case True
    with IH [of "s\<lparr>HOOKS := HOOKS s @ [CommitUnlink (snd obj)]\<rparr>"] show ?thesis
      by (simp add: sqlite_heap_drop_handler_def wp_rules sqlite_heap_drop_storage_def drop_relation_def
          register_hooks_def split_def)
  next
    case False
    with IH show ?thesis by (simp add: sqlite_heap_drop_handler_def split_def)
  qed
qed (simp add: sqlite_heap_drop_handler_def wp_ret)

section \<open>File names\<close>

lemma with_extension_rel_path:
  assumes "CHR ''/'' \<notin> set ext"
  shows "with_extension (rel_path dir rel) ext = path_join dir (show_u32 rel @ ''.'' @ ext)"
proof -
  let ?n = "show_u32 rel @ ''.sqlite''"
  have c: "CHR ''/'' \<notin> set (show_u32 rel)" "CHR ''.'' \<notin> set (show_u32 rel)" "show_u32 rel \<noteq> []"
    using show_nat_clean(2,3) [of "unat rel"] show_nat_not_Nil by (auto simp: show_u32_def)
  have h: "hd (show_u32 rel @ x) \<noteq> CHR ''/''" for x using c(1,3) by (cases "show_u32 rel") auto
  have t: "takeWhile (\<lambda>c. c \<noteq> CHR ''/'') (rev ?n @ ys) = rev ?n" if "ys = [] \<or> hd ys = CHR ''/''" for ys
    using that c(1) by (cases ys) (auto simp: takeWhile_append)
  have stem: "file_stem ?n = show_u32 rel"
    using split_ext_sqlite [OF c(2) _ c(3), of "''sqlite''"] by (simp add: file_stem_def)
  show ?thesis
  proof (cases "dir = [] \<or> last dir = CHR ''/''")
    case True
    then have "rev dir = [] \<or> hd (rev dir) = CHR ''/''" by (simp add: hd_rev)
    from t [OF this] True h show ?thesis
      by (simp add: rel_path_def path_join_def with_extension_def Let_def stem)
  next
    case False
    from t [of "CHR ''/'' # rev dir"] False h show ?thesis
      by (simp add: rel_path_def path_join_def with_extension_def Let_def stem)
  qed
qed

lemma last_path_join: "n \<noteq> [] \<Longrightarrow> last (path_join dir n) = last n"
  by (simp add: path_join_def)

lemma side_files_distinct:
  "with_extension (rel_path dir rel) ''sqlite-wal'' \<noteq> rel_path dir rel'"
  "with_extension (rel_path dir rel) ''sqlite-shm'' \<noteq> rel_path dir rel'"
proof -
  have "last (rel_path dir rel') = CHR ''e''" by (simp add: rel_path_def last_path_join)
  moreover have "last (with_extension (rel_path dir rel) ''sqlite-wal'') = CHR ''l''"
    "last (with_extension (rel_path dir rel) ''sqlite-shm'') = CHR ''m''"
    by (simp_all add: with_extension_rel_path last_path_join)
  ultimately show "with_extension (rel_path dir rel) ''sqlite-wal'' \<noteq> rel_path dir rel'"
    "with_extension (rel_path dir rel) ''sqlite-shm'' \<noteq> rel_path dir rel'" by force+
qed

section \<open>Unlinking\<close>

lemma hooks_irrelevant:
  "backend_ok view up (s\<lparr>HOOKS := hs\<rparr>) = backend_ok view up s"
  "dir_of h (s\<lparr>HOOKS := hs\<rparr>) = dir_of h s"
  "backend_ok view up (s\<lparr>TX_RELS := rs\<rparr>) = backend_ok view up s"
  "dir_of h (s\<lparr>TX_RELS := rs\<rparr>) = dir_of h s"
  by (simp_all add: backend_ok_def dir_of_def)

definition without_conn :: "RelConn \<Rightarrow> eng \<Rightarrow> eng" where
  "without_conn c e = e\<lparr>e_stmts := (\<lambda>st. if st \<in> snd ` set (cache c) then None else e_stmts e st),
     e_dbs := (e_dbs e)(rc_db c := None)\<rparr>"

definition without_files :: "string set \<Rightarrow> eng \<Rightarrow> eng" where
  "without_files ps e = e\<lparr>e_files := (\<lambda>p. if p \<in> ps then None else e_files e p)\<rparr>"

lemma without_conn_same_but:
  assumes "conn_ok e c d"
  shows "same_but (rc_db c) p e (without_conn c e)"
  using conn_ok_D [OF assms] unfolding same_but_def without_conn_def by (auto split: if_splits) fastforce

lemma conn_ok_without_files:
  "conn_ok e c d \<Longrightarrow> db_path d \<notin> ps \<Longrightarrow> conn_ok (without_files ps e) c d"
  by (simp add: conn_ok_def without_files_def)

lemma backend_ok_paths:
  assumes "backend_ok view up s" and "dir_of h s = Some dir" and "CONNS s rel = Some c"
  shows "\<exists>d. conn_ok (view (World s)) c d \<and> SQLITE_DIR s = Some dir \<and> db_path d = rel_path dir rel"
  using assms by (auto elim!: backend_ok_D simp: dir_of_def)

text \<open>Removing files that are none of a cached connection's keeps the connection table consistent.\<close>

lemma backend_ok_without_files:
  assumes ok: "backend_ok view up s" and dir: "dir_of h s = Some dir" and p: "\<And>rel c. CONNS s rel = Some c \<Longrightarrow> rel_path dir rel \<notin> ps"
    and w: "up w" "view w = without_files ps (view (World s))"
  shows "backend_ok view up (s\<lparr>World := w\<rparr>)"
proof -
  have "\<exists>d dir. conn_ok (view w) c d \<and> SQLITE_DIR s = Some dir \<and> db_path d = rel_path dir rel" if "CONNS s rel = Some c" for rel c
    using backend_ok_paths [OF ok dir that] conn_ok_without_files p [OF that] w(2) by metis
  moreover have "e_dbs (view w) = e_dbs (view (World s))" using w(2) by (simp add: without_files_def)
  ultimately show ?thesis using backend_ok_inj [OF ok] backend_ok_owner [OF ok] w(1) unfolding backend_ok_def by simp
qed

text \<open>The backend once the connection of \<open>rel\<close> is dropped.\<close>

definition forgotten :: "'w host \<Rightarrow> u32 \<Rightarrow> 'w backend \<Rightarrow> 'w backend" where
  "forgotten h rel s = s\<lparr>CONNS := (CONNS s)(rel := None),
     World := (case CONNS s rel of None \<Rightarrow> World s | Some c \<Rightarrow> drop_conn h c (World s)), TX_RELS := TX_RELS s - {rel}\<rparr>"

context sqlite_engine
begin

lemma finalize_all:
  "up w \<Longrightarrow> view (fold (sqlite3_finalize h) sts w) =
     (view w)\<lparr>e_stmts := (\<lambda>st. if st \<in> set sts then None else e_stmts (view w) st)\<rparr> \<and>
   up (fold (sqlite3_finalize h) sts w)"
proof (induction sts arbitrary: w)
  case (Cons st sts)
  from finalize_ok [OF Cons.prems, of st] Cons.IH [of "sqlite3_finalize h st w"] show ?case
    by (auto simp: fun_eq_iff)
qed simp

lemma drop_conn_spec:
  assumes "up w" and "\<And>st q. e_stmts (view w) st = Some q \<Longrightarrow> st_db q = rc_db c \<Longrightarrow> st \<in> snd ` set (cache c)"
  shows "view (drop_conn h c w) = without_conn c (view w) \<and> up (drop_conn h c w)"
proof -
  let ?w = "fold (sqlite3_finalize h) (stmt_iter h (map snd (cache c))) w"
  have f: "view ?w = (view w)\<lparr>e_stmts := (\<lambda>st. if st \<in> snd ` set (cache c) then None else e_stmts (view w) st)\<rparr>" "up ?w"
    using finalize_all [OF assms(1), of "stmt_iter h (map snd (cache c))"] stmt_iter_ok by simp_all
  have "st_db q \<noteq> rc_db c" if "e_stmts (view ?w) st = Some q" for st q
    using that assms(2) by (auto simp: f split: if_splits)
  from close_ok [OF f(2) this] f show ?thesis by (simp add: drop_conn_def without_conn_def)
qed

lemma remove_all:
  assumes "up w" and "\<And>db d. e_dbs (view w) db = Some d \<Longrightarrow> db_path d \<notin> {p, q, r}"
  shows "view (fs_remove_file h r (fs_remove_file h q (fs_remove_file h p w))) = without_files {p, q, r} (view w) \<and>
    up (fs_remove_file h r (fs_remove_file h q (fs_remove_file h p w)))"
proof -
  have 1: "view (fs_remove_file h p w) = (view w)\<lparr>e_files := (e_files (view w))(p := None)\<rparr>" "up (fs_remove_file h p w)"
    using remove_ok [OF assms(1), of p] assms(2) by auto
  let ?w = "fs_remove_file h p w"
  have 2: "view (fs_remove_file h q ?w) = (view ?w)\<lparr>e_files := (e_files (view ?w))(q := None)\<rparr>" "up (fs_remove_file h q ?w)"
    using remove_ok [OF 1(2), of q] assms(2) by (auto simp: 1(1))
  let ?v = "fs_remove_file h q ?w"
  have 3: "view (fs_remove_file h r ?v) = (view ?v)\<lparr>e_files := (e_files (view ?v))(r := None)\<rparr>" "up (fs_remove_file h r ?v)"
    using remove_ok [OF 2(2), of r] assms(2) by (auto simp: 1(1) 2(1))
  then show ?thesis by (simp add: 1(1) 2(1) without_files_def fun_eq_iff)
qed

lemma forgotten_spec:
  assumes ok: "backend_ok view up s" and dir: "dir_of h s = Some dir"
  shows "backend_ok view up (forgotten h rel s)" and "rel' \<noteq> rel \<Longrightarrow> rel_db view (forgotten h rel s) rel' = rel_db view s rel'"
    and "e_files (view (World (forgotten h rel s))) = e_files (view (World s))"
    and "e_dbs (view (World (forgotten h rel s))) db = Some d \<Longrightarrow> \<exists>r. r \<noteq> rel \<and> CONNS s r \<noteq> None \<and> db_path d = rel_path dir r"
proof -
  let ?s = "forgotten h rel s" and ?e = "view (World s)"
  have v: "view (World ?s) = (case CONNS s rel of None \<Rightarrow> ?e | Some c \<Rightarrow> without_conn c ?e) \<and> up (World ?s)"
    using drop_conn_spec [OF backend_ok_up [OF ok]] backend_ok_paths [OF ok dir] conn_ok_cached backend_ok_up [OF ok]
    by (fastforce simp: forgotten_def split: option.splits)
  have other: "rc_db c' \<noteq> rc_db c" if "CONNS s r = Some c'" "CONNS s rel = Some c" "r \<noteq> rel" for r c c'
    using backend_ok_inj [OF ok that(1,2)] that(3) by blast
  have keep: "conn_ok (view (World ?s)) c' d'" if "CONNS s r = Some c'" "r \<noteq> rel" "conn_ok ?e c' d'" "db_path d' = rel_path dir r" for r c' d'
  proof (cases "CONNS s rel")
    case (Some c)
    then obtain d where d: "conn_ok ?e c d" "db_path d = rel_path dir rel" using backend_ok_paths [OF ok dir Some] by auto
    from conn_ok_same_but [OF that(3) without_conn_same_but [OF d(1), of "db_path d"] other [OF that(1) Some that(2)]]
    show ?thesis using v Some that(2,4) d(2) by (simp add: rel_path_inj)
  qed (use v that in simp)
  have "\<exists>d dir. conn_ok (view (World ?s)) c' d \<and> SQLITE_DIR s = Some dir \<and> db_path d = rel_path dir r"
    if "CONNS s r = Some c'" "r \<noteq> rel" for r c'
    using backend_ok_paths [OF ok dir that(1)] keep [OF that] by auto
  moreover have own: "\<exists>r c. r \<noteq> rel \<and> CONNS s r = Some c \<and> rc_db c = db'" if db: "e_dbs (view (World ?s)) db' = Some d'" for db' d'
  proof -
    have "e_dbs ?e db' = Some d'" "\<And>c. CONNS s rel = Some c \<Longrightarrow> rc_db c \<noteq> db'"
      using db v by (auto simp: without_conn_def split: option.splits if_splits)
    with backend_ok_owner [OF ok, of db' d'] show ?thesis by metis
  qed
  ultimately show "backend_ok view up ?s"
    using v own unfolding backend_ok_def by (simp add: forgotten_def) (use backend_ok_inj [OF ok] in blast)
  show "rel_db view ?s rel' = rel_db view s rel'" if "rel' \<noteq> rel"
    using v other that by (auto simp: rel_db_def forgotten_def without_conn_def split: option.splits)
  show "e_files (view (World ?s)) = e_files ?e" using v by (simp add: without_conn_def split: option.splits)
  show "\<exists>r. r \<noteq> rel \<and> CONNS s r \<noteq> None \<and> db_path d = rel_path dir r" if db: "e_dbs (view (World ?s)) db = Some d"
  proof -
    from own [OF db] obtain r c where r: "r \<noteq> rel" "CONNS s r = Some c" "rc_db c = db" by blast
    have e: "e_dbs ?e db = Some d" using db v by (auto simp: without_conn_def split: option.splits if_splits)
    from backend_ok_paths [OF ok dir r(2)] obtain d' where "conn_ok ?e c d'" "db_path d' = rel_path dir r" by auto
    with r e show ?thesis by (intro exI [of _ r]) (auto simp: conn_ok_def)
  qed
qed

lemma unlink_spec:
  fixes rel
  assumes ok: "backend_ok view up s" and dir: "dir_of h s = Some dir"
  defines "p \<equiv> rel_path dir rel"
  shows "wp (unlink_storage h rel) (\<lambda>_ s'. backend_ok view up s' \<and> CONNS s' = (CONNS s)(rel := None) \<and>
    TX_RELS s' = TX_RELS s - {rel} \<and> HOOKS s' = HOOKS s \<and>
    (\<forall>rel'. rel' \<noteq> rel \<longrightarrow> rel_db view s' rel' = rel_db view s rel') \<and>
    e_files (view (World s')) = (\<lambda>q. if q \<in> {p, with_extension p ''sqlite-wal'', with_extension p ''sqlite-shm''}
      then None else e_files (view (World s)) q)) s"
proof -
  let ?s = "forgotten h rel s" and ?ps = "{p, with_extension p ''sqlite-wal'', with_extension p ''sqlite-shm''}"
  note F = forgotten_spec [OF ok dir, where rel = rel]
  have un: "unlink_storage h rel s = bindE (path_for h rel) (\<lambda>base.
     seqE (hostWB (fs_remove_file h base))
    (seqE (hostWB (fs_remove_file h (with_extension base ''sqlite-wal'')))
          (hostWB (fs_remove_file h (with_extension base ''sqlite-shm''))))) ?s"
    by (cases "CONNS s rel")
      (simp_all add: unlink_storage_def bindE_def seqE_def getE_def modE_def ret_def forgotten_def fun_upd_idem)
  have dir': "dir_of h ?s = Some dir" using dir by (simp add: dir_of_def forgotten_def)
  have "wp (bindE (path_for h rel) (\<lambda>base. seqE (hostWB (fs_remove_file h base))
    (seqE (hostWB (fs_remove_file h (with_extension base ''sqlite-wal'')))
          (hostWB (fs_remove_file h (with_extension base ''sqlite-shm'')))))) (\<lambda>_ s'. backend_ok view up s' \<and>
      CONNS s' = (CONNS s)(rel := None) \<and> TX_RELS s' = TX_RELS s - {rel} \<and> HOOKS s' = HOOKS s \<and>
      (\<forall>rel'. rel' \<noteq> rel \<longrightarrow> rel_db view s' rel' = rel_db view s rel') \<and>
      e_files (view (World s')) = (\<lambda>q. if q \<in> ?ps then None else e_files (view (World s)) q)) ?s"
    unfolding path_for_def bindE_assoc bindE_ret
  proof (rule wpB [OF with_dir_spec [OF F(1) dir']], elim conjE, simp only: rel_path_def [symmetric] p_def [symmetric])
    fix s1 assume s1: "backend_ok view up s1" "view (World s1) = view (World ?s)" "SQLITE_DIR s1 = Some dir"
      "CONNS s1 = CONNS ?s" "TX_RELS s1 = TX_RELS ?s" "HOOKS s1 = HOOKS ?s"
    let ?w = "fs_remove_file h (with_extension p ''sqlite-shm'') (fs_remove_file h (with_extension p ''sqlite-wal'')
      (fs_remove_file h p (World s1)))"
    have "db_path d \<notin> ?ps" if "e_dbs (view (World s1)) db = Some d" for db d
      using F(4) [of db d] that s1(2) side_files_distinct rel_path_inj by (auto simp: p_def)
    from remove_all [OF backend_ok_up [OF s1(1)] this] have w: "view ?w = without_files ?ps (view (World s1))" "up ?w" by auto
    have np: "rel_path dir r \<notin> ?ps" if "CONNS s1 r = Some c" for r c
      using that s1(4) side_files_distinct [of dir rel r] by (auto simp: p_def rel_path_inj forgotten_def)
    have d1: "dir_of h s1 = Some dir" using s1(3) by (simp add: dir_of_def)
    have "backend_ok view up (s1\<lparr>World := ?w\<rparr>)" by (rule backend_ok_without_files [OF s1(1) d1 np w(2,1)])
    moreover have "rel_db view (s1\<lparr>World := ?w\<rparr>) rel' = rel_db view ?s rel'" for rel'
      using s1(2,4) w(1) by (auto simp: rel_db_def without_files_def split: option.splits)
    ultimately show "wp (seqE (hostWB (fs_remove_file h p)) (seqE (hostWB (fs_remove_file h (with_extension p ''sqlite-wal'')))
          (hostWB (fs_remove_file h (with_extension p ''sqlite-shm''))))) (\<lambda>_ s'. backend_ok view up s' \<and>
      CONNS s' = (CONNS s)(rel := None) \<and> TX_RELS s' = TX_RELS s - {rel} \<and> HOOKS s' = HOOKS s \<and>
      (\<forall>rel'. rel' \<noteq> rel \<longrightarrow> rel_db view s' rel' = rel_db view s rel') \<and>
      e_files (view (World s')) = (\<lambda>q. if q \<in> ?ps then None else e_files (view (World s)) q)) s1"
      using F(2,3) s1 w(1) by (simp add: hostWB_def wp_rules forgotten_def without_files_def fun_eq_iff)
  qed
  then show ?thesis unfolding wp_def un .
qed

end

end
