(* ===== verification/Row_Walks.thy ===== *)
theory Row_Walks
  imports Drop_Storage
begin

text \<open>
  The walks over all rows of a relation that maintenance makes (\<open>src/tam.rs\<close>): the sample of
  \<open>ANALYZE\<close>, the scan of an index build, and the listing of the storage directory
  (\<open>src/sqlite.rs\<close>).
\<close>

definition unstamped :: "srow list \<Rightarrow> srow list" where
  "unstamped rs = filter (\<lambda>r. rw_xmax r = 0) rs"

lemma unstamped_rows:
  assumes "rows_ok rs"
  shows "filter (\<lambda>r. xmax (header r) = 0) (map row_of rs) = map row_of (unstamped rs)"
  unfolding unstamped_def filter_map o_def by (rule arg_cong [of _ _ "map row_of"], rule filter_cong) (simp_all add: xmax_row_of [OF assms])

section \<open>Analyze\<close>

text \<open>
  \<open>ANALYZE\<close> calls the next-tuple callback until it answers \<open>False\<close>, with the counters it keeps.
  The result: the tuples, whether the end was reached, and the counters.
\<close>

fun analyze_drain ::
    "'w host \<Rightarrow> 'b slot_api \<Rightarrow> nat \<Rightarrow> 'i SqliteScanState \<Rightarrow> nat \<Rightarrow> nat \<Rightarrow> 'b slot \<Rightarrow>
      ('w backend, HeapTupleData list \<times> bool \<times> nat \<times> nat) prog" where
  "analyze_drain h x 0 scan live dead sl = ret ([], False, live, dead)"
| "analyze_drain h x (Suc n) scan live dead sl =
     bindE (scan_analyze_next_tuple h x scan live dead sl) (\<lambda>(hit, scan', l, d, sl').
       if hit
       then bindE (analyze_drain h x n scan' l d sl') (\<lambda>(ts, fin, l', d').
              ret (ExecCopySlotHeapTuple x sl' # ts, fin, l', d'))
       else ret ([], True, l, d))"

lemma analyze_loop_end: "analyze_loop rs p l d = (hit, p', l', d') \<Longrightarrow> p' \<le> max p (length rs)"
proof (induction rs p l d rule: analyze_loop.induct)
  case (1 rs p l d)
  show ?case
  proof (cases "p < length rs \<and> xmax (header (rs ! p)) \<noteq> 0")
    case True
    with 1(2) have "analyze_loop rs (p + 1) l (d + 1) = (hit, p', l', d')"
      by (subst (asm) analyze_loop.simps) (simp add: Let_def)
    with 1(1) [OF _ refl] True show ?thesis by simp
  next
    case False
    then show ?thesis using 1(2) by (subst (asm) analyze_loop.simps) (auto simp: Let_def split: if_splits)
  qed
qed

lemma analyze_drain_spec:
  assumes "engine_at h view up s" and "source_rows h view s (rs_rd scan) (cursor scan) all" and "slot_laws x"
    and "pos (cursor scan) \<le> length all"
    and "length (filter (\<lambda>r. xmax (header r) = 0) (drop (pos (cursor scan)) all)) < n"
  shows "wp (analyze_drain h x n scan live dead sl) (\<lambda>(ts, fin, live', dead') s'. fin \<and>
    ts = map (stored_tuple (rs_rd scan)) (filter (\<lambda>r. xmax (header r) = 0) (drop (pos (cursor scan)) all)) \<and>
    live' = live + length (filter (\<lambda>r. xmax (header r) = 0) (drop (pos (cursor scan)) all)) \<and>
    live' + dead' = live + dead + (length all - pos (cursor scan))) s"
  using assms(1,2,4,5)
proof (induction n arbitrary: scan live dead sl s)
  case (Suc n)
  let ?c = "(cursor scan)\<lparr>rows := all, rows_loaded := True\<rparr>" and ?p = "pos (cursor scan)"
  obtain hit p' l' d' where loop: "analyze_loop all ?p live dead = (hit, p', l', d')" by (metis prod_cases4)
  note L = analyze_loop_spec [OF loop] and le = analyze_loop_end [OF loop]
  show ?case
    unfolding analyze_drain.simps scan_analyze_next_tuple_def bindE_assoc
  proof (rule wpB [OF ensure_rows_loaded_spec [OF Suc.prems(1,2)]], elim conjE)
    fix c s1 assume c: "c = ?c" and e: "engine_at h view up s1"
    show "wp (bindE (case analyze_loop (rows c) (pos c) live dead of (hit, p, live, dead) \<Rightarrow>
           (let scan' = scan\<lparr>cursor := c\<lparr>pos := p\<rparr>\<rparr>
            in case hit of Some row \<Rightarrow> ret (True, scan', live, dead, store_row x (rs_rd scan) row sl)
               | None \<Rightarrow> ret (False, scan', live, dead, sl))) (\<lambda>(hit, scan', l, d, sl').
       if hit then bindE (analyze_drain h x n scan' l d sl') (\<lambda>(ts, fin, l', d').
              ret (ExecCopySlotHeapTuple x sl' # ts, fin, l', d')) else ret ([], True, l, d)))
      (\<lambda>(ts, fin, live', dead') s'. fin \<and>
        ts = map (stored_tuple (rs_rd scan)) (filter (\<lambda>r. xmax (header r) = 0) (drop ?p all)) \<and>
        live' = live + length (filter (\<lambda>r. xmax (header r) = 0) (drop ?p all)) \<and>
        live' + dead' = live + dead + (length all - ?p)) s1"
    proof (cases hit)
      case None
      with L le Suc.prems(3) show ?thesis by (auto simp: c loop wp_ret)
    next
      case (Some r)
      let ?scan = "scan\<lparr>cursor := ?c\<lparr>pos := p'\<rparr>\<rparr>"
      have src: "source_rows h view s1 (rs_rd ?scan) (cursor ?scan) all" by (simp add: source_rows_def)
      have tup: "ExecCopySlotHeapTuple x (store_row x (rs_rd scan) r sl) = stored_tuple (rs_rd scan) r"
        using assms(3) by (simp add: store_row_def stored_tuple_def slot_laws_def)
      have f: "filter (\<lambda>r. xmax (header r) = 0) (drop ?p all) = r # filter (\<lambda>r. xmax (header r) = 0) (drop p' all)"
        using L Some by simp
      show ?thesis
        using Suc.IH [OF e src, of l' d' "store_row x (rs_rd scan) r sl"] Suc.prems(4) L Some f tup
        by (simp add: c loop) (auto intro!: wpB simp: wp_ret)
    qed
  qed
qed simp

section \<open>Index build\<close>

text \<open>\<open>key\<close> is what \<open>FormIndexDatum\<close> makes of the tuple in a slot.\<close>

lemma build_index_loop_spec:
  assumes "slot_laws x" and "form = (\<lambda>sl. key (ExecCopySlotHeapTuple x sl))"
  shows "build_index_loop x form cb rel all sl cs n =
    (n + length (filter (\<lambda>r. xmax (header r) = 0) all),
     fold (\<lambda>r. cb (rowid_to_tid (rowid (header r))) (key (stored_tuple rel r))) (filter (\<lambda>r. xmax (header r) = 0) all) cs)"
proof (induction all arbitrary: sl cs n)
  case (Cons r all)
  have "form (store_row x rel r sl) = key (stored_tuple rel r)"
    using assms by (simp add: store_row_def stored_tuple_def slot_laws_def)
  with Cons show ?case by (simp add: Let_def)
qed simp

section \<open>The storage directory\<close>

lemma list_entry_rel:
  "list_entry h dir w (show_u32 k @ ''.sqlite'') =
    [(k, case fs_metadata_len h (rel_path dir k) w of Some n \<Rightarrow> n | None \<Rightarrow> 0)]"
proof -
  have c: "CHR ''.'' \<notin> set (show_u32 k)" "show_u32 k \<noteq> []"
    using show_nat_clean(2) [of "unat k"] show_nat_not_Nil by (auto simp: show_u32_def)
  from split_ext_sqlite [OF c(1) _ c(2), of "''sqlite''"]
  show ?thesis by (simp add: list_entry_def extension_def file_stem_def parse_u32_show rel_path_def)
qed

lemma list_entry_other:
  assumes "extension name \<noteq> Some ''sqlite'' \<or> parse_u32 (file_stem name) = None"
  shows "list_entry h dir w name = []"
  using assms by (auto simp: list_entry_def)

lemma sorted_fst:
  fixes xs :: "('a :: linorder \<times> 'b :: linorder) list"
  assumes "sorted xs" shows "sorted (map fst xs)"
  using assms by (induction xs) (auto simp: less_eq_prod_def)

section \<open>Cancelled insertions\<close>

lemma delete_inserted: "rows_delete (next_rowid rs) (rows_insert x c b rs) = rs"
proof -
  have "rw_id r < next_rowid rs" if "r \<in> set rs" for r
    using that Max_ge [of "rw_id ` set rs" "rw_id r"] by (auto simp: next_rowid_def)
  then have "\<forall>r \<in> set rs. rw_id r \<noteq> next_rowid rs" by (metis less_irrefl)
  then show ?thesis by (simp add: rows_delete_def rows_insert_def filter_id_conv)
qed

end
