(* ===== verification/Bitmap_Scan.thy ===== *)
theory Bitmap_Scan
  imports Scan
begin

text \<open>
  The bitmap scan (\<open>scan_bitmap_next_tuple\<close> of \<open>src/tam.rs\<close>) as a row source: it hands out the
  visible rows of the pages that Postgres's bitmap iterator yields, page by page, and ends when
  the iterator does.
\<close>

section \<open>What an iterator has still to yield\<close>

primrec tbm_yields :: "('i, 'p) tbm_api \<Rightarrow> 'i \<Rightarrow> 'p TBMIterateResult list \<Rightarrow> bool" where
  "tbm_yields tbm it [] = (fst (tbm_iterate tbm it) = None)"
| "tbm_yields tbm it (p # ps) =
     (fst (tbm_iterate tbm it) = Some p \<and> tbm_yields tbm (snd (tbm_iterate tbm it)) ps)"

text \<open>An exact page has at most as many offsets as the buffer, and all of them are extracted.\<close>

definition page_fits :: "('i, 'p) tbm_api \<Rightarrow> 'p TBMIterateResult \<Rightarrow> bool" where
  "page_fits tbm p \<longleftrightarrow> tbm_lossy p \<or>
     (case tbm_extract_page_tuple tbm p MAX_OFFSETS of (offs, n) \<Rightarrow> n = length offs)"

definition offset_row :: "srow list \<Rightarrow> u32 \<Rightarrow> u16 \<Rightarrow> srow option" where
  "offset_row rs blk off = find_row (tid_to_rowid \<lparr>ip_blkid = blk, ip_posid = off\<rparr>) rs"

definition in_block :: "u32 \<Rightarrow> srow \<Rightarrow> bool" where
  "in_block blk r \<longleftrightarrow> ip_blkid (rowid_to_tid (rw_id r)) = blk"

definition page_rows :: "('i, 'p) tbm_api \<Rightarrow> srow list \<Rightarrow> 'p TBMIterateResult \<Rightarrow> srow list" where
  "page_rows tbm rs p =
     (if tbm_lossy p then filter (in_block (tbm_blockno p)) rs
      else List.map_filter (offset_row rs (tbm_blockno p)) (fst (tbm_extract_page_tuple tbm p MAX_OFFSETS)))"

definition bitmap_kept :: "pg_xact \<Rightarrow> Snapshot \<Rightarrow> srow list \<Rightarrow> srow list" where
  "bitmap_kept pg snap = filter (\<lambda>r. sees_row pg snap (row_of r))"

lemma offset_row_of_block:
  assumes ok: "rows_ok rs" and r: "r \<in> set rs" and le: "rw_id r \<le> 2 ^ 40"
  shows "offset_row rs (ip_blkid (rowid_to_tid (rw_id r))) (ip_posid (rowid_to_tid (rw_id r))) = Some r"
proof -
  have "rowid_ok (rw_id r)" using ok r le by (simp add: rowid_ok_def rows_ok_def)
  then have "tid_to_rowid \<lparr>ip_blkid = ip_blkid (rowid_to_tid (rw_id r)), ip_posid = ip_posid (rowid_to_tid (rw_id r))\<rparr> = rw_id r"
    using tid_to_rowid_to_tid [of "rw_id r"] by (simp add: tid_to_rowid_eq)
  with rows_ok_find [OF ok r] show ?thesis by (simp add: offset_row_def)
qed

text \<open>A lossy page: its offsets lead back to exactly the rows of the block.\<close>

lemma block_offsets_rows:
  assumes "rows_ok rs" and "\<forall>r \<in> set rs. rw_id r \<le> 2 ^ 40"
  shows "List.map_filter (offset_row rs blk) (block_offsets blk (map row_of rs)) = filter (in_block blk) rs"
proof -
  have "List.map_filter (offset_row rs blk) (block_offsets blk (map row_of qs)) = filter (in_block blk) qs"
    if "set qs \<subseteq> set rs" for qs
    using that
    by (induction qs)
      (use assms(2) in \<open>auto simp: block_offsets_def List.map_filter_simps in_block_def offset_row_of_block [OF assms(1)]\<close>)
  then show ?thesis by simp
qed

section \<open>Draining a page\<close>

definition left_on_page :: "srow list \<Rightarrow> SqliteCursor \<Rightarrow> srow list" where
  "left_on_page rs c = List.map_filter (offset_row rs (bitmap_blockno c)) (drop (bitmap_offset_pos c) (bitmap_offsets c))"

lemma holds_fetch_slot:
  assumes "holds h view up s rel t" and "slot_laws x" and "read_only snap"
  shows "wp (fetch_one_into_slot h pg x rel rid snap sl) (\<lambda>(hit, snap', sl') s'. holds h view up s' rel t \<and> snap' = snap \<and>
    (case find_row rid (storage t) of
       Some r \<Rightarrow> hit = sees_row pg snap (row_of r) \<and> (hit \<longrightarrow> ExecCopySlotHeapTuple x sl' = stored_tuple rel (row_of r))
     | None \<Rightarrow> \<not> hit)) s"
  unfolding fetch_one_into_slot_def
  by (rule wp_mono [OF holds_fetch [OF assms(1)]])
    (use assms(2,3) in \<open>auto simp: row_visible_read_only store_parts_def stored_tuple_def slot_laws_def split: option.splits\<close>)

lemma bitmap_drain_spec:
  assumes "holds h view up s rel t" and "slot_laws x" and "read_only snap"
    and "offs = drop (bitmap_offset_pos c) (bitmap_offsets c)"
  shows "wp (bitmap_drain h pg x rel offs c snap sl) (\<lambda>(hit, c', snap', sl') s'. holds h view up s' rel t \<and> snap' = snap \<and>
    c' = c\<lparr>bitmap_offset_pos := bitmap_offset_pos c'\<rparr> \<and>
    (case bitmap_kept pg snap (left_on_page (storage t) c) of
       [] \<Rightarrow> \<not> hit
     | r # rs \<Rightarrow> hit \<and> ExecCopySlotHeapTuple x sl' = stored_tuple rel (row_of r) \<and>
         bitmap_kept pg snap (left_on_page (storage t) c') = rs)) s"
  using assms(1,4)
proof (induction offs arbitrary: c sl s)
  case Nil
  then show ?case by (simp add: wp_ret left_on_page_def List.map_filter_simps bitmap_kept_def)
next
  case (Cons off offs)
  let ?blk = "bitmap_blockno c" and ?c = "c\<lparr>bitmap_offset_pos := bitmap_offset_pos c + 1\<rparr>"
  have d: "offs = drop (bitmap_offset_pos ?c) (bitmap_offsets ?c)"
    using arg_cong [OF Cons.prems(2), of tl] by (simp add: drop_Suc tl_drop)
  have left: "left_on_page (storage t) c =
      (case offset_row (storage t) ?blk off of None \<Rightarrow> [] | Some r \<Rightarrow> [r]) @ left_on_page (storage t) ?c"
    unfolding left_on_page_def d [symmetric] Cons.prems(2) [symmetric]
    by (simp add: List.map_filter_simps split: option.splits)
  show ?case
    unfolding bitmap_drain.simps Let_def
  proof (rule wpB [OF holds_fetch_slot [OF Cons.prems(1) assms(2,3)]], clarify)
    fix hit snap' sl' s'
    assume H: "holds h view up s' rel t"
    assume "case find_row (tid_to_rowid \<lparr>ip_blkid = ?blk, ip_posid = off\<rparr>) (storage t) of
        None \<Rightarrow> \<not> hit | Some r \<Rightarrow> hit = sees_row pg snap (row_of r) \<and>
          (hit \<longrightarrow> ExecCopySlotHeapTuple x sl' = stored_tuple rel (row_of r))"
    then have v: "case offset_row (storage t) ?blk off of None \<Rightarrow> \<not> hit | Some r \<Rightarrow> hit = sees_row pg snap (row_of r) \<and>
          (hit \<longrightarrow> ExecCopySlotHeapTuple x sl' = stored_tuple rel (row_of r))" by (simp only: offset_row_def)
    show "wp (if hit then ret (True, ?c, snap, sl') else bitmap_drain h pg x rel offs ?c snap sl')
        (\<lambda>(hit, c', snap', sl') s'. holds h view up s' rel t \<and> snap' = snap \<and>
          c' = c\<lparr>bitmap_offset_pos := bitmap_offset_pos c'\<rparr> \<and>
          (case bitmap_kept pg snap (left_on_page (storage t) c) of [] \<Rightarrow> \<not> hit
           | r # rs \<Rightarrow> hit \<and> ExecCopySlotHeapTuple x sl' = stored_tuple rel (row_of r) \<and>
               bitmap_kept pg snap (left_on_page (storage t) c') = rs)) s'"
    proof (cases hit)
      case True
      with v obtain r where "offset_row (storage t) ?blk off = Some r" "sees_row pg snap (row_of r)"
        "ExecCopySlotHeapTuple x sl' = stored_tuple rel (row_of r)" by (auto split: option.splits)
      with True H show ?thesis by (simp add: wp_ret left bitmap_kept_def)
    next
      case False
      with v have "bitmap_kept pg snap (left_on_page (storage t) c) = bitmap_kept pg snap (left_on_page (storage t) ?c)"
        by (auto simp: left bitmap_kept_def split: option.splits)
      with False Cons.IH [OF H d, of sl'] show ?thesis by simp
    qed
  qed
qed

section \<open>Loading a page\<close>

definition cursor_of :: "tables \<Rightarrow> SqliteCursor \<Rightarrow> bool" where
  "cursor_of t c \<longleftrightarrow> (rows_loaded c \<longrightarrow> rows c = map row_of (storage t))"

lemma holds_rows_loaded:
  assumes "holds h view up s rel t" and "cursor_of t c"
  shows "wp (ensure_rows_loaded h rel c) (\<lambda>c' s'. holds h view up s' rel t \<and>
    c' = c\<lparr>rows := map row_of (storage t), rows_loaded := True\<rparr>) s"
proof (cases "rows_loaded c")
  case True
  then show ?thesis using assms by (simp add: ensure_rows_loaded_def wp_ret cursor_of_def)
next
  case False
  then show ?thesis
    unfolding ensure_rows_loaded_def
    by (simp, intro wpB [OF holds_select_all [OF assms(1)]]) (auto simp: wp_ret)
qed

lemma take_extracted: "n = length offs \<Longrightarrow> take n (offs @ xs) = offs"
  by simp

lemma bitmap_load_page_spec:
  assumes "holds h view up s rel t" and "cursor_of t c" and "page_fits tbm p" and "\<forall>r \<in> set (storage t). rw_id r \<le> 2 ^ 40"
  shows "wp (bitmap_load_page h tbm rel p c) (\<lambda>c' s'. holds h view up s' rel t \<and> cursor_of t c' \<and>
    left_on_page (storage t) c' = page_rows tbm (storage t) p) s"
proof (cases "tbm_lossy p")
  case True
  have ok: "rows_ok (storage t)" using assms(1) by (simp add: holds_def)
  have "cursor_of t (c\<lparr>bitmap_blockno := tbm_blockno p\<rparr>)" using assms(2) by (simp add: cursor_of_def)
  from holds_rows_loaded [OF assms(1) this] show ?thesis
    unfolding bitmap_load_page_def Let_def if_P [OF True]
    by (rule wpB) (use True block_offsets_rows [OF ok assms(4)] in
        \<open>simp add: wp_ret cursor_of_def left_on_page_def page_rows_def\<close>)
next
  case False
  then show ?thesis
    using assms by (cases "tbm_extract_page_tuple tbm p MAX_OFFSETS")
      (simp add: bitmap_load_page_def page_fits_def Let_def wp_ret cursor_of_def left_on_page_def page_rows_def)
qed

section \<open>The loop\<close>

text \<open>The part of a round after the current page is drained.\<close>

definition bitmap_turn ::
    "'w host \<Rightarrow> pg_xact \<Rightarrow> 'b slot_api \<Rightarrow> ('i, 'p) tbm_api \<Rightarrow> 'i SqliteScanState \<Rightarrow> 'b slot \<Rightarrow> bitmap_out \<Rightarrow>
      ('w backend, bool \<times> ('i, 'b) bitmap_state) prog" where
  "bitmap_turn h pg x tbm scan sl out =
     (case tbm_iterate tbm (rs_tbmiterator scan) of
        (None, it) \<Rightarrow> ret (False, scan\<lparr>rs_tbmiterator := it\<rparr>, sl, out)
      | (Some result, it) \<Rightarrow>
          bindE (bitmap_load_page h tbm (rs_rd scan) result (cursor scan)) (\<lambda>c2.
            bitmap_loop h pg x tbm (scan\<lparr>cursor := c2, rs_tbmiterator := it\<rparr>, sl,
              if tbm_lossy result
              then out\<lparr>out_recheck := tbm_recheck result, out_lossy_pages := out_lossy_pages out + 1\<rparr>
              else out\<lparr>out_recheck := tbm_recheck result, out_exact_pages := out_exact_pages out + 1\<rparr>)))"

lemma bitmap_loop_unfold:
  "bitmap_loop h pg x tbm (scan, sl, out) =
     bindE (bitmap_drain h pg x (rs_rd scan) (drop (bitmap_offset_pos (cursor scan)) (bitmap_offsets (cursor scan)))
         (cursor scan) (rs_snapshot scan) sl) (\<lambda>(hit, c1, snap, sl1).
       let scan1 = scan\<lparr>cursor := c1, rs_snapshot := snap\<rparr>
       in if hit then ret (True, scan1, sl1, out) else bitmap_turn h pg x tbm scan1 sl1 out)"
  by (rule ext, subst bitmap_loop.simps)
    (auto simp: bitmap_turn_def bindE_def ret_def Let_def split: option.splits res.splits prod.splits)

definition bitmap_next where
  "bitmap_next h pg x tbm st = (case st of (scan, sl, out) \<Rightarrow> scan_bitmap_next_tuple h pg x tbm scan sl out)"

definition bitmap_tuple :: "'b slot_api \<Rightarrow> ('i, 'b) bitmap_state \<Rightarrow> HeapTupleData" where
  "bitmap_tuple x st = ExecCopySlotHeapTuple x (fst (snd st))"

text \<open>\<open>rs\<close> are the rows that the scan has still to hand out.\<close>

definition bitmap_pending ::
    "'w host \<Rightarrow> ('w \<Rightarrow> eng) \<Rightarrow> ('w \<Rightarrow> bool) \<Rightarrow> pg_xact \<Rightarrow> 'b slot_api \<Rightarrow> ('i, 'p) tbm_api \<Rightarrow> u32 \<Rightarrow>
      ('i, 'b) bitmap_state \<Rightarrow> srow list \<Rightarrow> 'w backend \<Rightarrow> bool" where
  "bitmap_pending h view up pg x tbm rel st rs s \<longleftrightarrow>
     (case st of (scan, sl, out) \<Rightarrow> slot_laws x \<and> read_only (rs_snapshot scan) \<and> rs_rd scan = rel \<and>
       (\<exists>t ps. holds h view up s rel t \<and> cursor_of t (cursor scan) \<and> (\<forall>r \<in> set (storage t). rw_id r \<le> 2 ^ 40) \<and>
          tbm_yields tbm (rs_tbmiterator scan) ps \<and> (\<forall>p \<in> set ps. page_fits tbm p) \<and>
          rs = bitmap_kept pg (rs_snapshot scan)
                 (left_on_page (storage t) (cursor scan) @ concat (map (page_rows tbm (storage t)) ps))))"

text \<open>One round of the loop; \<open>after\<close> is what remains after the current page.\<close>

lemma bitmap_round:
  assumes "slot_laws x" and "read_only (rs_snapshot scan)" and "rs_rd scan = rel" and "holds h view up s rel t"
    and "cursor_of t (cursor scan)" and "\<forall>r \<in> set (storage t). rw_id r \<le> 2 ^ 40"
    and "tbm_yields tbm (rs_tbmiterator scan) ps" and "\<forall>p \<in> set ps. page_fits tbm p"
    and rs: "rs = bitmap_kept pg (rs_snapshot scan) (left_on_page (storage t) (cursor scan) @ concat (map (page_rows tbm (storage t)) ps))"
    and nomore: "\<And>scan' sl' s'. bitmap_kept pg (rs_snapshot scan) (left_on_page (storage t) (cursor scan)) = [] \<Longrightarrow>
      holds h view up s' rel t \<Longrightarrow> cursor_of t (cursor scan') \<Longrightarrow> scan' = scan\<lparr>cursor := cursor scan'\<rparr> \<Longrightarrow>
      wp (bitmap_turn h pg x tbm scan' sl' out) Q s'"
    and hit: "\<And>r rs' st' s'. rs = r # rs' \<Longrightarrow> bitmap_tuple x st' = stored_tuple rel (row_of r) \<Longrightarrow>
      bitmap_pending h view up pg x tbm rel st' rs' s' \<Longrightarrow> Q (True, st') s'"
  shows "wp (bitmap_loop h pg x tbm (scan, sl, out)) Q s"
proof (subst bitmap_loop_unfold, unfold assms(3), rule wpB [OF bitmap_drain_spec [OF assms(4,1,2) refl]], clarify)
  let ?snap = "rs_snapshot scan" let ?left = "bitmap_kept pg ?snap (left_on_page (storage t) (cursor scan))"
  fix hit c1 snap' sl1 s1
  assume H: "holds h view up s1 rel t" and c1: "c1 = (cursor scan)\<lparr>bitmap_offset_pos := bitmap_offset_pos c1\<rparr>"
    and d: "case ?left of [] \<Rightarrow> \<not> hit | r # rs \<Rightarrow> hit \<and> ExecCopySlotHeapTuple x sl1 = stored_tuple rel (row_of r) \<and>
      bitmap_kept pg ?snap (left_on_page (storage t) c1) = rs"
  have co: "cursor_of t c1" using assms(5) by (subst c1) (simp add: cursor_of_def)
  show "wp (let scan1 = scan\<lparr>cursor := c1, rs_snapshot := ?snap\<rparr>
       in if hit then ret (True, scan1, sl1, out) else bitmap_turn h pg x tbm scan1 sl1 out) Q s1"
  proof (cases ?left)
    case Nil
    with d have "\<not> hit" by simp
    with nomore [OF Nil H, of "scan\<lparr>cursor := c1\<rparr>" sl1] co show ?thesis by (simp add: Let_def)
  next
    case (Cons r rs')
    let ?rest = "concat (map (page_rows tbm (storage t)) ps)"
    have "rs = r # rs' @ bitmap_kept pg ?snap ?rest" using Cons rs by (simp add: bitmap_kept_def)
    moreover have "bitmap_pending h view up pg x tbm rel (scan\<lparr>cursor := c1, rs_snapshot := ?snap\<rparr>, sl1, out)
        (rs' @ bitmap_kept pg ?snap ?rest) s1"
      using assms(1-3,6-8) H co d Cons by (auto simp: bitmap_pending_def bitmap_kept_def intro!: exI [of _ t] exI [of _ ps])
    ultimately show ?thesis using d Cons hit by (simp add: Let_def wp_ret bitmap_tuple_def)
  qed
qed

lemma bitmap_loop_spec:
  assumes "slot_laws x" and "read_only (rs_snapshot scan)" and "rs_rd scan = rel" and "holds h view up s rel t"
    and "cursor_of t (cursor scan)" and le: "\<forall>r \<in> set (storage t). rw_id r \<le> 2 ^ 40"
    and "tbm_yields tbm (rs_tbmiterator scan) ps" and "\<forall>p \<in> set ps. page_fits tbm p"
    and "rs = bitmap_kept pg (rs_snapshot scan) (left_on_page (storage t) (cursor scan) @ concat (map (page_rows tbm (storage t)) ps))"
  shows "wp (bitmap_loop h pg x tbm (scan, sl, out)) (\<lambda>(hit, st') s'. case rs of [] \<Rightarrow> \<not> hit
    | r # rs' \<Rightarrow> hit \<and> bitmap_tuple x st' = stored_tuple rel (row_of r) \<and> bitmap_pending h view up pg x tbm rel st' rs' s') s"
  using assms(2-5,7-9)
proof (induction ps arbitrary: scan sl out s)
  case Nil
  show ?case
  proof (rule bitmap_round [OF assms(1) Nil.prems(1-4) le Nil.prems(5-7)])
    fix scan' sl' s'
    assume e: "bitmap_kept pg (rs_snapshot scan) (left_on_page (storage t) (cursor scan)) = []"
      and s: "scan' = scan\<lparr>cursor := cursor scan'\<rparr>"
    have "rs_tbmiterator scan' = rs_tbmiterator scan" by (subst s) simp
    then show "wp (bitmap_turn h pg x tbm scan' sl' out)
        (\<lambda>(hit, st') s'. case rs of [] \<Rightarrow> \<not> hit
          | r # rs' \<Rightarrow> hit \<and> bitmap_tuple x st' = stored_tuple rel (row_of r) \<and> bitmap_pending h view up pg x tbm rel st' rs' s') s'"
      using Nil.prems(5,7) e by (cases "tbm_iterate tbm (rs_tbmiterator scan)") (simp add: bitmap_turn_def wp_ret bitmap_kept_def)
  qed simp
next
  case (Cons p ps)
  show ?case
  proof (rule bitmap_round [OF assms(1) Cons.prems(1-4) le Cons.prems(5-7)])
    fix scan' sl' s'
    assume e: "bitmap_kept pg (rs_snapshot scan) (left_on_page (storage t) (cursor scan)) = []"
      and H: "holds h view up s' rel t" and co: "cursor_of t (cursor scan')" and s: "scan' = scan\<lparr>cursor := cursor scan'\<rparr>"
    have sc: "rs_tbmiterator scan' = rs_tbmiterator scan" "rs_rd scan' = rel" "rs_snapshot scan' = rs_snapshot scan"
      using Cons.prems(2) by (subst s, simp)+
    obtain it where it: "tbm_iterate tbm (rs_tbmiterator scan) = (Some p, it)" "tbm_yields tbm it ps"
      using Cons.prems(5) by (cases "tbm_iterate tbm (rs_tbmiterator scan)") auto
    have rs: "rs = bitmap_kept pg (rs_snapshot scan) (page_rows tbm (storage t) p @ concat (map (page_rows tbm (storage t)) ps))"
      using Cons.prems(7) e by (simp add: bitmap_kept_def)
    show "wp (bitmap_turn h pg x tbm scan' sl' out)
        (\<lambda>(hit, st') s'. case rs of [] \<Rightarrow> \<not> hit
          | r # rs' \<Rightarrow> hit \<and> bitmap_tuple x st' = stored_tuple rel (row_of r) \<and> bitmap_pending h view up pg x tbm rel st' rs' s') s'"
      unfolding bitmap_turn_def sc it(1) prod.case option.case
      by (rule wpB [OF bitmap_load_page_spec [OF H co _ le]], use Cons.prems(6) in simp, elim conjE, rule Cons.IH)
        (use it(2) sc rs Cons.prems(1,6) in simp_all)
  qed simp
qed

lemma bitmap_next_spec:
  assumes "bitmap_pending h view up pg x tbm rel st rs s"
  shows "wp (bitmap_next h pg x tbm st) (\<lambda>(hit, st') s'. case rs of [] \<Rightarrow> \<not> hit
    | r # rs' \<Rightarrow> hit \<and> bitmap_tuple x st' = stored_tuple rel (row_of r) \<and> bitmap_pending h view up pg x tbm rel st' rs' s') s"
proof (cases st)
  case (fields scan sl out)
  with assms obtain t ps where p: "slot_laws x" "read_only (rs_snapshot scan)" "rs_rd scan = rel" "holds h view up s rel t"
    "cursor_of t (cursor scan)" "\<forall>r \<in> set (storage t). rw_id r \<le> 2 ^ 40" "tbm_yields tbm (rs_tbmiterator scan) ps"
    "\<forall>p \<in> set ps. page_fits tbm p"
    "rs = bitmap_kept pg (rs_snapshot scan) (left_on_page (storage t) (cursor scan) @ concat (map (page_rows tbm (storage t)) ps))"
    by (auto simp: bitmap_pending_def)
  from bitmap_loop_spec [OF p] show ?thesis by (simp add: fields bitmap_next_def scan_bitmap_next_tuple_def)
qed

interpretation bitmap_scan: row_source "bitmap_next h pg x tbm" "bitmap_pending h view up pg x tbm rel"
    "bitmap_tuple x" "\<lambda>r. stored_tuple rel (row_of r)" for h pg x tbm view up rel
  by unfold_locales (drule bitmap_next_spec, simp)+

end
