(* ===== verification/Am_Routine.thy ===== *)
theory Am_Routine
  imports Row_Walks Bitmap_Scan
begin

text \<open>
  The callback table that the extension hands to Postgres (\<open>am_routine\<close> of \<open>src/tam.rs\<close>,
  returned by \<open>sqlite_heap_handler\<close> of \<open>src/lib.rs\<close>) and the callbacks that do nothing or
  delegate to Postgres. A callback is modelled over the values it is handed by pointer, and
  returns what it leaves in them; unused arguments are kept where the model has a type for them.
\<close>

section \<open>Callbacks without work of their own\<close>

datatype TupleTableSlotOps = TTSOpsVirtual | TTSOpsHeapTuple | TTSOpsMinimalTuple | TTSOpsBufferHeapTuple

definition slot_callbacks :: "u32 \<Rightarrow> TupleTableSlotOps" where
  "slot_callbacks rel = TTSOpsHeapTuple"

text \<open>Postgres's block-oriented parallel scan; \<open>'ps\<close> is its shared scan descriptor.\<close>

record 'ps parallel_api =
  table_block_parallelscan_estimate :: "u32 \<Rightarrow> nat"
  table_block_parallelscan_initialize :: "u32 \<Rightarrow> 'ps \<Rightarrow> nat \<times> 'ps"
  table_block_parallelscan_reinitialize :: "u32 \<Rightarrow> 'ps \<Rightarrow> 'ps"

definition parallelscan_estimate :: "'ps parallel_api \<Rightarrow> u32 \<Rightarrow> nat" where
  "parallelscan_estimate par rel = table_block_parallelscan_estimate par rel"

definition parallelscan_initialize :: "'ps parallel_api \<Rightarrow> u32 \<Rightarrow> 'ps \<Rightarrow> nat \<times> 'ps" where
  "parallelscan_initialize par rel pscan = table_block_parallelscan_initialize par rel pscan"

definition parallelscan_reinitialize :: "'ps parallel_api \<Rightarrow> u32 \<Rightarrow> 'ps \<Rightarrow> 'ps" where
  "parallelscan_reinitialize par rel pscan = table_block_parallelscan_reinitialize par rel pscan"

text \<open>The descriptors that are freed have no state left.\<close>

definition scan_end :: "'i SqliteScanState \<Rightarrow> unit" where
  "scan_end scan = ()"

record IndexFetchTableData =
  ifd_rel :: u32

definition index_fetch_begin :: "u32 \<Rightarrow> IndexFetchTableData" where
  "index_fetch_begin rel = \<lparr>ifd_rel = rel\<rparr>"

definition index_fetch_reset :: "IndexFetchTableData \<Rightarrow> IndexFetchTableData" where
  "index_fetch_reset data = data"

definition index_fetch_end :: "IndexFetchTableData \<Rightarrow> unit" where
  "index_fetch_end data = ()"

definition tuple_get_latest_tid :: "'i SqliteScanState \<Rightarrow> ItemPointerData \<Rightarrow> ItemPointerData" where
  "tuple_get_latest_tid scan tid = tid"

definition finish_bulk_insert :: "u32 \<Rightarrow> ('w backend, unit) prog" where
  "finish_bulk_insert rel = ret ()"

definition relation_copy_data :: "u32 \<Rightarrow> ('w backend, unit) prog" where
  "relation_copy_data rel = ret ()"

definition index_validate_scan :: "u32 \<Rightarrow> u32 \<Rightarrow> Snapshot \<Rightarrow> 'c \<Rightarrow> ('w backend, 'c) prog" where
  "index_validate_scan table index snapshot state = ret state"

definition relation_needs_toast_table :: "u32 \<Rightarrow> bool" where
  "relation_needs_toast_table rel = False"

definition relation_toast_am :: "u32 \<Rightarrow> u32" where
  "relation_toast_am rel = 0"

definition relation_fetch_toast_slice :: "u32 \<Rightarrow> u32 \<Rightarrow> bytes \<Rightarrow> bytes" where
  "relation_fetch_toast_slice toastrel valueid buffer = buffer"

section \<open>The table\<close>

text \<open>
  \<open>'w\<close>: the host's world, \<open>'b\<close>: the body of a slot, \<open>'i\<close> and \<open>'p\<close>: bitmap iterator and page,
  \<open>'ps\<close>: parallel scan descriptor, \<open>'v\<close>: index datum, \<open>'c\<close>: the index build's own state.
\<close>

record ('w, 'b, 'i, 'ps, 'v, 'c) TableAmRoutine =
  am_slot_callbacks :: "u32 \<Rightarrow> TupleTableSlotOps"
  am_scan_begin :: "u32 \<Rightarrow> Snapshot \<Rightarrow> int \<Rightarrow> pointer \<Rightarrow> pointer \<Rightarrow> u32 \<Rightarrow> 'i SqliteScanState"
  am_scan_end :: "'i SqliteScanState \<Rightarrow> unit"
  am_scan_rescan :: "'i SqliteScanState \<Rightarrow> 'i SqliteScanState"
  am_scan_getnextslot ::
    "'i SqliteScanState \<Rightarrow> ScanDirection \<Rightarrow> 'b slot \<Rightarrow> ('w backend, bool \<times> 'i SqliteScanState \<times> 'b slot) prog"
  am_scan_set_tidrange :: "'i SqliteScanState \<Rightarrow> ItemPointerData \<Rightarrow> ItemPointerData \<Rightarrow> 'i SqliteScanState"
  am_scan_getnextslot_tidrange ::
    "'i SqliteScanState \<Rightarrow> ScanDirection \<Rightarrow> 'b slot \<Rightarrow> ('w backend, bool \<times> 'i SqliteScanState \<times> 'b slot) prog"
  am_parallelscan_estimate :: "u32 \<Rightarrow> nat"
  am_parallelscan_initialize :: "u32 \<Rightarrow> 'ps \<Rightarrow> nat \<times> 'ps"
  am_parallelscan_reinitialize :: "u32 \<Rightarrow> 'ps \<Rightarrow> 'ps"
  am_index_fetch_begin :: "u32 \<Rightarrow> IndexFetchTableData"
  am_index_fetch_reset :: "IndexFetchTableData \<Rightarrow> IndexFetchTableData"
  am_index_fetch_end :: "IndexFetchTableData \<Rightarrow> unit"
  am_index_fetch_tuple ::
    "IndexFetchTableData \<Rightarrow> ItemPointerData \<Rightarrow> Snapshot \<Rightarrow> 'b slot \<Rightarrow> bool option \<Rightarrow> bool option \<Rightarrow>
      ('w backend, bool \<times> Snapshot \<times> 'b slot \<times> bool option \<times> bool option) prog"
  am_tuple_fetch_row_version ::
    "u32 \<Rightarrow> ItemPointerData \<Rightarrow> Snapshot \<Rightarrow> 'b slot \<Rightarrow> ('w backend, bool \<times> Snapshot \<times> 'b slot) prog"
  am_tuple_tid_valid :: "'i SqliteScanState \<Rightarrow> ItemPointerData \<Rightarrow> ('w backend, bool) prog"
  am_tuple_get_latest_tid :: "'i SqliteScanState \<Rightarrow> ItemPointerData \<Rightarrow> ItemPointerData"
  am_tuple_satisfies_snapshot :: "u32 \<Rightarrow> 'b slot \<Rightarrow> Snapshot \<Rightarrow> ('w backend, bool \<times> Snapshot) prog"
  am_index_delete_tuples :: "u32 \<Rightarrow> TM_IndexDeleteOp \<Rightarrow> ('w backend, u32 \<times> TM_IndexDeleteOp) prog"
  am_tuple_insert :: "u32 \<Rightarrow> 'b slot \<Rightarrow> u32 \<Rightarrow> ('w backend, 'b slot) prog"
  am_tuple_insert_speculative :: "u32 \<Rightarrow> 'b slot \<Rightarrow> u32 \<Rightarrow> u32 \<Rightarrow> ('w backend, 'b slot) prog"
  am_tuple_complete_speculative :: "u32 \<Rightarrow> 'b slot \<Rightarrow> bool \<Rightarrow> ('w backend, unit) prog"
  am_multi_insert :: "u32 \<Rightarrow> 'b slot list \<Rightarrow> u32 \<Rightarrow> ('w backend, 'b slot list) prog"
  am_tuple_delete :: "u32 \<Rightarrow> ItemPointerData \<Rightarrow> u32 \<Rightarrow> ('w backend, TM_Result) prog"
  am_tuple_update ::
    "u32 \<Rightarrow> ItemPointerData \<Rightarrow> 'b slot \<Rightarrow> u32 \<Rightarrow> TU_UpdateIndexes option \<Rightarrow>
      ('w backend, TM_Result \<times> 'b slot \<times> TU_UpdateIndexes option) prog"
  am_tuple_lock ::
    "u32 \<Rightarrow> ItemPointerData \<Rightarrow> Snapshot \<Rightarrow> 'b slot \<Rightarrow> ('w backend, TM_Result \<times> Snapshot \<times> 'b slot) prog"
  am_finish_bulk_insert :: "u32 \<Rightarrow> ('w backend, unit) prog"
  am_relation_set_new_filelocator :: "u32 \<Rightarrow> ('w backend, unit) prog"
  am_relation_nontransactional_truncate :: "u32 \<Rightarrow> ('w backend, unit) prog"
  am_relation_copy_data :: "u32 \<Rightarrow> ('w backend, unit) prog"
  am_relation_copy_for_cluster :: "u32 \<Rightarrow> u32 \<Rightarrow> ('w backend, nat \<times> nat \<times> nat) prog"
  am_relation_vacuum :: "u32 \<Rightarrow> ('w backend, unit) prog"
  am_scan_analyze_next_block :: "u32 \<Rightarrow> 'i SqliteScanState \<Rightarrow> bool \<times> 'i SqliteScanState"
  am_scan_analyze_next_tuple ::
    "'i SqliteScanState \<Rightarrow> nat \<Rightarrow> nat \<Rightarrow> 'b slot \<Rightarrow>
      ('w backend, bool \<times> 'i SqliteScanState \<times> nat \<times> nat \<times> 'b slot) prog"
  am_index_build_range_scan ::
    "('b slot \<Rightarrow> 'v) \<Rightarrow> (ItemPointerData \<Rightarrow> 'v \<Rightarrow> 'c \<Rightarrow> 'c) option \<Rightarrow> u32 \<Rightarrow> 'b slot \<Rightarrow> 'c \<Rightarrow>
      ('w backend, nat \<times> 'c) prog"
  am_index_validate_scan :: "u32 \<Rightarrow> u32 \<Rightarrow> Snapshot \<Rightarrow> 'c \<Rightarrow> ('w backend, 'c) prog"
  am_relation_size :: "ForkNumber \<Rightarrow> u64"
  am_relation_needs_toast_table :: "u32 \<Rightarrow> bool"
  am_relation_toast_am :: "u32 \<Rightarrow> u32"
  am_relation_fetch_toast_slice :: "u32 \<Rightarrow> u32 \<Rightarrow> bytes \<Rightarrow> bytes"
  am_relation_estimate_size :: "u32 \<Rightarrow> ('w backend, u32 \<times> int \<times> nat) prog"
  am_scan_bitmap_next_tuple ::
    "'i SqliteScanState \<Rightarrow> 'b slot \<Rightarrow> bitmap_out \<Rightarrow> ('w backend, bool \<times> ('i, 'b) bitmap_state) prog"
  am_scan_sample_next_block :: "'i SqliteScanState \<Rightarrow> bool \<times> 'i SqliteScanState"
  am_scan_sample_next_tuple ::
    "'i SqliteScanState \<Rightarrow> 'b slot \<Rightarrow> ('w backend, bool \<times> 'i SqliteScanState \<times> 'b slot) prog"

definition am_routine ::
    "'w host \<Rightarrow> pg_xact \<Rightarrow> 'b slot_api \<Rightarrow> ('i, 'p) tbm_api \<Rightarrow> 'ps parallel_api \<Rightarrow> 'i \<Rightarrow>
      ('w, 'b, 'i, 'ps, 'v, 'c) TableAmRoutine" where
  "am_routine h pg x tbm par zero_iter =
     \<lparr>am_slot_callbacks = slot_callbacks,
      am_scan_begin = scan_begin zero_iter,
      am_scan_end = scan_end,
      am_scan_rescan = scan_rescan,
      am_scan_getnextslot = scan_getnextslot h pg x,
      am_scan_set_tidrange = scan_set_tidrange,
      am_scan_getnextslot_tidrange = scan_getnextslot_tidrange h pg x,
      am_parallelscan_estimate = parallelscan_estimate par,
      am_parallelscan_initialize = parallelscan_initialize par,
      am_parallelscan_reinitialize = parallelscan_reinitialize par,
      am_index_fetch_begin = index_fetch_begin,
      am_index_fetch_reset = index_fetch_reset,
      am_index_fetch_end = index_fetch_end,
      am_index_fetch_tuple = (\<lambda>data. index_fetch_tuple h pg x (ifd_rel data)),
      am_tuple_fetch_row_version = tuple_fetch_row_version h pg x,
      am_tuple_tid_valid = tuple_tid_valid h,
      am_tuple_get_latest_tid = tuple_get_latest_tid,
      am_tuple_satisfies_snapshot = tuple_satisfies_snapshot h pg,
      am_index_delete_tuples = index_delete_tuples h pg,
      am_tuple_insert = tuple_insert h pg x,
      am_tuple_insert_speculative = tuple_insert_speculative h pg x,
      am_tuple_complete_speculative = tuple_complete_speculative h,
      am_multi_insert = multi_insert h pg x,
      am_tuple_delete = tuple_delete h pg,
      am_tuple_update = tuple_update h pg x,
      am_tuple_lock = tuple_lock h pg x,
      am_finish_bulk_insert = finish_bulk_insert,
      am_relation_set_new_filelocator = relation_set_new_filelocator h,
      am_relation_nontransactional_truncate = relation_nontransactional_truncate h,
      am_relation_copy_data = relation_copy_data,
      am_relation_copy_for_cluster = relation_copy_for_cluster h pg,
      am_relation_vacuum = relation_vacuum h pg,
      am_scan_analyze_next_block = scan_analyze_next_block,
      am_scan_analyze_next_tuple = scan_analyze_next_tuple h x,
      am_index_build_range_scan = index_build_range_scan h x,
      am_index_validate_scan = index_validate_scan,
      am_relation_size = relation_size,
      am_relation_needs_toast_table = relation_needs_toast_table,
      am_relation_toast_am = relation_toast_am,
      am_relation_fetch_toast_slice = relation_fetch_toast_slice,
      am_relation_estimate_size = relation_estimate_size h,
      am_scan_bitmap_next_tuple = scan_bitmap_next_tuple h pg x tbm,
      am_scan_sample_next_block = scan_sample_next_block,
      am_scan_sample_next_tuple = scan_sample_next_tuple h pg x\<rparr>"

definition sqlite_heap_handler ::
    "'w host \<Rightarrow> pg_xact \<Rightarrow> 'b slot_api \<Rightarrow> ('i, 'p) tbm_api \<Rightarrow> 'ps parallel_api \<Rightarrow> 'i \<Rightarrow>
      ('w, 'b, 'i, 'ps, 'v, 'c) TableAmRoutine" where
  "sqlite_heap_handler h pg x tbm par zero_iter = am_routine h pg x tbm par zero_iter"

end
