(* ===== verification/Xact_Trace.thy ===== *)
theory Xact_Trace
  imports Xact_Hooks Seen_Table
begin

text \<open>
  Transactions as sequences of steps: row operations on relations, interleaved with the
  subtransaction and transaction events Postgres delivers through the hooks. The invariants
  of the sequences give atomicity of the transaction and of its subtransactions.
\<close>

section \<open>Row operations\<close>

datatype row_op =
    OpInsert u32 u32 bytes | OpBatch u32 u32 "bytes list" | OpStamp int u32 u32
  | OpUpdate int u32 u32 bytes | OpDelete int | OpReset | OpPurge u32 | OpMeta string bytes | OpRead

fun run_op :: "'w host \<Rightarrow> u32 \<Rightarrow> row_op \<Rightarrow> ('w backend, unit) prog" where
  "run_op h rel (OpInsert x c b) = bindE (insert_row h rel x c b) (\<lambda>_. ret ())"
| "run_op h rel (OpBatch x c bs) = bindE (insert_batch h rel x c bs) (\<lambda>_. ret ())"
| "run_op h rel (OpStamp rid x c) = bindE (set_xmax h rel rid x c) (\<lambda>_. ret ())"
| "run_op h rel (OpUpdate rid x c b) = bindE (update_row h rel rid x c b) (\<lambda>_. ret ())"
| "run_op h rel (OpDelete rid) = bindE (physical_delete h rel rid) (\<lambda>_. ret ())"
| "run_op h rel OpReset = reset h rel"
| "run_op h rel (OpPurge x) = bindE (with_conn h rel (delete_dead h x)) (\<lambda>_. ret ())"
| "run_op h rel (OpMeta k v) = meta_set h rel k v"
| "run_op h rel OpRead = bindE (select_all h rel) (\<lambda>_. ret ())"

text \<open>What an operation does to the tables, and the sizes the engine accepts.\<close>

fun op_effect :: "row_op \<Rightarrow> tables \<Rightarrow> tables" where
  "op_effect (OpInsert x c b) t = t\<lparr>storage := rows_insert (sint x) (sint c) b (storage t)\<rparr>"
| "op_effect (OpBatch x c bs) t = t\<lparr>storage := rows_batch (sint x) (sint c) bs (storage t)\<rparr>"
| "op_effect (OpStamp rid x c) t = t\<lparr>storage := rows_stamp (sint x) (sint c) rid (storage t)\<rparr>"
| "op_effect (OpUpdate rid x c b) t =
     t\<lparr>storage := rows_insert (sint x) (sint c) b (rows_stamp (sint x) (sint c) rid (storage t))\<rparr>"
| "op_effect (OpDelete rid) t = t\<lparr>storage := rows_delete rid (storage t)\<rparr>"
| "op_effect OpReset t = t\<lparr>storage := []\<rparr>"
| "op_effect (OpPurge x) t = t\<lparr>storage := rows_vacuum (sint x) (storage t)\<rparr>"
| "op_effect (OpMeta k v) t = t\<lparr>meta := meta_put k v (meta t)\<rparr>"
| "op_effect OpRead t = t"

fun op_ready :: "row_op \<Rightarrow> tables \<Rightarrow> bool" where
  "op_ready (OpInsert x c b) t \<longleftrightarrow> length b \<le> 1000000000 \<and> next_rowid (storage t) \<le> i64_max"
| "op_ready (OpBatch x c bs) t \<longleftrightarrow> (\<forall>b \<in> set bs. length b \<le> 1000000000) \<and>
     next_rowid (storage t) + int (length bs) \<le> i64_max"
| "op_ready (OpUpdate rid x c b) t \<longleftrightarrow> length b \<le> 1000000000 \<and> next_rowid (storage t) \<le> i64_max"
| "op_ready (OpMeta k v) t \<longleftrightarrow> length k \<le> 1000000000 \<and> length v \<le> 1000000000"
| "op_ready _ t \<longleftrightarrow> True"

section \<open>Steps\<close>

datatype label = Data u32 row_op | Ev xevent

inductive step :: "'w host \<Rightarrow> ('w \<Rightarrow> eng) \<Rightarrow> label \<Rightarrow> 'w backend \<Rightarrow> 'w backend \<Rightarrow> bool" for h view where
  data: "avail h view s rel d \<Longrightarrow> has_tables (db_tab d) \<Longrightarrow> op_ready op (db_tab d) \<Longrightarrow>
    run_op h rel op s = Some (Ok (), s') \<Longrightarrow> step h view (Data rel op) s s'"
| sub_start: "on_sub_start h n s = Some (Ok (), s') \<Longrightarrow> step h view (Ev (StartSub n)) s s'"
| sub_commit: "on_sub_commit h n s = Some (Ok (), s') \<Longrightarrow> step h view (Ev (CommitSub n)) s s'"
| sub_abort: "on_sub_abort h n s = Some (Ok (), s') \<Longrightarrow> step h view (Ev (AbortSub n)) s s'"
| precommit: "on_precommit h s = Some (Ok (), s') \<Longrightarrow> step h view (Ev PreCommit) s s'"
| abort: "on_abort h s = Some (Ok (), s') \<Longrightarrow> step h view (Ev Abort) s s'"
| forget_hooks: "step h view (Ev Commit) s (s\<lparr>HOOKS := []\<rparr>)"

inductive_cases step_DataE: "step h view (Data rel op) s s'"
inductive_cases step_EvE: "step h view (Ev e) s s'"

inductive trace :: "'w host \<Rightarrow> ('w \<Rightarrow> eng) \<Rightarrow> (label \<Rightarrow> bool) \<Rightarrow> 'w backend \<Rightarrow> 'w backend \<Rightarrow> bool" for h view P where
  here: "trace h view P s s"
| more_steps: "trace h view P s s1 \<Longrightarrow> P l \<Longrightarrow> step h view l s1 s2 \<Longrightarrow> trace h view P s s2"

text \<open>
  The labels of a transaction in progress, and of the work inside subtransaction \<open>n\<close>: Postgres
  numbers subtransactions in the order they start, so inner ones have larger numbers.
\<close>

fun in_xact :: "label \<Rightarrow> bool" where
  "in_xact (Data rel op) = True"
| "in_xact (Ev (StartSub n)) = True"
| "in_xact (Ev (CommitSub n)) = True"
| "in_xact (Ev (AbortSub n)) = True"
| "in_xact (Ev _) = False"

fun inside_sub :: "u32 \<Rightarrow> label \<Rightarrow> bool" where
  "inside_sub n (Data rel op) = True"
| "inside_sub n (Ev (StartSub m)) = (n < m)"
| "inside_sub n (Ev (CommitSub m)) = (n < m)"
| "inside_sub n (Ev (AbortSub m)) = (n < m)"
| "inside_sub n (Ev _) = False"

section \<open>Every step has its effect\<close>

lemma wp_run: "wp m Q s \<Longrightarrow> m s = Some (Ok x, s') \<Longrightarrow> Q x s'"
  by (auto simp: wp_def)

lemma wp_discard: "wp m (\<lambda>_. Q ()) s \<Longrightarrow> wp (bindE m (\<lambda>_. ret ())) Q s"
  by (simp add: wp_rules)

context sqlite_engine
begin

lemma run_op_spec:
  assumes "BK s" and "avail h view s rel d" and "has_tables (db_tab d)" and "op_ready op (db_tab d)"
  shows "wp (run_op h rel op) (\<lambda>_ s'. \<exists>d'. rel_db view s' rel = Some d' \<and> (db_tab d' = op_effect op (db_tab d) \<and>
    (db_txn d' = db_txn (begun d) \<or> d' = d)) \<and> op_frame h view up rel s s') s"
proof (cases op)
  case (OpInsert x c b)
  show ?thesis unfolding OpInsert run_op.simps
    by (rule wp_discard, rule wp_mono [OF insert_row_spec [OF assms(1-3)]]) (use assms(4) OpInsert in auto)
next
  case (OpBatch x c bs)
  show ?thesis unfolding OpBatch run_op.simps
    by (rule wp_discard, rule wp_mono [OF insert_batch_spec [OF assms(1-3)]])
      (use assms(4) OpBatch in \<open>auto simp: batch_ids_upto\<close>)
next
  case (OpStamp rid x c)
  show ?thesis unfolding OpStamp run_op.simps
    by (rule wp_discard, rule wp_mono [OF set_xmax_spec [OF assms(1-3)]]) auto
next
  case (OpUpdate rid x c b)
  show ?thesis unfolding OpUpdate run_op.simps
    by (rule wp_discard, rule wp_mono [OF update_row_spec [OF assms(1-3)]]) (use assms(4) OpUpdate in auto)
next
  case (OpDelete rid)
  show ?thesis unfolding OpDelete run_op.simps
    by (rule wp_discard, rule wp_mono [OF physical_delete_spec [OF assms(1-3)]]) auto
next
  case OpReset
  show ?thesis unfolding OpReset run_op.simps
    by (rule wp_mono [OF reset_relation_spec [OF assms(1-3)]]) auto
next
  case (OpPurge x)
  show ?thesis unfolding OpPurge run_op.simps
    by (rule wp_discard, rule wp_mono [OF delete_dead_spec [OF assms(1-3)]]) auto
next
  case (OpMeta k v)
  show ?thesis unfolding OpMeta run_op.simps
    by (rule wp_mono [OF meta_set_spec [OF assms(1-3)]]) (use assms(4) OpMeta in auto)
next
  case OpRead
  show ?thesis unfolding OpRead run_op.simps
    by (rule wp_discard, rule wp_mono [OF select_all_spec [OF assms(1-3)]]) auto
qed

lemma data_step:
  assumes "BK s" and "step h view (Data rel op) s s'"
  obtains d d' where "avail h view s rel d" "rel_db view s' rel = Some d'" "db_tab d' = op_effect op (db_tab d)"
    "db_txn d' = db_txn (begun d) \<or> d' = d" "op_frame h view up rel s s'"
proof -
  from assms(2) obtain d where d: "avail h view s rel d" "has_tables (db_tab d)" "op_ready op (db_tab d)"
    "run_op h rel op s = Some (Ok (), s')" by (elim step_DataE)
  from wp_run [OF run_op_spec [OF assms(1) d(1-3)] d(4)] d(1) show ?thesis by (auto intro: that)
qed

text \<open>The connection table stays consistent along every sequence of steps.\<close>

lemma step_BK:
  assumes "step h view l s s'" and "BK s" shows "BK s'"
  using assms
proof (cases rule: step.cases)
  case (data rel d op)
  from wp_run [OF run_op_spec [OF assms(2) data(2-4)] data(5)] show ?thesis by (auto simp: op_frame_def)
next
  case (sub_start n)
  from wp_run [OF on_sub_start_spec [OF assms(2)] sub_start(2)] show ?thesis by (simp add: mapped_def)
next
  case (sub_commit n)
  from wp_run [OF on_sub_commit_spec [OF assms(2)] sub_commit(2)] show ?thesis by (simp add: mapped_def)
next
  case (sub_abort n)
  from wp_run [OF on_sub_abort_spec [OF assms(2)] sub_abort(2)] show ?thesis by (simp add: mapped_def)
next
  case precommit
  from wp_run [OF on_precommit_spec [OF assms(2)] precommit(2)] show ?thesis by (simp add: mapped_def)
next
  case abort
  from wp_run [OF on_abort_spec [OF assms(2)] abort(2)] show ?thesis by (simp add: mapped_def)
next
  case forget_hooks
  with assms(2) show ?thesis by (simp add: backend_ok_def)
qed

lemma trace_BK: "trace h view P s s' \<Longrightarrow> BK s \<Longrightarrow> BK s'"
  by (induction rule: trace.induct) (auto intro: step_BK)

end

section \<open>Well-typed storage\<close>

text \<open>
  A table is well typed if its rows are in strict rowid order from 1 on and every transaction
  and command id fits a \<open>u32\<close>. In a well-typed backend this holds of all tables an access can
  meet: those a connection shows, those its transaction began with, those saved at its
  savepoints, and those of files still to be opened; and a registered relation has its connection.
\<close>

definition conn_typed :: "dbconn \<Rightarrow> bool" where
  "conn_typed d \<longleftrightarrow> rows_ok (storage (db_tab d)) \<and>
     (case db_txn d of None \<Rightarrow> True
      | Some (t0, sps) \<Rightarrow> rows_ok (storage t0) \<and> list_all (\<lambda>e. rows_ok (storage (snd e))) sps)"

definition well_typed :: "'w host \<Rightarrow> ('w \<Rightarrow> eng) \<Rightarrow> 'w backend \<Rightarrow> bool" where
  "well_typed h view s \<longleftrightarrow> TX_RELS s \<subseteq> dom (CONNS s) \<and> (\<forall>rel d. avail h view s rel d \<longrightarrow> conn_typed d)"

lemma rows_ok_effect: "rows_ok (storage t) \<Longrightarrow> rows_ok (storage (op_effect op t))"
proof (cases op)
  case OpReset
  then show ?thesis by (simp add: rows_ok_def)
qed (simp_all add: rows_ok_insert rows_ok_batch rows_ok_stamp rows_ok_filter rows_delete_def rows_vacuum_def)

lemma pop_to_typed:
  "pop_to n sps = Some (t, sps') \<Longrightarrow> list_all (\<lambda>e. rows_ok (storage (snd e))) sps \<Longrightarrow>
    rows_ok (storage t) \<and> list_all (\<lambda>e. rows_ok (storage (snd e))) sps'"
  by (induction n sps rule: pop_to.induct) (auto split: if_splits)

lemma conn_typed_events:
  assumes "conn_typed d"
  shows "conn_typed (begun d)" "conn_typed (savepointed n d)" "conn_typed (released n d)" "conn_typed (rolled_to n d)"
    "conn_typed (rolled_back d)" "conn_typed (closed_txn d)"
  using assms
  by (auto simp: conn_typed_def begun_def savepointed_def released_def rolled_to_def rolled_back_def closed_txn_def
      dest: pop_to_typed split: option.splits prod.splits)

lemma cached_rel_db: "backend_ok view up s \<Longrightarrow> CONNS s rel = Some c \<Longrightarrow> \<exists>d. rel_db view s rel = Some d \<and> avail h view s rel d"
  by (erule (1) backend_ok_D) (auto simp: rel_db_def conn_ok_def avail_def)

lemma rel_db_is_avail: "rel_db view s rel = Some d \<Longrightarrow> avail h view s rel d' \<longleftrightarrow> d' = d"
  by (auto simp: rel_db_def avail_def split: option.splits)

lemma typed_mapped:
  assumes ok: "backend_ok view up s" and t: "well_typed h view s" and T: "T \<subseteq> TX_RELS s"
    and m: "mapped view up R g (s\<lparr>TX_RELS := T\<rparr>) s'" and g: "\<And>d. conn_typed d \<Longrightarrow> conn_typed (g d)"
  shows "well_typed h view s'"
proof -
  let ?s = "s\<lparr>TX_RELS := T\<rparr>"
  have dom: "CONNS s' rel \<noteq> None" if c: "CONNS s rel = Some c" for rel c
  proof -
    from cached_rel_db [OF ok c] obtain d where "rel_db view ?s rel = Some d" using c by (auto simp: rel_db_def)
    with m have "rel_db view s' rel \<noteq> None" by (simp add: mapped_def)
    then show ?thesis by (auto simp: rel_db_def split: option.splits)
  qed
  have "conn_typed d" if a: "avail h view s' rel d" for rel d
  proof (cases "CONNS s rel")
    case None
    then have "avail h view ?s rel d" using a mapped_avail [OF m, of rel] by simp
    moreover have "rel \<notin> TX_RELS s" using t None by (auto simp: well_typed_def)
    ultimately have "avail h view s rel d" using None by (simp add: avail_def dir_of_def)
    then show ?thesis using t by (simp add: well_typed_def)
  next
    case (Some c)
    from cached_rel_db [OF ok Some] obtain d0 where d0: "rel_db view ?s rel = Some d0" "avail h view s rel d0"
      using Some by (auto simp: rel_db_def)
    have "rel_db view s' rel = Some d" using a dom [OF Some] by (auto simp: avail_def rel_db_def)
    with m d0(1) have "d = g d0 \<or> d = d0" by (auto simp: mapped_def split: if_splits)
    then show ?thesis using t d0(2) g by (auto simp: well_typed_def)
  qed
  moreover have "TX_RELS s' \<subseteq> dom (CONNS s')"
  proof
    fix rel assume "rel \<in> TX_RELS s'"
    then have "rel \<in> TX_RELS s" using m T by (auto simp: mapped_def)
    then obtain c where "CONNS s rel = Some c" using t by (auto simp: well_typed_def)
    from dom [OF this] show "rel \<in> dom (CONNS s')" by auto
  qed
  ultimately show ?thesis by (simp add: well_typed_def)
qed

context sqlite_engine
begin

lemma step_typed:
  assumes st: "step h view l s s'" and ok: "BK s" and t: "well_typed h view s" shows "well_typed h view s'"
proof -
  note ev = typed_mapped [OF ok t subset_refl] typed_mapped [OF ok t empty_subsetI]
  from st show ?thesis
  proof (cases rule: step.cases)
    case (data rel d op)
    from wp_run [OF run_op_spec [OF ok data(2-4)] data(5)] obtain d' where d': "rel_db view s' rel = Some d'"
      "db_tab d' = op_effect op (db_tab d)" "db_txn d' = db_txn (begun d) \<or> d' = d" and fr: "op_frame h view up rel s s'" by auto
    have "conn_typed (begun d)" "conn_typed d" using t data(2) conn_typed_events(1) by (auto simp: well_typed_def)
    then have "conn_typed d'" using d'(2,3) rows_ok_effect by (auto simp: conn_typed_def)
    then have "conn_typed d1" if "avail h view s' r d1" for r d1
      using that t fr rel_db_is_avail [OF d'(1)] by (cases "r = rel") (auto simp: well_typed_def op_frame_def)
    moreover have "CONNS s' r \<noteq> None" if "r \<in> TX_RELS s'" for r
      using that t fr d'(1) by (cases "r = rel") (auto simp: well_typed_def op_frame_def rel_db_def split: option.splits)
    ultimately show ?thesis by (auto simp: well_typed_def)
  next
    case (sub_start n)
    from ev(1) [OF _ conn_typed_events(2)] wp_run [OF on_sub_start_spec [OF ok] sub_start(2)] show ?thesis by simp
  next
    case (sub_commit n)
    from ev(1) [OF _ conn_typed_events(3)] wp_run [OF on_sub_commit_spec [OF ok] sub_commit(2)] show ?thesis by simp
  next
    case (sub_abort n)
    from ev(1) [OF _ conn_typed_events(4)] wp_run [OF on_sub_abort_spec [OF ok] sub_abort(2)] show ?thesis by simp
  next
    case precommit
    from ev(2) [OF wp_run [OF on_precommit_spec [OF ok] precommit(2)] conn_typed_events(6)] show ?thesis .
  next
    case abort
    from ev(2) [OF wp_run [OF on_abort_spec [OF ok] abort(2)] conn_typed_events(5)] show ?thesis .
  next
    case forget_hooks
    have "avail h view (s\<lparr>HOOKS := []\<rparr>) = avail h view s"
      by (intro ext) (simp add: avail_def dir_of_def cong: option.case_cong)
    with t forget_hooks show ?thesis by (simp add: well_typed_def)
  qed
qed

lemma trace_typed: "trace h view P s s' \<Longrightarrow> BK s \<Longrightarrow> well_typed h view s \<Longrightarrow> well_typed h view s'"
  by (induction rule: trace.induct) (auto intro: step_typed trace_BK)

end

section \<open>A subtransaction that aborts\<close>

text \<open>
  \<open>sub_base\<close>: the connection is in a transaction whose savepoint stack has, above the savepoint
  of \<open>n\<close>, only savepoints of later subtransactions, and below it only those of earlier ones.
\<close>

definition later :: "u32 \<Rightarrow> (string \<times> tables) list \<Rightarrow> bool" where
  "later n sps \<longleftrightarrow> (\<forall>e \<in> set sps. \<exists>k > n. fst e = sp_name k)"

definition earlier :: "u32 \<Rightarrow> (string \<times> tables) list \<Rightarrow> bool" where
  "earlier n sps \<longleftrightarrow> (\<forall>e \<in> set sps. \<exists>k < n. fst e = sp_name k)"

definition sub_base :: "u32 \<Rightarrow> tables \<Rightarrow> tables \<Rightarrow> (string \<times> tables) list \<Rightarrow> dbconn \<Rightarrow> bool" where
  "sub_base n t0 tab sps0 d \<longleftrightarrow>
     (\<exists>sps. db_txn d = Some (t0, sps @ (sp_name n, tab) # sps0) \<and> later n sps)"

lemma pop_to_append:
  "pop_to m (sps @ rest) = (case pop_to m sps of Some (t, sps') \<Rightarrow> Some (t, sps' @ rest) | None \<Rightarrow> pop_to m rest)"
  by (induction m sps rule: pop_to.induct) auto

lemma pop_to_None: "(\<forall>e \<in> set sps. fst e \<noteq> m) \<Longrightarrow> pop_to m sps = None"
  by (induction m sps rule: pop_to.induct) auto

lemma pop_to_suffix: "pop_to m sps = Some (t, sps') \<Longrightarrow> \<exists>pre. sps = pre @ (m, t) # sps'"
proof (induction m sps rule: pop_to.induct)
  case (2 n m t0 sps)
  show ?case
  proof (cases "m = n")
    case True
    with 2(2) show ?thesis by (auto intro!: exI [of _ "[]"])
  next
    case False
    with 2 obtain pre where "sps = pre @ (n, t) # sps'" by auto
    then show ?thesis by (intro exI [of _ "(m, t0) # pre"]) simp
  qed
qed simp

lemma later_suffix: "later n (pre @ e # sps) \<Longrightarrow> later n sps" "later n (pre @ e # sps) \<Longrightarrow> later n (e # sps)"
  by (auto simp: later_def)

text \<open>What the events of a later subtransaction leave of the stack.\<close>

lemma pop_later:
  assumes "n < m" and "earlier n sps0" and "later n sps"
  shows "pop_to (sp_name m) (sps @ (sp_name n, tab) # sps0) =
    (case pop_to (sp_name m) sps of Some (t, sps') \<Rightarrow> Some (t, sps' @ (sp_name n, tab) # sps0) | None \<Rightarrow> None)"
proof -
  have "pop_to (sp_name m) ((sp_name n, tab) # sps0) = None"
    by (rule pop_to_None) (use assms(1,2) in \<open>auto simp: earlier_def sp_name_inj\<close>)
  then show ?thesis by (simp add: pop_to_append split: option.splits)
qed

lemma sub_base_events:
  assumes "n < m" and "earlier n sps0" and "sub_base n t0 tab sps0 d"
  shows "sub_base n t0 tab sps0 (savepointed (sp_name m) d)"
    and "sub_base n t0 tab sps0 (released (sp_name m) d)"
    and "sub_base n t0 tab sps0 (rolled_to (sp_name m) d)"
proof -
  obtain sps where d: "db_txn d = Some (t0, sps @ (sp_name n, tab) # sps0)" and l: "later n sps"
    using assms(3) by (auto simp: sub_base_def)
  have "later n ((sp_name m, db_tab d) # sps)" using l assms(1) by (auto simp: later_def)
  then show "sub_base n t0 tab sps0 (savepointed (sp_name m) d)"
    using d by (auto simp: sub_base_def savepointed_def begun_def intro!: exI [of _ "(sp_name m, db_tab d) # sps"])
  note pop = pop_later [OF assms(1,2) l, of tab]
  have suf: "later n sps'" "later n ((sp_name m, t) # sps')" if "pop_to (sp_name m) sps = Some (t, sps')" for t sps'
    using pop_to_suffix [OF that] l later_suffix by auto
  show "sub_base n t0 tab sps0 (released (sp_name m) d)"
    using d l suf(1) by (auto simp: sub_base_def released_def pop split: option.splits)
  show "sub_base n t0 tab sps0 (rolled_to (sp_name m) d)"
  proof (cases "pop_to (sp_name m) sps")
    case None
    then show ?thesis using d l by (auto simp: sub_base_def rolled_to_def pop)
  next
    case (Some p)
    obtain t sps' where p: "p = (t, sps')" by (cases p)
    show ?thesis
      using d suf(2) [OF Some [unfolded p]]
      by (auto simp: sub_base_def rolled_to_def pop Some p intro!: exI [of _ "(sp_name m, t) # sps'"])
  qed
qed

lemma sub_base_abort: "sub_base n t0 tab sps0 d \<Longrightarrow> db_tab (rolled_to (sp_name n) d) = tab"
proof -
  assume "sub_base n t0 tab sps0 d"
  then obtain sps where d: "db_txn d = Some (t0, sps @ (sp_name n, tab) # sps0)" and l: "later n sps"
    by (auto simp: sub_base_def)
  have "pop_to (sp_name n) sps = None"
    by (rule pop_to_None) (use l in \<open>auto simp: later_def sp_name_inj\<close>)
  then show ?thesis using d by (simp add: rolled_to_def pop_to_append)
qed

lemma begun_in_txn: "db_txn d \<noteq> None \<Longrightarrow> begun d = d"
  by (simp add: begun_def)

definition sub_inv where
  "sub_inv view rel n t0 tab sps0 s \<longleftrightarrow> rel \<in> TX_RELS s \<and>
     (\<exists>d. rel_db view s rel = Some d \<and> sub_base n t0 tab sps0 d)"

lemma mapped_TX: "mapped view up (TX_RELS s) g s s' \<Longrightarrow> rel \<in> TX_RELS s \<Longrightarrow> rel_db view s rel = Some d \<Longrightarrow>
    rel \<in> TX_RELS s' \<and> rel_db view s' rel = Some (g d)"
  by (simp add: mapped_def)

context sqlite_engine
begin

lemma sub_inv_data:
  assumes "BK s" and "step h view (Data r op) s s'" and I: "sub_inv view rel n t0 tab sps0 s"
  shows "sub_inv view rel n t0 tab sps0 s'"
proof -
  from I obtain d where d: "rel \<in> TX_RELS s" "rel_db view s rel = Some d" "sub_base n t0 tab sps0 d"
    by (auto simp: sub_inv_def)
  from data_step [OF assms(1,2)] obtain d1 d' where a: "avail h view s r d1" and d': "rel_db view s' r = Some d'"
    "db_txn d' = db_txn (begun d1) \<or> d' = d1" and fr: "op_frame h view up r s s'" by metis
  show ?thesis
  proof (cases "r = rel")
    case True
    then have "d1 = d" using a d(2) by (auto simp: avail_def rel_db_def split: option.splits)
    moreover have "begun d = d" using d(3) by (auto simp: sub_base_def begun_def)
    ultimately have "db_txn d' = db_txn d" using d'(2) by auto
    then show ?thesis using d d'(1) fr True by (auto simp: sub_inv_def sub_base_def op_frame_def)
  next
    case False
    then show ?thesis using d fr by (auto simp: sub_inv_def op_frame_def)
  qed
qed

lemma sub_inv_step:
  assumes st: "step h view l s s'" and l: "inside_sub n l" and ok: "BK s" and I: "sub_inv view rel n t0 tab sps0 s"
    and e: "earlier n sps0"
  shows "sub_inv view rel n t0 tab sps0 s'"
proof -
  from I obtain d where d: "rel \<in> TX_RELS s" "rel_db view s rel = Some d" "sub_base n t0 tab sps0 d"
    by (auto simp: sub_inv_def)
  from st show ?thesis
  proof (cases rule: step.cases)
    case (data r d op)
    then show ?thesis using sub_inv_data [OF ok _ I] st by simp
  next
    case (sub_start m)
    from mapped_TX [OF wp_run [OF on_sub_start_spec [OF ok] sub_start(2)] d(1,2)] l sub_start(1)
      sub_base_events(1) [OF _ e d(3)] show ?thesis by (auto simp: sub_inv_def)
  next
    case (sub_commit m)
    from mapped_TX [OF wp_run [OF on_sub_commit_spec [OF ok] sub_commit(2)] d(1,2)] l sub_commit(1)
      sub_base_events(2) [OF _ e d(3)] show ?thesis by (auto simp: sub_inv_def)
  next
    case (sub_abort m)
    from mapped_TX [OF wp_run [OF on_sub_abort_spec [OF ok] sub_abort(2)] d(1,2)] l sub_abort(1)
      sub_base_events(3) [OF _ e d(3)] show ?thesis by (auto simp: sub_inv_def)
  qed (use l in auto)
qed

lemma sub_inv_trace:
  "trace h view (inside_sub n) s s' \<Longrightarrow> BK s \<Longrightarrow> earlier n sps0 \<Longrightarrow> sub_inv view rel n t0 tab sps0 s \<Longrightarrow>
    sub_inv view rel n t0 tab sps0 s'"
  by (induction rule: trace.induct) (auto intro: sub_inv_step trace_BK)

end

section \<open>The transaction as a whole\<close>

text \<open>
  Along a transaction the committed tables of a relation do not change, and a relation whose
  SQLite transaction is open is one the hooks will reach.
\<close>

definition xact_inv where
  "xact_inv view rel tab s \<longleftrightarrow>
     (\<exists>d. rel_db view s rel = Some d \<and> committed d = tab \<and> \<not> (db_txn d \<noteq> None \<and> rel \<notin> TX_RELS s))"

lemma committed_events [simp]:
  "committed (begun d) = committed d" "committed (savepointed n d) = committed d"
  "committed (released n d) = committed d" "committed (rolled_to n d) = committed d"
  "committed (rolled_back d) = committed d" "committed (closed_txn d) = db_tab d"
  "db_tab (rolled_back d) = committed d" "db_txn (rolled_back d) = None" "db_txn (closed_txn d) = None"
  by (auto simp: committed_def begun_def savepointed_def released_def rolled_to_def rolled_back_def closed_txn_def
      split: option.splits)

lemma db_txn_events [simp]:
  "db_txn (released n d) = None \<longleftrightarrow> db_txn d = None" "db_txn (rolled_to n d) = None \<longleftrightarrow> db_txn d = None"
  by (auto simp: released_def rolled_to_def split: option.splits)

lemma mapped_rel_db:
  "mapped view up R g s s' \<Longrightarrow> rel_db view s rel = Some d \<Longrightarrow>
    rel_db view s' rel = Some (if rel \<in> R then g d else d) \<and> TX_RELS s' = TX_RELS s"
  by (simp add: mapped_def)

lemma on_disk:
  "backend_ok view up s \<Longrightarrow> rel_db view s rel = Some d \<Longrightarrow> e_files (view (World s)) (db_path d) = Some (committed d)"
  using rel_db_Some [of view up s rel d] by (auto simp: conn_ok_def)

context sqlite_engine
begin

lemma xact_inv_data:
  assumes "BK s" and "step h view (Data r op) s s'" and I: "xact_inv view rel tab s"
  shows "xact_inv view rel tab s'"
proof -
  from I obtain d where d: "rel_db view s rel = Some d" "committed d = tab" "\<not> (db_txn d \<noteq> None \<and> rel \<notin> TX_RELS s)"
    by (auto simp: xact_inv_def)
  from data_step [OF assms(1,2)] obtain d1 d' where a: "avail h view s r d1" and d': "rel_db view s' r = Some d'"
    "db_txn d' = db_txn (begun d1) \<or> d' = d1" and fr: "op_frame h view up r s s'" by metis
  show ?thesis
  proof (cases "r = rel")
    case True
    then have "d1 = d" using a d(1) by (auto simp: avail_def rel_db_def split: option.splits)
    moreover from this have "committed d' = committed d"
      using d'(2) by (auto simp: committed_def begun_def split: option.splits if_splits)
    ultimately show ?thesis using d d'(1) fr True by (auto simp: xact_inv_def op_frame_def)
  next
    case False
    then show ?thesis using d fr by (auto simp: xact_inv_def op_frame_def)
  qed
qed

lemma xact_inv_step:
  assumes st: "step h view l s s'" and l: "in_xact l" and ok: "BK s" and I: "xact_inv view rel tab s"
  shows "xact_inv view rel tab s'"
proof -
  from I obtain d where d: "rel_db view s rel = Some d" "committed d = tab" "\<not> (db_txn d \<noteq> None \<and> rel \<notin> TX_RELS s)"
    by (auto simp: xact_inv_def)
  from st show ?thesis
  proof (cases rule: step.cases)
    case (data r d op)
    then show ?thesis using xact_inv_data [OF ok _ I] st by simp
  next
    case (sub_start m)
    from mapped_rel_db [OF wp_run [OF on_sub_start_spec [OF ok] sub_start(2)] d(1)] d(2,3)
    show ?thesis by (auto simp: xact_inv_def)
  next
    case (sub_commit m)
    from mapped_rel_db [OF wp_run [OF on_sub_commit_spec [OF ok] sub_commit(2)] d(1)] d(2,3)
    show ?thesis by (auto simp: xact_inv_def)
  next
    case (sub_abort m)
    from mapped_rel_db [OF wp_run [OF on_sub_abort_spec [OF ok] sub_abort(2)] d(1)] d(2,3)
    show ?thesis by (auto simp: xact_inv_def)
  qed (use l in auto)
qed

lemma xact_inv_trace:
  "trace h view in_xact s s' \<Longrightarrow> BK s \<Longrightarrow> xact_inv view rel tab s \<Longrightarrow> xact_inv view rel tab s'"
  by (induction rule: trace.induct) (auto intro: xact_inv_step trace_BK)

end

section \<open>What the operations of one command change for a snapshot\<close>

fun op_by :: "u32 \<Rightarrow> (u32 \<Rightarrow> bool) \<Rightarrow> row_op \<Rightarrow> bool" where
  "op_by x C (OpInsert y c b) \<longleftrightarrow> y = x \<and> C c"
| "op_by x C (OpBatch y c bs) \<longleftrightarrow> y = x \<and> C c"
| "op_by x C (OpStamp rid y c) \<longleftrightarrow> y = x \<and> C c"
| "op_by x C (OpUpdate rid y c b) \<longleftrightarrow> y = x \<and> C c"
| "op_by x C (OpMeta k v) \<longleftrightarrow> True"
| "op_by x C OpRead \<longleftrightarrow> True"
| "op_by x C _ \<longleftrightarrow> False"

lemma seen_stamp_unseen:
  "rows_ok rs \<Longrightarrow> x \<noteq> 0 \<Longrightarrow> \<not> sees pg snap x c \<Longrightarrow>
    seen_table pg snap (rows_stamp (sint x) (sint c) rid rs) = seen_table pg snap rs"
  by (cases "live_row rid rs") (simp_all add: seen_stamp stamp_dead_rid)

lemma unseen_effect:
  assumes "rows_ok (storage t)" and "x \<noteq> 0" and "op_by x C op" and "\<And>c. C c \<Longrightarrow> \<not> sees pg snap x c"
  shows "seen_table pg snap (storage (op_effect op t)) = seen_table pg snap (storage t)"
  using assms by (cases op) (auto simp: seen_insert seen_batch seen_stamp_unseen)

lemma unseen_effects:
  assumes "rows_ok (storage t)" and "x \<noteq> 0" and "\<forall>op \<in> set ops. op_by x C op"
    and "\<And>c. C c \<Longrightarrow> \<not> sees pg snap x c"
  shows "seen_table pg snap (storage (fold op_effect ops t)) = seen_table pg snap (storage t)"
  using assms(1,3)
proof (induction ops arbitrary: t)
  case (Cons op ops)
  then have "seen_table pg snap (storage (op_effect op t)) = seen_table pg snap (storage t)"
    by (intro unseen_effect [OF _ assms(2) _ assms(4)]) auto
  with Cons rows_ok_effect [of t op] show ?case by simp
qed simp

section \<open>A transaction flag that outlived its transaction\<close>

text \<open>
  SQLite may roll a transaction back on its own; \<open>in_txn\<close> is then still set, while the
  connection is in autocommit mode. The next statement sends no \<open>BEGIN\<close> and commits by
  itself, and the \<open>ROLLBACK\<close> of the abort hook finds nothing to undo.
\<close>

context sqlite_engine
begin

lemma stale_clear:
  assumes up: "up (World s)" and c: "CONNS s rel = Some c" "in_txn c"
    and d: "e_dbs (view (World s)) (rc_db c) = Some d" "db_txn d = None" "has_tables (db_tab d)"
  defines "d' \<equiv> d\<lparr>db_tab := (db_tab d)\<lparr>storage := []\<rparr>\<rparr>"
  shows "wp (reset h rel) (\<lambda>_ s'. up (World s') \<and> CONNS s' rel = Some c \<and> TX_RELS s' = insert rel (TX_RELS s) \<and>
    e_dbs (view (World s')) (rc_db c) = Some d' \<and> e_files (view (World s')) (db_path d) = Some (db_tab d')) s"
proof -
  have e: "ensure_in_xact h rel s = Some (Ok (), entered rel s)"
    using wp_ensure_cached [OF c(1), of h] by (auto simp: wp_def)
  have x: "eng_exec (rc_db c) X_clear (view (World s)) = Some (put_conn (rc_db c) d' (view (World s)))"
    using d by (simp add: eng_exec_def d'_def)
  note ok = exec_ok [OF up _ x, of "''DELETE FROM storage;''"]
  have "wp (on_conn rel (seqE (begin_if_needed h) (exec h ''DELETE FROM storage;'')))
      (\<lambda>_ s'. up (World s') \<and> CONNS s' rel = Some c \<and> TX_RELS s' = insert rel (TX_RELS s) \<and>
    e_dbs (view (World s')) (rc_db c) = Some d' \<and> e_files (view (World s')) (db_path d) = Some (db_tab d')) (entered rel s)"
    by (rule wp_on_conn [where c = c])
      (use c d ok in \<open>auto simp: entered_def begin_if_needed_def exec_def try_exec_def conn_prog_defs wp_rules put_conn_def d'_def\<close>)
  then show ?thesis by (simp add: reset_def with_conn_def wp_seqE) (simp add: wp_def e)
qed

lemma stale_abort:
  assumes up: "up (World s)" and c: "CONNS s rel = Some c" "in_txn c" and tx: "TX_RELS s = {rel}"
    and d: "e_dbs (view (World s)) (rc_db c) = Some d" "db_txn d = None"
  shows "wp (on_abort h) (\<lambda>_ s'. TX_RELS s' = {} \<and> e_files (view (World s')) = e_files (view (World s))) s"
proof -
  have it: "hash_iter h {rel} = [rel]"
  proof -
    have "set (hash_iter h {rel}) = {rel}" "distinct (hash_iter h {rel})" using hash_iter_ok by simp_all
    then show ?thesis by (cases "hash_iter h {rel}"; cases "tl (hash_iter h {rel})") auto
  qed
  let ?s = "s\<lparr>TX_RELS := {}\<rparr>" and ?w = "snd (sqlite3_exec h (rc_db c) ''ROLLBACK'' (World s))"
  have err: "fst (fst (sqlite3_exec h (rc_db c) ''ROLLBACK'' (World s))) \<noteq> SQLITE_OK" "view ?w = view (World s)" "up ?w"
    using exec_err [OF up _ d(1), of "''ROLLBACK''" X_rollback] d(2) by auto
  have "wp (on_conn rel (rollback h)) (\<lambda>_ s'. TX_RELS s' = {} \<and> e_files (view (World s')) = e_files (view (World s))) ?s"
    by (rule wp_on_conn [where c = c])
      (use c err warning_ok [OF err(3)] in \<open>auto simp: rollback_def try_exec_def conn_prog_defs wp_rules\<close>)
  then show ?thesis using c by (simp add: on_abort_def take_and_run_def wp_rules tx it)
qed

end

end
