(* ===== verification/Xact_Spec.thy ===== *)
theory Xact_Spec
  imports Xact_Trace
begin

text \<open>
  The transactional store the code is meant to be, as a machine on whole tables, and the
  refinement: running a script of row operations and transaction events through the hooks does
  to the files and connections what the machine does to its tables.
\<close>

section \<open>The machine\<close>

text \<open>
  \<open>base\<close> holds the committed tables of every relation and \<open>work\<close> what the transaction sees;
  \<open>subs\<close> are the open subtransactions, innermost first, with the tables at their start. \<open>touched\<close>
  and \<open>hooked\<close> say which relations the transaction has used and whether it has hooks; \<open>last_sub\<close> is
  the largest subtransaction number so far.
\<close>

record store =
  base :: "u32 \<Rightarrow> tables"
  work :: "u32 \<Rightarrow> tables"
  subs :: "(u32 \<times> (u32 \<Rightarrow> tables)) list"
  touched :: "u32 set"
  hooked :: bool
  last_sub :: u32

text \<open>
  A step of the machine, or \<open>None\<close> where the refinement is not claimed: an operation on a relation
  first used inside a subtransaction, or outside a transaction's hooks; a subtransaction that is
  not the innermost, or not numbered upwards; a commit with subtransactions open.
\<close>

fun spec_step :: "label \<Rightarrow> store \<Rightarrow> store option" where
  "spec_step (Data rel op) \<sigma> =
     (if (rel \<in> touched \<sigma> \<or> subs \<sigma> = []) \<and> hooked \<sigma> = (touched \<sigma> \<noteq> {}) \<and> has_tables (work \<sigma> rel) \<and> op_ready op (work \<sigma> rel)
      then Some (\<sigma>\<lparr>work := (work \<sigma>)(rel := op_effect op (work \<sigma> rel)), touched := insert rel (touched \<sigma>), hooked := True\<rparr>)
      else None)"
| "spec_step (Ev (StartSub n)) \<sigma> =
     (if last_sub \<sigma> < n then Some (\<sigma>\<lparr>subs := (n, work \<sigma>) # subs \<sigma>, last_sub := n\<rparr>) else None)"
| "spec_step (Ev (CommitSub n)) \<sigma> =
     (case subs \<sigma> of [] \<Rightarrow> None | (m, W) # rest \<Rightarrow> if m = n then Some (\<sigma>\<lparr>subs := rest\<rparr>) else None)"
| "spec_step (Ev (AbortSub n)) \<sigma> =
     (case subs \<sigma> of [] \<Rightarrow> None | (m, W) # rest \<Rightarrow> if m = n then Some (\<sigma>\<lparr>subs := rest, work := W\<rparr>) else None)"
| "spec_step (Ev PreCommit) \<sigma> =
     (if subs \<sigma> = [] then Some (\<sigma>\<lparr>base := work \<sigma>, touched := {}, last_sub := 0\<rparr>) else None)"
| "spec_step (Ev Commit) \<sigma> = (if touched \<sigma> = {} then Some (\<sigma>\<lparr>hooked := False\<rparr>) else None)"
| "spec_step (Ev Abort) \<sigma> =
     Some (\<sigma>\<lparr>work := base \<sigma>, subs := [], touched := {}, hooked := False, last_sub := 0\<rparr>)"

fun spec_run :: "label list \<Rightarrow> store \<Rightarrow> store option" where
  "spec_run [] \<sigma> = Some \<sigma>"
| "spec_run (l # ls) \<sigma> = (case spec_step l \<sigma> of None \<Rightarrow> None | Some \<sigma>' \<Rightarrow> spec_run ls \<sigma>')"

section \<open>The program\<close>

text \<open>
  An event calls the closures registered for it, in order; the end of the transaction also
  forgets all of them.
\<close>

definition fire :: "'w host \<Rightarrow> xevent \<Rightarrow> ('w backend, unit) prog" where
  "fire h e = bindE (getE HOOKS) (\<lambda>hs. seqE (forE hs (run_hook h e))
     (if e = Commit \<or> e = Abort then modE (\<lambda>s. s\<lparr>HOOKS := []\<rparr>) else ret ()))"

fun run_label :: "'w host \<Rightarrow> label \<Rightarrow> ('w backend, unit) prog" where
  "run_label h (Data rel op) = run_op h rel op"
| "run_label h (Ev e) = fire h e"

section \<open>The refinement relation\<close>

definition frames :: "dbconn \<Rightarrow> (string \<times> tables) list" where
  "frames d = (case db_txn d of None \<Rightarrow> [] | Some (_, sps) \<Rightarrow> sps)"

definition open_names :: "(u32 \<times> (u32 \<Rightarrow> tables)) list \<Rightarrow> string set" where
  "open_names ss = sp_name ` fst ` set ss"

text \<open>
  The savepoints of a relation in use: those of open subtransactions hold the relation's tables
  at their start. A rolled-back subtransaction leaves its savepoint behind, which is skipped.
\<close>

definition stack_ok :: "store \<Rightarrow> u32 \<Rightarrow> dbconn \<Rightarrow> bool" where
  "stack_ok \<sigma> rel d \<longleftrightarrow>
     filter (\<lambda>e. fst e \<in> open_names (subs \<sigma>)) (frames d) = map (\<lambda>e. (sp_name (fst e), snd e rel)) (subs \<sigma>) \<and>
     fst ` set (frames d) \<subseteq> sp_name ` {..last_sub \<sigma>}"

definition rel_sim :: "'w host \<Rightarrow> ('w \<Rightarrow> eng) \<Rightarrow> store \<Rightarrow> 'w backend \<Rightarrow> u32 \<Rightarrow> dbconn \<Rightarrow> bool" where
  "rel_sim h view \<sigma> s rel d \<longleftrightarrow> avail h view s rel d \<and> db_tab d = work \<sigma> rel \<and> committed d = base \<sigma> rel \<and>
     (if rel \<in> touched \<sigma> then rel_db view s rel = Some d \<and> stack_ok \<sigma> rel d
      else db_txn d = None \<and> snd ` set (subs \<sigma>) \<subseteq> {W. W rel = work \<sigma> rel})"

definition refines :: "'w host \<Rightarrow> ('w \<Rightarrow> eng) \<Rightarrow> ('w \<Rightarrow> bool) \<Rightarrow> u32 set \<Rightarrow> store \<Rightarrow> 'w backend \<Rightarrow> bool" where
  "refines h view up R \<sigma> s \<longleftrightarrow> backend_ok view up s \<and> TX_RELS s = touched \<sigma> \<and>
     HOOKS s = (if hooked \<sigma> then all_hooks else []) \<and> (touched \<sigma> \<noteq> {} \<longrightarrow> hooked \<sigma>) \<and>
     distinct (map fst (subs \<sigma>)) \<and> fst ` set (subs \<sigma>) \<subseteq> {..last_sub \<sigma>} \<and>
     touched \<sigma> \<subseteq> R \<and> (\<forall>rel \<in> R. \<exists>d. rel_sim h view \<sigma> s rel d)"


section \<open>Savepoint stacks\<close>

lemma frames_simps [simp]:
  "frames (begun d) = frames d" "frames (rolled_back d) = []" "frames (closed_txn d) = []"
  "frames (savepointed n d) = (n, db_tab d) # frames d"
  by (auto simp: frames_def begun_def rolled_back_def closed_txn_def savepointed_def split: option.splits)

lemma frames_pop:
  assumes "pop_to n (frames d) = Some (t, sps)"
  shows "frames (released n d) = sps" "db_tab (released n d) = db_tab d"
    "frames (rolled_to n d) = (n, t) # sps" "db_tab (rolled_to n d) = t"
  using assms by (auto simp: frames_def released_def rolled_to_def split: option.splits)

lemma filter_pop:
  assumes "filter (\<lambda>e. fst e \<in> insert a N) sps = (a, t) # fs" and "a \<notin> N" and "a \<notin> fst ` set fs"
  obtains sps' where "pop_to a sps = Some (t, sps')" "filter (\<lambda>e. fst e \<in> N) sps' = fs" "set sps' \<subseteq> set sps"
  using assms
proof (induction sps arbitrary: thesis)
  case (Cons e sps)
  show ?case
  proof (cases "fst e \<in> insert a N")
    case True
    then have e: "e = (a, t)" and f: "filter (\<lambda>e. fst e \<in> insert a N) sps = fs" using Cons.prems(2) by auto
    have "filter (\<lambda>e. fst e \<in> N) sps = filter (\<lambda>e. fst e \<in> N) fs"
      unfolding f [symmetric] by (simp add: conj_commute) (rule filter_cong, auto)
    also have "\<dots> = fs"
    proof (rule filter_True, rule ballI)
      fix x assume "x \<in> set fs"
      then have "x \<in> set (filter (\<lambda>e. fst e \<in> insert a N) sps)" "fst x \<noteq> a" using f Cons.prems(4) by auto
      then show "fst x \<in> N" by auto
    qed
    finally show ?thesis using Cons.prems(1) [of sps] e by auto
  next
    case False
    then have "filter (\<lambda>e. fst e \<in> insert a N) sps = (a, t) # fs" using Cons.prems(2) by simp
    from Cons.IH [OF _ this Cons.prems(3,4)] obtain sps' where
      "pop_to a sps = Some (t, sps')" "filter (\<lambda>e. fst e \<in> N) sps' = fs" "set sps' \<subseteq> set sps" by blast
    with False Cons.prems(1) [of sps'] show ?thesis by (cases e) auto
  qed
qed simp

lemma open_names_simps [simp]: "open_names [] = {}" "open_names (e # ss) = insert (sp_name (fst e)) (open_names ss)"
  by (simp_all add: open_names_def)

lemma open_names_fresh: "n \<notin> fst ` set ss \<Longrightarrow> sp_name n \<notin> open_names ss"
  by (simp add: open_names_def image_iff sp_name_inj)

text \<open>The savepoint of the innermost open subtransaction is found, with the tables at its start.\<close>

lemma stack_pop:
  assumes "stack_ok \<sigma> rel d" and "subs \<sigma> = (n, W) # rest" and "n \<notin> fst ` set rest"
  obtains sps where "pop_to (sp_name n) (frames d) = Some (W rel, sps)" "set sps \<subseteq> set (frames d)"
    "filter (\<lambda>e. fst e \<in> open_names rest) sps = map (\<lambda>e. (sp_name (fst e), snd e rel)) rest"
proof -
  have f: "filter (\<lambda>e. fst e \<in> insert (sp_name n) (open_names rest)) (frames d) =
      (sp_name n, W rel) # map (\<lambda>e. (sp_name (fst e), snd e rel)) rest"
    using assms(1,2) by (simp add: stack_ok_def)
  have "sp_name n \<notin> fst ` set (map (\<lambda>e. (sp_name (fst e), snd e rel)) rest)"
    using assms(3) by (force simp: sp_name_inj)
  from filter_pop [OF f open_names_fresh [OF assms(3)] this] show ?thesis by (blast intro: that)
qed

lemma stack_start:
  assumes "stack_ok \<sigma> rel d" and "last_sub \<sigma> < n" and "db_tab d = work \<sigma> rel"
  shows "stack_ok (\<sigma>\<lparr>subs := (n, work \<sigma>) # subs \<sigma>, last_sub := n\<rparr>) rel (savepointed (sp_name n) d)"
proof -
  have k: "fst e \<in> sp_name ` {..last_sub \<sigma>}" if "e \<in> set (frames d)" for e
    using that assms(1) by (auto simp: stack_ok_def)
  have "filter (\<lambda>e. fst e \<in> insert (sp_name n) (open_names (subs \<sigma>))) (frames d) =
      filter (\<lambda>e. fst e \<in> open_names (subs \<sigma>)) (frames d)"
    by (rule filter_cong) (use k assms(2) in \<open>force simp: sp_name_inj\<close>)+
  moreover have "fst e \<in> sp_name ` {..n}" if "e \<in> set (frames d)" for e
    using k [OF that] assms(2) by auto
  ultimately show ?thesis using assms(1,3) by (auto simp: stack_ok_def)
qed

lemma stack_end:
  assumes "stack_ok \<sigma> rel d" and "subs \<sigma> = (n, W) # rest" and "n \<notin> fst ` set rest" and "n \<le> last_sub \<sigma>"
  shows "stack_ok (\<sigma>\<lparr>subs := rest\<rparr>) rel (released (sp_name n) d)"
    and "stack_ok (\<sigma>\<lparr>subs := rest, work := W\<rparr>) rel (rolled_to (sp_name n) d)"
    and "db_tab (released (sp_name n) d) = db_tab d" and "db_tab (rolled_to (sp_name n) d) = W rel"
proof -
  from stack_pop [OF assms(1-3)] obtain sps where sps: "pop_to (sp_name n) (frames d) = Some (W rel, sps)"
    "set sps \<subseteq> set (frames d)" "filter (\<lambda>e. fst e \<in> open_names rest) sps = map (\<lambda>e. (sp_name (fst e), snd e rel)) rest" .
  note f = frames_pop [OF sps(1)]
  have k: "fst ` set sps \<subseteq> sp_name ` {..last_sub \<sigma>}"
    using sps(2) assms(1) by (auto simp: stack_ok_def)
  show "stack_ok (\<sigma>\<lparr>subs := rest\<rparr>) rel (released (sp_name n) d)"
    "stack_ok (\<sigma>\<lparr>subs := rest, work := W\<rparr>) rel (rolled_to (sp_name n) d)"
    using f sps(3) k assms(4) open_names_fresh [OF assms(3)] by (auto simp: stack_ok_def)
  show "db_tab (released (sp_name n) d) = db_tab d" "db_tab (rolled_to (sp_name n) d) = W rel" using f by simp_all
qed


section \<open>Simulation\<close>

lemma rel_db_avail_iff: "rel_db view s rel = Some d \<Longrightarrow> avail h view s rel d' \<longleftrightarrow> d' = d"
  by (auto simp: rel_db_def avail_def split: option.splits)

lemma mapped_avail_other:
  assumes ok: "backend_ok view up s" and M: "mapped view up R g s s'" and r: "rel \<notin> R"
  shows "avail h view s' rel = avail h view s rel"
proof (cases "CONNS s rel")
  case (Some c)
  from backend_ok_D [OF ok Some] obtain d dir where "conn_ok (view (World s)) c d" .
  then have "rel_db view s rel = Some d" using Some by (simp add: rel_db_def conn_ok_def)
  moreover from this have "rel_db view s' rel = Some d" using M r by (simp add: mapped_def)
  ultimately show ?thesis by (simp add: fun_eq_iff rel_db_avail_iff)
qed (rule mapped_avail [OF M])

lemma rel_sim_untouched: "rel_sim h view \<sigma> s rel d \<Longrightarrow> rel \<notin> touched \<sigma> \<Longrightarrow> work \<sigma> rel = base \<sigma> rel"
  by (auto simp: rel_sim_def committed_def)

lemma avail_fewer_rels: "T \<subseteq> TX_RELS s \<Longrightarrow> avail h view s rel d \<Longrightarrow> avail h view (s\<lparr>TX_RELS := T\<rparr>) rel d"
  by (auto simp: avail_def dir_of_def Let_def split: option.splits)

text \<open>
  An event maps the connections of the relations in use by \<open>g\<close> and may end the transaction (\<open>T\<close>
  empty): it is enough to look at one connection in use, and at one that is not.
\<close>

lemma sim_mapped:
  assumes S: "refines h view up R \<sigma> s" and M: "mapped view up (touched \<sigma>) g (s\<lparr>TX_RELS := T\<rparr>) s'"
    and T: "T \<subseteq> touched \<sigma>" "touched \<sigma>' = T"
    and on: "\<And>rel d. rel \<in> touched \<sigma> \<Longrightarrow> stack_ok \<sigma> rel d \<Longrightarrow> db_tab d = work \<sigma> rel \<Longrightarrow> committed d = base \<sigma> rel \<Longrightarrow>
      db_tab (g d) = work \<sigma>' rel \<and> committed (g d) = base \<sigma>' rel \<and>
      (if rel \<in> T then stack_ok \<sigma>' rel (g d) else db_txn (g d) = None \<and> subs \<sigma>' = [])"
    and off: "\<And>rel. rel \<notin> touched \<sigma> \<Longrightarrow> work \<sigma> rel = base \<sigma> rel \<Longrightarrow> snd ` set (subs \<sigma>) \<subseteq> {W. W rel = work \<sigma> rel} \<Longrightarrow>
      work \<sigma>' rel = work \<sigma> rel \<and> base \<sigma>' rel = base \<sigma> rel \<and> snd ` set (subs \<sigma>') \<subseteq> {W. W rel = work \<sigma> rel}"
  shows "\<forall>rel \<in> R. \<exists>d. rel_sim h view \<sigma>' s' rel d"
proof
  fix rel assume "rel \<in> R"
  then obtain d where d: "rel_sim h view \<sigma> s rel d" using S unfolding refines_def by blast
  have ok: "backend_ok view up (s\<lparr>TX_RELS := T\<rparr>)" using S by (simp add: refines_def backend_ok_def)
  have tx: "TX_RELS s = touched \<sigma>" using S by (simp add: refines_def)
  show "\<exists>d. rel_sim h view \<sigma>' s' rel d"
  proof (cases "rel \<in> touched \<sigma>")
    case True
    with d have db: "rel_db view s rel = Some d" and st: "stack_ok \<sigma> rel d" and t: "db_tab d = work \<sigma> rel" "committed d = base \<sigma> rel"
      by (auto simp: rel_sim_def)
    have "rel_db view (s\<lparr>TX_RELS := T\<rparr>) rel = Some d" using db by (simp add: rel_db_def split: option.splits)
    then have "rel_db view s' rel = Some (g d)" using M True by (simp add: mapped_def)
    then show ?thesis using on [OF True st t] rel_db_avail T by (intro exI [of _ "g d"]) (auto simp: rel_sim_def)
  next
    case False
    with d have n: "db_txn d = None" "snd ` set (subs \<sigma>) \<subseteq> {W. W rel = work \<sigma> rel}" and a: "avail h view s rel d"
      by (auto simp: rel_sim_def)
    have "avail h view s' rel d"
      using mapped_avail_other [OF ok M False] avail_fewer_rels [OF T(1) [folded tx] a] by simp
    then show ?thesis
      using off [OF False rel_sim_untouched [OF d False] n(2)] d False n T by (intro exI [of _ d]) (auto simp: rel_sim_def)
  qed
qed

text \<open>The closures of a transaction, called for an event.\<close>

lemma fire_hooks:
  assumes "HOOKS s = all_hooks"
  shows "wp (fire h (StartSub n)) Q s = wp (on_sub_start h n) Q s"
    "wp (fire h (CommitSub n)) Q s = wp (on_sub_commit h n) Q s"
    "wp (fire h (AbortSub n)) Q s = wp (on_sub_abort h n) Q s"
    "wp (fire h PreCommit) Q s = wp (on_precommit h) Q s"
    "wp (fire h Commit) Q s = Q () (s\<lparr>HOOKS := []\<rparr>)"
    "wp (fire h Abort) Q s = wp (on_abort h) (\<lambda>_ s'. Q () (s'\<lparr>HOOKS := []\<rparr>)) s"
  using assms by (simp_all add: fire_def wp_rules all_hooks_def)

lemma fire_no_hooks:
  assumes "HOOKS s = []" shows "wp (fire h e) Q s = Q () s"
  using assms by (cases s) (simp add: fire_def wp_rules)


lemma avail_hooks [simp]: "avail h view (s\<lparr>HOOKS := hs\<rparr>) = avail h view s" "rel_db view (s\<lparr>HOOKS := hs\<rparr>) = rel_db view s"
  by (auto simp: avail_def rel_db_def dir_of_def fun_eq_iff split: option.splits)

lemma stack_ok_hooked [simp]: "stack_ok (\<sigma>\<lparr>hooked := b\<rparr>) = stack_ok \<sigma>"
  by (simp add: stack_ok_def fun_eq_iff)

lemma rel_sim_hooked [simp]:
  "rel_sim h view (\<sigma>\<lparr>hooked := b\<rparr>) s = rel_sim h view \<sigma> s" "rel_sim h view \<sigma> (s\<lparr>HOOKS := hs\<rparr>) = rel_sim h view \<sigma> s"
  by (simp_all add: rel_sim_def stack_ok_def fun_eq_iff)

lemma subs_step:
  assumes "spec_step l \<sigma> = Some \<sigma>'" and "distinct (map fst (subs \<sigma>))" and "fst ` set (subs \<sigma>) \<subseteq> {..last_sub \<sigma>}"
  shows "distinct (map fst (subs \<sigma>')) \<and> fst ` set (subs \<sigma>') \<subseteq> {..last_sub \<sigma>'}"
proof -
  have "n \<notin> fst ` set (subs \<sigma>)" "fst ` set (subs \<sigma>) \<subseteq> {..n}" if "last_sub \<sigma> < n" for n
    using assms(3) that by force+
  with assms show ?thesis by (cases "(l, \<sigma>)" rule: spec_step.cases) (auto split: if_splits list.splits del: subsetI)
qed

text \<open>Outside the touched relations a machine state without hooks has nothing to do.\<close>

lemma event_sim:
  assumes S: "refines h view up R \<sigma> s" and st: "spec_step (Ev e) \<sigma> = Some \<sigma>'" and n: "\<not> hooked \<sigma>"
  shows "refines h view up R \<sigma>' s"
proof -
  have t: "touched \<sigma> = {}" using S n by (auto simp: refines_def)
  have r: "\<forall>rel \<in> R. \<exists>d. rel_sim h view \<sigma> s rel d" and g: "backend_ok view up s" "TX_RELS s = {}" "HOOKS s = []"
    "distinct (map fst (subs \<sigma>))" "fst ` set (subs \<sigma>) \<subseteq> {..last_sub \<sigma>}"
    using S n t by (simp_all add: refines_def)
  have "rel_sim h view \<sigma>' s rel d" if "rel_sim h view \<sigma> s rel d" for rel d
    using that st t rel_sim_untouched [OF that]
    by (cases e) (auto simp: rel_sim_def split: if_splits list.splits del: subsetI)
  with r have "\<forall>rel \<in> R. \<exists>d. rel_sim h view \<sigma>' s rel d" by blast
  moreover have "touched \<sigma>' = {}" "\<not> hooked \<sigma>'" "distinct (map fst (subs \<sigma>'))" "fst ` set (subs \<sigma>') \<subseteq> {..last_sub \<sigma>'}"
    using st t n subs_step [OF st g(4,5)] by (cases e; auto split: if_splits list.splits)+
  ultimately show ?thesis using g by (simp add: refines_def)
qed

context sqlite_engine
begin

lemma data_sim:
  assumes S: "refines h view up R \<sigma> s" and st: "spec_step (Data rel op) \<sigma> = Some \<sigma>'" and r: "rel \<in> R"
  shows "wp (run_op h rel op) (\<lambda>_. refines h view up R \<sigma>') s"
proof -
  from st have g: "rel \<in> touched \<sigma> \<or> subs \<sigma> = []" "hooked \<sigma> = (touched \<sigma> \<noteq> {})" "has_tables (work \<sigma> rel)"
    "op_ready op (work \<sigma> rel)"
    and \<sigma>': "\<sigma>' = \<sigma>\<lparr>work := (work \<sigma>)(rel := op_effect op (work \<sigma> rel)), touched := insert rel (touched \<sigma>), hooked := True\<rparr>"
    by (auto split: if_splits)
  have ok: "BK s" and s: "TX_RELS s = touched \<sigma>" "HOOKS s = (if hooked \<sigma> then all_hooks else [])"
    using S by (simp_all add: refines_def)
  obtain d where d: "rel_sim h view \<sigma> s rel d" using S r unfolding refines_def by blast
  then have a: "avail h view s rel d" "db_tab d = work \<sigma> rel" "committed d = base \<sigma> rel" by (auto simp: rel_sim_def)
  show ?thesis
  proof (rule wp_mono [OF run_op_spec [OF ok a(1)]], simp add: a g, simp add: a g, elim exE conjE)
    fix s' d' assume db: "rel_db view s' rel = Some d'" and t: "db_tab d' = op_effect op (db_tab d)"
      and tx: "db_txn d' = db_txn (begun d) \<or> d' = d" and fr: "op_frame h view up rel s s'"
    have f: "frames d' = frames d" "committed d' = committed d"
      using tx by (auto simp: frames_def committed_def begun_def split: option.splits if_splits)
    have "stack_ok \<sigma>' rel d'"
      using d g(1) f by (cases "rel \<in> touched \<sigma>") (auto simp: rel_sim_def stack_ok_def \<sigma>' frames_def)
    then have "rel_sim h view \<sigma>' s' rel d'"
      using db rel_db_avail [OF db, of h] f t a by (simp add: rel_sim_def \<sigma>')
    moreover have "rel_sim h view \<sigma>' s' r d1" if "r \<noteq> rel" "rel_sim h view \<sigma> s r d1" for r d1
      using that fr by (auto simp: rel_sim_def op_frame_def \<sigma>' stack_ok_def del: subsetI)
    ultimately have "\<forall>r \<in> R. \<exists>d. rel_sim h view \<sigma>' s' r d" using S unfolding refines_def by metis
    then show "refines h view up R \<sigma>' s'"
      using S fr g(2) r s by (auto simp: refines_def op_frame_def entered_hooks_def \<sigma>')
  qed
qed

text \<open>The events of a transaction that has hooks.\<close>

lemma event_mapped:
  assumes S: "refines h view up R \<sigma> s" and st: "spec_step (Ev e) \<sigma> = Some \<sigma>'" and hk: "hooked \<sigma>"
    and m: "wp m (\<lambda>_. mapped view up (TX_RELS s) g (s\<lparr>TX_RELS := T\<rparr>)) s"
    and T: "T \<subseteq> touched \<sigma>" "touched \<sigma>' = T"
    and on: "\<And>rel d. rel \<in> touched \<sigma> \<Longrightarrow> stack_ok \<sigma> rel d \<Longrightarrow> db_tab d = work \<sigma> rel \<Longrightarrow> committed d = base \<sigma> rel \<Longrightarrow>
      db_tab (g d) = work \<sigma>' rel \<and> committed (g d) = base \<sigma>' rel \<and>
      (if rel \<in> T then stack_ok \<sigma>' rel (g d) else db_txn (g d) = None \<and> subs \<sigma>' = [])"
  shows "wp m (\<lambda>_. refines h view up R (\<sigma>'\<lparr>hooked := True\<rparr>)) s"
proof (rule wp_mono [OF m])
  fix s' assume M: "mapped view up (TX_RELS s) g (s\<lparr>TX_RELS := T\<rparr>) s'"
  have tx: "TX_RELS s = touched \<sigma>" "HOOKS s = all_hooks" and sub: "distinct (map fst (subs \<sigma>))" "fst ` set (subs \<sigma>) \<subseteq> {..last_sub \<sigma>}"
    using S hk by (simp_all add: refines_def)
  have "\<forall>rel \<in> R. \<exists>d. rel_sim h view \<sigma>' s' rel d"
    by (rule sim_mapped [OF S M [unfolded tx] T on])
      (use st in \<open>cases e; auto split: if_splits list.splits del: subsetI\<close>)+
  then have "\<forall>rel \<in> R. \<exists>d. rel_sim h view (\<sigma>'\<lparr>hooked := True\<rparr>) s' rel d"
    by simp
  then show "refines h view up R (\<sigma>'\<lparr>hooked := True\<rparr>) s'"
    using S M T subs_step [OF st sub] tx(2) by (auto simp: refines_def mapped_def del: subsetI)
qed

lemma refines_unhook:
  "refines h view up R (\<sigma>\<lparr>hooked := True\<rparr>) s \<Longrightarrow> touched \<sigma> = {} \<Longrightarrow> \<not> hooked \<sigma> \<Longrightarrow> refines h view up R \<sigma> (s\<lparr>HOOKS := []\<rparr>)"
  by (simp add: refines_def backend_ok_def)

lemma hooked_same: "hooked \<sigma> \<Longrightarrow> \<sigma>\<lparr>hooked := True\<rparr> = \<sigma>"
  by (cases \<sigma>) simp

lemma fire_sim:
  assumes S: "refines h view up R \<sigma> s" and st: "spec_step (Ev e) \<sigma> = Some \<sigma>'" and hk: "hooked \<sigma>"
  shows "wp (fire h e) (\<lambda>_. refines h view up R \<sigma>') s"
proof -
  have ok: "BK s" and tx: "TX_RELS s = touched \<sigma>" and hooks: "HOOKS s = all_hooks"
    and sub: "distinct (map fst (subs \<sigma>))" "fst ` set (subs \<sigma>) \<subseteq> {..last_sub \<sigma>}"
    using S hk by (simp_all add: refines_def)
  note E = event_mapped [OF S st hk] and f = fire_hooks [OF hooks]
  show ?thesis
  proof (cases e)
    case (StartSub n)
    with st have \<sigma>': "\<sigma>' = \<sigma>\<lparr>subs := (n, work \<sigma>) # subs \<sigma>, last_sub := n\<rparr>" "last_sub \<sigma> < n" by (auto split: if_splits)
    have "wp (on_sub_start h n) (\<lambda>_. refines h view up R (\<sigma>'\<lparr>hooked := True\<rparr>)) s"
      by (rule E [where T = "touched \<sigma>"])
        (use on_sub_start_spec [OF ok, of n] stack_start [OF _ \<sigma>'(2)] in \<open>auto simp: tx [symmetric] \<sigma>'\<close>)
    then show ?thesis using hk by (simp add: StartSub f \<sigma>' hooked_same)
  next
    case (CommitSub n)
    with st obtain W rest where r: "subs \<sigma> = (n, W) # rest" and \<sigma>': "\<sigma>' = \<sigma>\<lparr>subs := rest\<rparr>" by (auto split: list.splits if_splits)
    note e = stack_end [OF _ r] 
    have "wp (on_sub_commit h n) (\<lambda>_. refines h view up R (\<sigma>'\<lparr>hooked := True\<rparr>)) s"
      by (rule E [where T = "touched \<sigma>"])
        (use on_sub_commit_spec [OF ok, of n] e sub r in \<open>auto simp: tx [symmetric] \<sigma>'\<close>)
    then show ?thesis using hk by (simp add: CommitSub f \<sigma>' hooked_same)
  next
    case (AbortSub n)
    with st obtain W rest where r: "subs \<sigma> = (n, W) # rest" and \<sigma>': "\<sigma>' = \<sigma>\<lparr>subs := rest, work := W\<rparr>" by (auto split: list.splits if_splits)
    note e = stack_end [OF _ r] 
    have "wp (on_sub_abort h n) (\<lambda>_. refines h view up R (\<sigma>'\<lparr>hooked := True\<rparr>)) s"
      by (rule E [where T = "touched \<sigma>"])
        (use on_sub_abort_spec [OF ok, of n] e sub r in \<open>auto simp: tx [symmetric] \<sigma>'\<close>)
    then show ?thesis using hk by (simp add: AbortSub f \<sigma>' hooked_same)
  next
    case PreCommit
    with st have \<sigma>': "\<sigma>' = \<sigma>\<lparr>base := work \<sigma>, touched := {}, last_sub := 0\<rparr>" "subs \<sigma> = []" by (auto split: if_splits)
    have "wp (on_precommit h) (\<lambda>_. refines h view up R (\<sigma>'\<lparr>hooked := True\<rparr>)) s"
      by (rule E [where T = "{}"])
        (use on_precommit_spec [OF ok] in \<open>auto simp: \<sigma>' closed_txn_def committed_def\<close>)
    then show ?thesis using hk by (simp add: PreCommit f \<sigma>' hooked_same)
  next
    case Commit
    with st have \<sigma>': "\<sigma>' = \<sigma>\<lparr>hooked := False\<rparr>" "touched \<sigma> = {}" by (auto split: if_splits)
    have "refines h view up R \<sigma>' (s\<lparr>HOOKS := []\<rparr>)" by (rule refines_unhook) (use S hk in \<open>simp_all add: \<sigma>' hooked_same\<close>)
    then show ?thesis by (simp add: Commit f)
  next
    case Abort
    with st have \<sigma>': "\<sigma>' = \<sigma>\<lparr>work := base \<sigma>, subs := [], touched := {}, hooked := False, last_sub := 0\<rparr>" by auto
    have "wp (on_abort h) (\<lambda>_. refines h view up R (\<sigma>'\<lparr>hooked := True\<rparr>)) s"
      by (rule E [where T = "{}"]) (use on_abort_spec [OF ok] in \<open>auto simp: \<sigma>'\<close>)
    then show ?thesis unfolding Abort f by (rule wp_mono) (rule refines_unhook, simp_all add: \<sigma>')
  qed
qed

text \<open>Every script the machine accepts runs to its end, and the two agree there.\<close>

lemma label_sim:
  assumes S: "refines h view up R \<sigma> s" and st: "spec_step l \<sigma> = Some \<sigma>'" and r: "\<And>rel op. l = Data rel op \<Longrightarrow> rel \<in> R"
  shows "wp (run_label h l) (\<lambda>_. refines h view up R \<sigma>') s"
proof (cases l)
  case (Data rel op)
  with data_sim [OF S] st r show ?thesis by simp
next
  case (Ev e)
  show ?thesis
  proof (cases "hooked \<sigma>")
    case True
    with fire_sim [OF S] st Ev show ?thesis by simp
  next
    case False
    then have "HOOKS s = []" using S by (simp add: refines_def)
    with event_sim [OF S _ False, of e] st Ev show ?thesis by (simp add: fire_no_hooks)
  qed
qed

lemma script_sim:
  "refines h view up R \<sigma> s \<Longrightarrow> spec_run ls \<sigma> = Some \<sigma>' \<Longrightarrow> (\<And>rel op. Data rel op \<in> set ls \<Longrightarrow> rel \<in> R) \<Longrightarrow>
    wp (forE ls (run_label h)) (\<lambda>_. refines h view up R \<sigma>') s"
proof (induction ls arbitrary: \<sigma> s)
  case (Cons l ls)
  then obtain \<sigma>1 where "spec_step l \<sigma> = Some \<sigma>1" "spec_run ls \<sigma>1 = Some \<sigma>'" by (auto split: option.splits)
  with Cons show ?case by (auto intro!: wpS [OF label_sim])
qed (simp add: wp_ret)

end

text \<open>A backend between transactions starts from the tables it finds.\<close>

lemma refines_start:
  assumes "backend_ok view up s" and "TX_RELS s = {}" and "HOOKS s = []"
    and "\<forall>rel \<in> R. \<exists>d. avail h view s rel d \<and> db_txn d = None \<and> db_tab d = T rel"
  shows "refines h view up R \<lparr>base = T, work = T, subs = [], touched = {}, hooked = False, last_sub = 0\<rparr> s"
  using assms by (fastforce simp: refines_def rel_sim_def committed_def)

lemma refines_files:
  assumes "refines h view up R \<sigma> s" and "rel \<in> R" and "rel_db view s rel = Some d"
  shows "db_tab d = work \<sigma> rel \<and> e_files (view (World s)) (db_path d) = Some (base \<sigma> rel)"
proof -
  from assms(1,2) obtain d' where "rel_sim h view \<sigma> s rel d'" "backend_ok view up s" unfolding refines_def by blast
  with assms(3) on_disk [OF _ assms(3), of up] show ?thesis by (auto simp: rel_sim_def rel_db_avail_iff)
qed

end
