(* ===== verification/Faults.thy ===== *)
theory Faults
  imports Xact_Trace
begin

text \<open>
  What failures can do. Any call of the engine may be refused (disk full, locked, out of memory);
  the code then panics, and Postgres aborts the subtransaction or the transaction. The contract
  \<open>fallible_engine\<close> promises no success, only what a call cannot do behind the caller's back: a
  statement inside a transaction and a read do not change what is durable.
\<close>

section \<open>Every outcome\<close>

text \<open>\<open>wlp m Q E s\<close>: if \<open>m\<close> returns then with \<open>Q\<close>, and if it panics then in a state with \<open>E\<close>.\<close>

definition wlp :: "('s, 'a) prog \<Rightarrow> ('a \<Rightarrow> 's \<Rightarrow> bool) \<Rightarrow> ('s \<Rightarrow> bool) \<Rightarrow> 's \<Rightarrow> bool" where
  "wlp m Q E s \<longleftrightarrow> (case m s of None \<Rightarrow> True | Some (Ok x, s') \<Rightarrow> Q x s' | Some (Panic _, s') \<Rightarrow> E s')"

named_theorems wlp_rules \<open>rewrite rules for every outcome of a program\<close>

lemma wlp_ret [wlp_rules]: "wlp (ret x) Q E = Q x"
  by (simp add: fun_eq_iff wlp_def ret_def)

lemma wlp_panic [wlp_rules]: "wlp (panic e) Q E = E"
  by (simp add: fun_eq_iff wlp_def panic_def)

lemma wlp_getE [wlp_rules]: "wlp (getE f) Q E = (\<lambda>s. Q (f s) s)"
  by (simp add: fun_eq_iff wlp_def getE_def)

lemma wlp_modE [wlp_rules]: "wlp (modE g) Q E = (\<lambda>s. Q () (g s))"
  by (simp add: fun_eq_iff wlp_def modE_def)

lemma wlp_callE [wlp_rules]: "wlp (callE k) Q E = (\<lambda>s. Q (fst (k s)) (snd (k s)))"
  by (simp add: fun_eq_iff wlp_def callE_def)

lemma wlp_bindE [wlp_rules]: "wlp (bindE m f) Q E = wlp m (\<lambda>x. wlp (f x) Q E) E"
  by (auto simp: fun_eq_iff wlp_def bindE_def split: option.splits res.splits)

lemma wlp_seqE [wlp_rules]: "wlp (seqE m n) Q E = wlp m (\<lambda>_. wlp n Q E) E"
  by (simp add: seqE_def wlp_bindE)

lemma wlp_mono:
  "wlp m Q E s \<Longrightarrow> (\<And>x s'. Q x s' \<Longrightarrow> Q' x s') \<Longrightarrow> (\<And>s'. E s' \<Longrightarrow> E' s') \<Longrightarrow> wlp m Q' E' s"
  by (auto simp: wlp_def split: option.splits res.splits)

lemma wlpB: "wlp m P E s \<Longrightarrow> (\<And>x s'. P x s' \<Longrightarrow> wlp (f x) Q E s') \<Longrightarrow> wlp (bindE m f) Q E s"
  unfolding wlp_bindE by (rule wlp_mono)

lemma wlpS: "wlp m P E s \<Longrightarrow> (\<And>x s'. P x s' \<Longrightarrow> wlp n Q E s') \<Longrightarrow> wlp (seqE m n) Q E s"
  unfolding wlp_seqE by (rule wlp_mono)

lemma wlp_result: "wlp m (\<lambda>_. Q) Q s \<Longrightarrow> m s = Some (r, s') \<Longrightarrow> Q s'"
  by (cases r) (auto simp: wlp_def)

lemma wlp_forE:
  assumes "I s" and "\<And>x s. x \<in> set xs \<Longrightarrow> I s \<Longrightarrow> wlp (f x) (\<lambda>_. I) I s"
  shows "wlp (forE xs f) (\<lambda>_. I) I s"
  using assms
proof (induction xs arbitrary: s)
  case (Cons x xs)
  then show ?case by (auto intro!: wlpS [where P = "\<lambda>_. I"])
qed (simp add: wlp_rules)

section \<open>An engine that may fail\<close>

text \<open>
  What is watched of the engine: the durable contents of the files (rows and metadata, not the
  schema), the open connections, those inside an explicit transaction, and for each prepared
  statement its connection and what it was prepared from; \<open>sane\<close> is the engine's own consistency.
\<close>

record ('w, 'd) watch =
  disk :: "'w \<Rightarrow> 'd"
  in_tx :: "'w \<Rightarrow> dbp \<Rightarrow> bool"
  stmt_of :: "'w \<Rightarrow> stp \<Rightarrow> (dbp \<times> sql) option"
  open_dbs :: "'w \<Rightarrow> dbp set"
  sane :: "'w \<Rightarrow> bool"

fun is_query :: "sql \<Rightarrow> bool" where
  "is_query Q_version = True"
| "is_query Q_select_all = True"
| "is_query Q_select_one = True"
| "is_query (Q_select_xmax n) = True"
| "is_query Q_count = True"
| "is_query Q_meta_get = True"
| "is_query _ = False"

text \<open>Texts that stay inside the transaction they run in.\<close>

fun stays_inside :: "sql \<Rightarrow> bool" where
  "stays_inside X_clear = True"
| "stays_inside (X_savepoint n) = True"
| "stays_inside (X_release n) = True"
| "stays_inside (X_rollback_to n) = True"
| "stays_inside _ = False"

text \<open>Texts that touch the schema or the settings of a connection, but no contents.\<close>

fun schema_text :: "sql \<Rightarrow> bool" where
  "schema_text X_pragmas = True"
| "schema_text X_install = True"
| "schema_text X_drop_dead_index = True"
| "schema_text X_drop_prev = True"
| "schema_text X_set_version = True"
| "schema_text _ = False"

definition quiet :: "('w, 'd) watch \<Rightarrow> 'w \<Rightarrow> 'w \<Rightarrow> bool" where
  "quiet v w w' \<longleftrightarrow> sane v w' \<and> disk v w' = disk v w \<and> in_tx v w' = in_tx v w \<and> stmt_of v w' = stmt_of v w \<and>
     open_dbs v w' = open_dbs v w"

definition quiet_but :: "('w, 'd) watch \<Rightarrow> dbp \<Rightarrow> 'w \<Rightarrow> 'w \<Rightarrow> bool" where
  "quiet_but v db w w' \<longleftrightarrow> sane v w' \<and> disk v w' = disk v w \<and> stmt_of v w' = stmt_of v w \<and> open_dbs v w' = open_dbs v w \<and>
     (\<forall>db'. db' \<noteq> db \<longrightarrow> in_tx v w' db' = in_tx v w db')"

locale fallible_engine =
  fixes h :: "'w host" and v :: "('w, 'd) watch"
  assumes begin_any: "sane v w \<Longrightarrow> quiet_but v db w (snd (sqlite3_exec h db ''BEGIN'' w)) \<and>
      (fst (fst (sqlite3_exec h db ''BEGIN'' w)) = SQLITE_OK \<or> in_tx v w db \<longrightarrow>
        in_tx v (snd (sqlite3_exec h db ''BEGIN'' w)) db)"
    and rollback_any: "sane v w \<Longrightarrow> quiet_but v db w (snd (sqlite3_exec h db ''ROLLBACK'' w))"
    and exec_inside: "sane v w \<Longrightarrow> in_tx v w db \<Longrightarrow> parse_sql sq = Some q \<Longrightarrow> stays_inside q \<Longrightarrow>
      quiet v w (snd (sqlite3_exec h db sq w))"
    and prepare_any: "sane v w \<Longrightarrow> parse_sql sq = Some q \<Longrightarrow> sane v (snd (sqlite3_prepare_v2 h db sq w)) \<and>
      disk v (snd (sqlite3_prepare_v2 h db sq w)) = disk v w \<and> in_tx v (snd (sqlite3_prepare_v2 h db sq w)) = in_tx v w \<and>
      open_dbs v (snd (sqlite3_prepare_v2 h db sq w)) = open_dbs v w \<and>
      (if fst (fst (sqlite3_prepare_v2 h db sq w)) = SQLITE_OK
       then stmt_of v w (snd (fst (sqlite3_prepare_v2 h db sq w))) = None \<and>
         stmt_of v (snd (sqlite3_prepare_v2 h db sq w)) =
           (stmt_of v w)(snd (fst (sqlite3_prepare_v2 h db sq w)) \<mapsto> (db, q))
       else stmt_of v (snd (sqlite3_prepare_v2 h db sq w)) = stmt_of v w)"
    and step_any: "sane v w \<Longrightarrow> stmt_of v w st = Some (db, q) \<Longrightarrow>
      in_tx v w db \<or> is_query q \<Longrightarrow> quiet v w (snd (sqlite3_step h st w))"
    and reset_any: "sane v w \<Longrightarrow> quiet v w (sqlite3_reset h st w)"
    and clear_any: "sane v w \<Longrightarrow> quiet v w (sqlite3_clear_bindings h st w)"
    and bind_int_any: "sane v w \<Longrightarrow> quiet v w (sqlite3_bind_int h st i x w)"
    and bind_int64_any: "sane v w \<Longrightarrow> quiet v w (sqlite3_bind_int64 h st i k w)"
    and bind_blob_any: "sane v w \<Longrightarrow> quiet v w (snd (sqlite3_bind_blob h st i b w))"
    and bind_text_any: "sane v w \<Longrightarrow> quiet v w (snd (sqlite3_bind_text h st i t w))"
    and warning_any: "sane v w \<Longrightarrow> quiet v w (pg_warning h msg w)"
    and schema_any: "sane v w \<Longrightarrow> parse_sql sq = Some q \<Longrightarrow> schema_text q \<Longrightarrow> quiet v w (snd (sqlite3_exec h db sq w))"
    and mkdir_any: "sane v w \<Longrightarrow> quiet v w (snd (fs_create_dir_all h p w))"
    and open_any: "sane v w \<Longrightarrow> (fst (fst (sqlite3_open_v2 h p w)) = SQLITE_OK \<longrightarrow> snd (fst (sqlite3_open_v2 h p w)) \<noteq> None) \<and>
      (case snd (fst (sqlite3_open_v2 h p w)) of None \<Rightarrow> quiet v w (snd (sqlite3_open_v2 h p w))
       | Some db \<Rightarrow> db \<notin> open_dbs v w \<and> sane v (snd (sqlite3_open_v2 h p w)) \<and>
           disk v (snd (sqlite3_open_v2 h p w)) = disk v w \<and>
           (\<forall>db'. db' \<noteq> db \<longrightarrow> in_tx v (snd (sqlite3_open_v2 h p w)) db' = in_tx v w db') \<and>
           stmt_of v (snd (sqlite3_open_v2 h p w)) = stmt_of v w \<and>
           open_dbs v (snd (sqlite3_open_v2 h p w)) = insert db (open_dbs v w))"
    and close_any: "sane v w \<Longrightarrow> sane v (sqlite3_close h db w) \<and> disk v (sqlite3_close h db w) = disk v w \<and>
      (\<forall>db'. db' \<noteq> db \<longrightarrow> in_tx v (sqlite3_close h db w) db' = in_tx v w db') \<and>
      stmt_of v (sqlite3_close h db w) = stmt_of v w \<and> open_dbs v (sqlite3_close h db w) = open_dbs v w - {db}"
    and finalize_any: "sane v w \<Longrightarrow> sane v (sqlite3_finalize h st w) \<and> disk v (sqlite3_finalize h st w) = disk v w \<and>
      in_tx v (sqlite3_finalize h st w) = in_tx v w \<and> open_dbs v (sqlite3_finalize h st w) = open_dbs v w \<and>
      stmt_of v (sqlite3_finalize h st w) = (stmt_of v w)(st := None)"
    and stmt_iter_any: "set (stmt_iter h xs) = set xs"

section \<open>What a connection keeps through failures\<close>

text \<open>
  \<open>guarded v D w0 db cs\<close>: the durable contents are \<open>D\<close>, the connection's flag is set only inside a
  transaction, its cached statements are its own, and the other connections are as in \<open>w0\<close>.
\<close>

definition conn_guarded :: "('w, 'd) watch \<Rightarrow> RelConn \<Rightarrow> 'w \<Rightarrow> bool" where
  "conn_guarded v c w \<longleftrightarrow> rc_db c \<in> open_dbs v w \<and> (in_txn c \<longrightarrow> in_tx v w (rc_db c)) \<and>
     (\<forall>sq st. (sq, st) \<in> set (cache c) \<longrightarrow> (\<exists>q. parse_sql sq = Some q \<and> stmt_of v w st = Some (rc_db c, q)))"

lemma conn_guardedD:
  "conn_guarded v c w \<Longrightarrow> (sq, st) \<in> set (cache c) \<Longrightarrow> parse_sql sq = Some q \<Longrightarrow> stmt_of v w st = Some (rc_db c, q)"
  unfolding conn_guarded_def by fastforce

definition guarded :: "('w, 'd) watch \<Rightarrow> 'd \<Rightarrow> 'w \<Rightarrow> dbp \<Rightarrow> 'w cstate \<Rightarrow> bool" where
  "guarded v D w0 db cs \<longleftrightarrow> sane v (snd cs) \<and> disk v (snd cs) = D \<and> rc_db (fst cs) = db \<and>
     conn_guarded v (fst cs) (snd cs) \<and> (\<forall>db'. db' \<noteq> db \<longrightarrow> in_tx v (snd cs) db' = in_tx v w0 db') \<and>
     stmt_of v w0 \<subseteq>\<^sub>m stmt_of v (snd cs) \<and> open_dbs v (snd cs) = open_dbs v w0"

definition guarded_stmt :: "('w, 'd) watch \<Rightarrow> 'd \<Rightarrow> 'w \<Rightarrow> dbp \<Rightarrow> bool \<Rightarrow> stp \<Rightarrow> sql \<Rightarrow> 'w cstate \<Rightarrow> bool" where
  "guarded_stmt v D w0 db writes st q cs \<longleftrightarrow> guarded v D w0 db cs \<and> (writes \<longrightarrow> in_txn (fst cs)) \<and>
     stmt_of v (snd cs) st = Some (db, q)"

lemma guarded_quiet:
  "guarded v D w0 db (c, w) \<Longrightarrow> quiet v w w' \<Longrightarrow> guarded v D w0 db (c, w')"
  by (auto simp: guarded_def quiet_def conn_guarded_def)

lemma guarded_stmt_quiet:
  "guarded_stmt v D w0 db b st q (c, w) \<Longrightarrow> quiet v w w' \<Longrightarrow> guarded_stmt v D w0 db b st q (c, w')"
  by (auto simp: guarded_stmt_def quiet_def intro: guarded_quiet)

lemma guarded_stmtD: "guarded_stmt v D w0 db b st q cs \<Longrightarrow> guarded v D w0 db cs"
  by (simp add: guarded_stmt_def)

lemma guarded_stmt_in_txn: "guarded_stmt v D w0 db True st q cs \<Longrightarrow> in_txn (fst cs)"
  by (simp add: guarded_stmt_def)

lemma guarded_sane: "guarded v D w0 db (c, w) \<Longrightarrow> sane v w"
  by (simp add: guarded_def)

context fallible_engine
begin

abbreviation G :: "'d \<Rightarrow> 'w \<Rightarrow> dbp \<Rightarrow> 'w cstate \<Rightarrow> bool" where
  "G \<equiv> guarded v"

abbreviation GS :: "'d \<Rightarrow> 'w \<Rightarrow> dbp \<Rightarrow> bool \<Rightarrow> stp \<Rightarrow> sql \<Rightarrow> 'w cstate \<Rightarrow> bool" where
  "GS \<equiv> guarded_stmt v"

lemma hostW_guarded:
  assumes "GS D w0 db b st q cs" and "\<And>w. sane v w \<Longrightarrow> quiet v w (f w)"
  shows "wlp (hostW f) (\<lambda>_. GS D w0 db b st q) (G D w0 db) cs"
  using assms by (cases cs) (auto simp: hostW_def wlp_rules guarded_stmt_def guarded_def quiet_def conn_guarded_def)

lemma begin_guarded:
  assumes "G D w0 db cs"
  shows "wlp (begin_if_needed h) (\<lambda>_ cs'. G D w0 db cs' \<and> in_txn (fst cs')) (G D w0 db) cs"
  using assms begin_any [of "snd cs" "rc_db (fst cs)"]
  by (cases cs) (auto simp: begin_if_needed_def exec_def try_exec_def conn_prog_defs wlp_rules guarded_def conn_guarded_def quiet_but_def split: sum.splits)

lemma exec_inside_guarded:
  assumes "G D w0 db cs" and "in_txn (fst cs)" and "parse_sql sq = Some q" and "stays_inside q"
  shows "wlp (try_exec h sq) (\<lambda>_ cs'. G D w0 db cs' \<and> in_txn (fst cs')) (G D w0 db) cs"
proof (cases cs)
  case (Pair c w)
  have "quiet v w (snd (sqlite3_exec h db sq w))"
    using assms Pair by (intro exec_inside) (auto simp: guarded_def conn_guarded_def)
  from guarded_quiet [OF _ this] assms Pair show ?thesis
    by (auto simp: try_exec_def conn_prog_defs wlp_rules guarded_def)
qed

lemma prepare_guarded:
  assumes I: "G D w0 db cs" and b: "b \<Longrightarrow> in_txn (fst cs)" and q: "parse_sql sq = Some q"
  shows "wlp (prepare_cached h sq) (\<lambda>st. GS D w0 db b st q) (G D w0 db) cs"
proof (cases cs)
  case (Pair c w)
  note I = I [unfolded Pair]
  show ?thesis
  proof (cases "map_of (cache c) sq")
    case (Some st)
    then have "(sq, st) \<in> set (cache c)" by (rule map_of_SomeD)
    then have "GS D w0 db b st q (c, w)" using I b q Pair by (auto simp: guarded_stmt_def guarded_def conn_guardedD)
    then have "GS D w0 db b st q (c, sqlite3_clear_bindings h st (sqlite3_reset h st w))"
      by (meson guarded_stmt_quiet guarded_stmtD guarded_sane reset_any clear_any)
    then show ?thesis using Some by (simp add: prepare_cached_def conn_prog_defs wlp_rules Pair)
  next
    case None
    let ?r = "sqlite3_prepare_v2 h db sq w"
    note p = prepare_any [OF guarded_sane [OF I] q, of db]
    have c: "rc_db c = db" using I by (simp add: guarded_def)
    have fail: "G D w0 db (c, snd ?r)" if "fst (fst ?r) \<noteq> SQLITE_OK"
      using that p I by (auto simp: guarded_def conn_guarded_def)
    have new: "GS D w0 db b (snd (fst ?r)) q (c\<lparr>cache := (sq, snd (fst ?r)) # cache c\<rparr>, snd ?r)" if "fst (fst ?r) = SQLITE_OK"
    proof -
      from p that have p: "sane v (snd ?r)" "disk v (snd ?r) = disk v w" "in_tx v (snd ?r) = in_tx v w"
        "open_dbs v (snd ?r) = open_dbs v w" "stmt_of v w (snd (fst ?r)) = None" "stmt_of v (snd ?r) = (stmt_of v w)(snd (fst ?r) \<mapsto> (db, q))" by auto
      have "stmt_of v w0 \<subseteq>\<^sub>m stmt_of v (snd ?r)"
        using I p(5,6) unfolding guarded_def map_le_def by (auto simp: dom_def)
      moreover have "\<exists>r. parse_sql t = Some r \<and> stmt_of v (snd ?r) st = Some (db, r)" if mem: "(t, st) \<in> set (cache c)" for t st
      proof -
        obtain r where "parse_sql t = Some r" "stmt_of v w st = Some (db, r)" using I mem unfolding guarded_def conn_guarded_def fst_conv snd_conv by blast
        with p(5,6) show ?thesis by auto
      qed
      ultimately show ?thesis using I p b q Pair by (auto simp: guarded_stmt_def guarded_def conn_guarded_def)
    qed
    show ?thesis using None fail new by (simp add: prepare_cached_def conn_prog_defs wlp_rules Pair c)
  qed
qed

lemma bind_guarded:
  assumes "GS D w0 db b st q cs"
  shows "wlp (bind_u32 h st i x) (\<lambda>_. GS D w0 db b st q) (G D w0 db) cs"
    "wlp (bind_i64 h st i k) (\<lambda>_. GS D w0 db b st q) (G D w0 db) cs"
    "wlp (hostW (sqlite3_reset h st)) (\<lambda>_. GS D w0 db b st q) (G D w0 db) cs"
  unfolding bind_u32_def bind_i64_def
  by (rule hostW_guarded [OF assms], rule bind_int_any bind_int64_any reset_any, assumption)+

lemma hostC_guarded:
  assumes "GS D w0 db b st q cs" and "\<And>w. sane v w \<Longrightarrow> quiet v w (snd (f w))"
  shows "wlp (hostC f) (\<lambda>_. GS D w0 db b st q) (G D w0 db) cs"
  using assms by (cases cs) (auto simp: hostC_def wlp_rules guarded_stmt_def guarded_def quiet_def conn_guarded_def)

lemma bind_value_guarded:
  assumes I: "GS D w0 db b st q cs"
  shows "wlp (bind_blob h st i bs) (\<lambda>_. GS D w0 db b st q) (G D w0 db) cs"
    and "wlp (bind_text h st i t) (\<lambda>_. GS D w0 db b st q) (G D w0 db) cs"
proof -
  have check: "wlp (if rc \<noteq> SQLITE_OK then bindE (errmsg h) (\<lambda>m. die (msg @ m)) else ret ())
      (\<lambda>_. GS D w0 db b st q) (G D w0 db) cs'" if "GS D w0 db b st q cs'" for rc msg cs'
    using that by (auto simp: errmsg_def die_def wlp_rules intro: guarded_stmtD)
  show "wlp (bind_blob h st i bs) (\<lambda>_. GS D w0 db b st q) (G D w0 db) cs"
    unfolding bind_blob_def by (rule wlpB [OF hostC_guarded [OF I bind_blob_any] check])
  show "wlp (bind_text h st i t) (\<lambda>_. GS D w0 db b st q) (G D w0 db) cs"
    unfolding bind_text_def by (rule wlpB [OF hostC_guarded [OF I bind_text_any] check])
qed

lemma step_guarded:
  assumes "GS D w0 db b st q cs" and "b \<or> is_query q"
  shows "wlp (hostC (sqlite3_step h st)) (\<lambda>_. GS D w0 db b st q) (G D w0 db) cs"
proof (cases cs)
  case (Pair c w)
  with assms have "quiet v w (snd (sqlite3_step h st w))"
    by (auto simp: guarded_stmt_def guarded_def conn_guarded_def intro!: step_any)
  with assms Pair show ?thesis by (auto simp: hostC_def wlp_rules intro: guarded_stmt_quiet)
qed

lemma step_done_guarded:
  "GS D w0 db True st q cs \<Longrightarrow> wlp (step_done h st) (\<lambda>_. GS D w0 db True st q) (G D w0 db) cs"
  unfolding step_done_def
  by (rule wlpB [OF step_guarded]) (auto simp: errmsg_def die_def wlp_rules intro: guarded_stmtD)

lemma step_row_guarded:
  "GS D w0 db b st q cs \<Longrightarrow> is_query q \<Longrightarrow> wlp (step_row h st) (\<lambda>_. GS D w0 db b st q) (G D w0 db) cs"
  unfolding step_row_def
  by (rule wlpB [OF step_guarded]) (auto simp: errmsg_def die_def wlp_rules intro: guarded_stmtD)

text \<open>The loops over a statement's rows; \<open>wlp\<close> says nothing of one that does not return.\<close>

lemma select_loop_guarded:
  assumes q: "is_query q" and I: "GS D w0 db b st q cs"
  shows "wlp (select_loop h st out) (\<lambda>_. G D w0 db) (G D w0 db) cs"
proof -
  have "h' = h \<and> st' = st \<and> GS D w0 db b st q s \<longrightarrow> G D w0 db (snd y)" if "select_loop h' st' out s = Some y" for h' st' out s y
  proof (rule select_loop.raw_induct [of "\<lambda>h' st' out s y. h' = h \<and> st' = st \<and> GS D w0 db b st q s \<longrightarrow> G D w0 db (snd y)", OF _ that], intro impI, elim conjE)
    fix loop h' st' out s y
    assume IH: "\<And>h' st' out s y. loop h' st' out s = Some y \<Longrightarrow> h' = h \<and> st' = st \<and> GS D w0 db b st q s \<longrightarrow> G D w0 db (snd y)"
      and body: "(case step_row h' st' s of None \<Rightarrow> None | Some (r, s') \<Rightarrow> (case r of Panic e \<Rightarrow> Some (Panic e, s')
        | Ok hit \<Rightarrow> if hit then loop h' st' (out @ [row_from h' st' (snd s')]) s' else Some (Ok out, s'))) = Some y"
      and J: "GS D w0 db b st q s" and e: "h' = h" "st' = st"
    from step_row_guarded [OF J q] body e show "G D w0 db (snd y)"
      by (auto simp: wlp_def guarded_stmtD split: option.splits res.splits if_splits dest: IH)
  qed
  with I show ?thesis by (fastforce simp: wlp_def split: option.splits res.splits)
qed

lemma xmax_loop_guarded:
  assumes q: "is_query q" and I: "GS D w0 db b st q cs"
  shows "wlp (xmax_loop h st m) (\<lambda>_. G D w0 db) (G D w0 db) cs"
proof -
  have "h' = h \<and> st' = st \<and> GS D w0 db b st q s \<longrightarrow> G D w0 db (snd y)" if "xmax_loop h' st' m s = Some y" for h' st' m s y
  proof (rule xmax_loop.raw_induct [of "\<lambda>h' st' m s y. h' = h \<and> st' = st \<and> GS D w0 db b st q s \<longrightarrow> G D w0 db (snd y)", OF _ that], intro impI, elim conjE)
    fix loop h' st' m s y
    assume IH: "\<And>h' st' m s y. loop h' st' m s = Some y \<Longrightarrow> h' = h \<and> st' = st \<and> GS D w0 db b st q s \<longrightarrow> G D w0 db (snd y)"
      and body: "(case step_row h' st' s of None \<Rightarrow> None | Some (r, s') \<Rightarrow> (case r of Panic e \<Rightarrow> Some (Panic e, s')
        | Ok hit \<Rightarrow> if hit then loop h' st' (m(col_i64 h' st' 0 (snd s') \<mapsto> col_u32 h' st' 1 (snd s'))) s' else Some (Ok m, s'))) = Some y"
      and J: "GS D w0 db b st q s" and e: "h' = h" "st' = st"
    from step_row_guarded [OF J q] body e show "G D w0 db (snd y)"
      by (auto simp: wlp_def guarded_stmtD split: option.splits res.splits if_splits dest: IH)
  qed
  with I show ?thesis by (fastforce simp: wlp_def split: option.splits res.splits)
qed

lemma batch_loop_guarded:
  assumes "GS D w0 db True st q cs"
  shows "wlp (batch_loop h st rids bs) (\<lambda>_. G D w0 db) (G D w0 db) cs"
  using assms
proof (induction bs arbitrary: rids cs)
  case Nil
  then show ?case by (simp add: wlp_rules guarded_stmtD)
next
  case (Cons b bs)
  show ?case
    unfolding batch_loop.simps
    by (rule wlpS [OF bind_value_guarded(1) [OF Cons.prems]], rule wlpS [OF step_done_guarded], assumption,
        unfold wlp_bindE wlp_getE, rule wlpS [OF bind_guarded(3)], assumption, rule Cons.IH)
qed

text \<open>The bodies of the row operations.\<close>

lemma write_guarded:
  assumes I: "G D w0 db cs" and q: "parse_sql sq = Some q"
    and k: "\<And>st cs. GS D w0 db True st q cs \<Longrightarrow> wlp (k st) (\<lambda>_. G D w0 db) (G D w0 db) cs"
  shows "wlp (seqE (begin_if_needed h) (bindE (prepare_cached h sq) k)) (\<lambda>_. G D w0 db) (G D w0 db) cs"
  by (rule wlpS [OF begin_guarded [OF I]], elim conjE, rule wlpB [OF prepare_guarded [OF _ _ q, where b = True]])
    (auto intro: k)

lemma read_guarded:
  assumes I: "G D w0 db cs" and q: "parse_sql sq = Some q"
    and k: "\<And>st cs. GS D w0 db False st q cs \<Longrightarrow> wlp (k st) (\<lambda>_. G D w0 db) (G D w0 db) cs"
  shows "wlp (bindE (prepare_cached h sq) k) (\<lambda>_. G D w0 db) (G D w0 db) cs"
  by (rule wlpB [OF prepare_guarded [OF I _ q, where b = False]]) (auto intro: k)

lemma run_guarded:
  assumes "GS D w0 db True st q cs" and "\<And>cs. G D w0 db cs \<Longrightarrow> wlp n (\<lambda>_. G D w0 db) (G D w0 db) cs"
  shows "wlp (seqE (step_done h st) n) (\<lambda>_. G D w0 db) (G D w0 db) cs"
  by (rule wlpS [OF step_done_guarded [OF assms(1)]], rule assms(2), rule guarded_stmtD)

lemma step_last_guarded:
  "GS D w0 db True st q cs \<Longrightarrow> wlp (step_done h st) (\<lambda>_. G D w0 db) (G D w0 db) cs"
  by (rule wlp_mono [OF step_done_guarded]) (auto intro: guarded_stmtD)

lemma get_guarded: "G D w0 db cs \<Longrightarrow> wlp (getE f) (\<lambda>_. G D w0 db) (G D w0 db) cs"
  by (simp add: wlp_rules)

end

section \<open>The backend through failures\<close>

definition fault_ok :: "('w, 'd) watch \<Rightarrow> 'd \<Rightarrow> 'w backend \<Rightarrow> bool" where
  "fault_ok v D s \<longleftrightarrow> sane v (World s) \<and> disk v (World s) = D \<and>
     (\<forall>rel c. CONNS s rel = Some c \<longrightarrow> conn_guarded v c (World s)) \<and>
     (\<forall>rel rel' c c'. CONNS s rel = Some c \<and> CONNS s rel' = Some c' \<and> rc_db c = rc_db c' \<longrightarrow> rel = rel')"

lemma conn_guarded_frame:
  assumes "conn_guarded v c u" and "rc_db c \<noteq> db" and "\<forall>db'. db' \<noteq> db \<longrightarrow> in_tx v w db' = in_tx v u db'"
    and "\<And>st q. stmt_of v u st = Some (rc_db c, q) \<Longrightarrow> stmt_of v w st = Some (rc_db c, q)"
    and "open_dbs v u - {db} \<subseteq> open_dbs v w"
  shows "conn_guarded v c w"
  using assms unfolding conn_guarded_def by blast

lemma stmt_le: "stmt_of v u \<subseteq>\<^sub>m stmt_of v w \<Longrightarrow> stmt_of v u st = Some x \<Longrightarrow> stmt_of v w st = Some x"
  unfolding map_le_def by (metis domI)

lemma fault_ok_upd:
  assumes ok: "fault_ok v D s" and c: "CONNS s rel = Some c" and I: "guarded v D (World s) (rc_db c) cs'"
  shows "fault_ok v D (s\<lparr>CONNS := (CONNS s)(rel \<mapsto> fst cs'), World := snd cs'\<rparr>)"
proof -
  have "conn_guarded v c' (snd cs')" if r: "CONNS s r = Some c'" "r \<noteq> rel" for r c'
  proof (rule conn_guarded_frame [where db = "rc_db c" and u = "World s"])
    show "rc_db c' \<noteq> rc_db c" using ok r c unfolding fault_ok_def by blast
    show "stmt_of v (snd cs') st = Some (rc_db c', q)" if "stmt_of v (World s) st = Some (rc_db c', q)" for st q
      using I that by (auto simp: guarded_def dest: stmt_le)
  qed (use ok r I in \<open>simp_all add: fault_ok_def guarded_def\<close>)
  moreover have "r = rel" if "CONNS s r = Some c'" "rc_db c' = rc_db c" for r c'
    using ok that c unfolding fault_ok_def by blast
  ultimately show ?thesis using ok I by (auto simp: fault_ok_def guarded_def)
qed

lemma wlp_on_conn:
  assumes ok: "fault_ok v D s"
    and f: "\<And>w0 db cs. guarded v D w0 db cs \<Longrightarrow> wlp f (\<lambda>x cs'. guarded v D w0 db cs' \<and> P x) (guarded v D w0 db) cs"
  shows "wlp (on_conn rel f) (\<lambda>x s'. fault_ok v D s' \<and> P x) (fault_ok v D) s"
proof (cases "CONNS s rel")
  case None
  with ok show ?thesis by (simp add: wlp_def on_conn_def)
next
  case (Some c)
  then have "guarded v D (World s) (rc_db c) (c, World s)" using ok by (auto simp: guarded_def fault_ok_def)
  from f [OF this] fault_ok_upd [OF ok Some] show ?thesis
    by (auto simp: wlp_def on_conn_def Some split: option.splits res.splits)
qed

lemma fault_ok_cong:
  "World s' = World s \<Longrightarrow> CONNS s' = CONNS s \<Longrightarrow> fault_ok v D s' = fault_ok v D s"
  by (simp add: fault_ok_def)

lemma fault_ok_quiet: "fault_ok v D s \<Longrightarrow> quiet v (World s) w \<Longrightarrow> fault_ok v D (s\<lparr>World := w\<rparr>)"
  by (auto simp: fault_ok_def quiet_def conn_guarded_def)

lemma fault_ok_new:
  assumes "fault_ok v D s" and "conn_guarded v c (World s)" and "\<forall>r c'. CONNS s r = Some c' \<longrightarrow> rc_db c' \<noteq> rc_db c"
  shows "fault_ok v D (s\<lparr>CONNS := (CONNS s)(rel \<mapsto> c)\<rparr>)"
proof -
  have inj: "CONNS s r = Some c1 \<Longrightarrow> CONNS s r' = Some c2 \<Longrightarrow> rc_db c1 = rc_db c2 \<Longrightarrow> r = r'" for r r' c1 c2
    using assms(1) unfolding fault_ok_def by blast
  show ?thesis
    unfolding fault_ok_def
  proof (intro conjI allI impI)
    fix r r' c1 c2
    assume "CONNS (s\<lparr>CONNS := (CONNS s)(rel \<mapsto> c)\<rparr>) r = Some c1 \<and> CONNS (s\<lparr>CONNS := (CONNS s)(rel \<mapsto> c)\<rparr>) r' = Some c2 \<and>
      rc_db c1 = rc_db c2"
    then show "r = r'"
      using assms(3) [rule_format, of r c1] assms(3) [rule_format, of r' c2] inj [of r c1 r' c2]
      by (cases "r = rel"; cases "r' = rel") simp_all
  next
    fix r c1 assume "CONNS (s\<lparr>CONNS := (CONNS s)(rel \<mapsto> c)\<rparr>) r = Some c1"
    then show "conn_guarded v c1 (World (s\<lparr>CONNS := (CONNS s)(rel \<mapsto> c)\<rparr>))"
      using assms(1,2) by (cases "r = rel") (simp_all add: fault_ok_def)
  qed (use assms(1) in \<open>simp_all add: fault_ok_def\<close>)
qed

section \<open>Opening through failures\<close>

context fallible_engine
begin

lemma exec_schema_guarded:
  assumes "G D w0 db cs" and "parse_sql sq = Some q" and "schema_text q"
  shows "wlp (exec h sq) (\<lambda>_. G D w0 db) (G D w0 db) cs"
proof (cases cs)
  case (Pair c w)
  have "rc_db c = db" using assms(1) Pair by (simp add: guarded_def)
  with guarded_quiet [of v D w0 db c w, OF _ schema_any [OF _ assms(2,3), of w db]] assms(1) guarded_sane [of v D w0 db c w] Pair show ?thesis
    by (auto simp: exec_def try_exec_def die_def conn_prog_defs wlp_rules split: sum.splits)
qed

lemma read_version_guarded:
  assumes "G D w0 db cs" shows "wlp (read_user_version h) (\<lambda>_. G D w0 db) (G D w0 db) cs"
  unfolding read_user_version_def
  by (rule wlpB [OF prepare_guarded [OF assms, where b = False and q = Q_version]], simp, simp,
      rule wlpB [OF step_guarded], assumption, simp, unfold wlp_bindE wlp_getE,
      rule wlpS [OF bind_guarded(3)], assumption, simp add: wlp_ret guarded_stmtD)

lemma init_guarded:
  assumes "G D w0 db cs" shows "wlp (init_conn h) (\<lambda>_. G D w0 db) (G D w0 db) cs"
proof -
  note ex = exec_schema_guarded
  have e1: "wlp (exec h ''DROP INDEX IF EXISTS storage_dead;'') (\<lambda>_. G D w0 db) (G D w0 db) cs" if "G D w0 db cs" for cs
    by (rule ex [OF that, where q = X_drop_dead_index]) simp_all
  have e2: "wlp (exec h ''ALTER TABLE storage DROP COLUMN prev;'') (\<lambda>_. G D w0 db) (G D w0 db) cs" if "G D w0 db cs" for cs
    by (rule ex [OF that, where q = X_drop_prev]) simp_all
  have mig: "wlp (migrate_schema h v') (\<lambda>_. G D w0 db) (G D w0 db) cs" if "G D w0 db cs" for v' cs
    unfolding migrate_schema_def
    by (rule wlpS [where P = "\<lambda>_. G D w0 db"], simp add: e1 wlp_ret that,
        rule wlpS [where P = "\<lambda>_. G D w0 db"], simp add: e2 wlp_ret, rule ex [OF _ schema_texts(3)]) simp_all
  have inst: "wlp (install_schema h) (\<lambda>_. G D w0 db) (G D w0 db) cs" if "G D w0 db cs" for cs
    unfolding install_schema_def by (rule ex [OF that schema_texts(2)]) simp
  show ?thesis
    unfolding init_conn_def
    by (rule wlpS [OF ex [OF assms schema_texts(1)]], simp, rule wlpB [OF read_version_guarded], assumption)
      (simp add: die_def wlp_rules mig inst)
qed

lemma finalize_others:
  assumes "sane v w" and "\<And>st. st \<in> set sts \<Longrightarrow> stmt_of v w0 st \<in> {None} \<union> Some ` ({db} \<times> UNIV)"
    and "\<And>st db' q. db' \<noteq> db \<Longrightarrow> stmt_of v w0 st = Some (db', q) \<Longrightarrow> stmt_of v w st = Some (db', q)"
  defines "w' \<equiv> fold (sqlite3_finalize h) sts w"
  shows "sane v w' \<and> disk v w' = disk v w \<and> in_tx v w' = in_tx v w \<and> open_dbs v w' = open_dbs v w \<and>
    (\<forall>st db' q. db' \<noteq> db \<longrightarrow> stmt_of v w0 st = Some (db', q) \<longrightarrow> stmt_of v w' st = Some (db', q))"
  unfolding w'_def using assms(1-3)
proof (induction sts arbitrary: w)
  case (Cons st sts)
  note f = finalize_any [OF Cons.prems(1), of st]
  have "stmt_of v (sqlite3_finalize h st w) st' = Some (db', q)" if "db' \<noteq> db" "stmt_of v w0 st' = Some (db', q)" for st' db' q
    using f Cons.prems(2) [of st] Cons.prems(3) [OF that] that by (cases "st' = st") auto
  with Cons.IH [of "sqlite3_finalize h st w"] f Cons.prems(2) show ?case by simp
qed simp

lemma drop_guarded:
  assumes G: "G D w0 db (c, w)"
  defines "w' \<equiv> drop_conn h c w"
  shows "sane v w' \<and> disk v w' = D \<and> (\<forall>c'. conn_guarded v c' w0 \<and> rc_db c' \<noteq> db \<longrightarrow> conn_guarded v c' w')"
proof -
  have c: "rc_db c = db" "conn_guarded v c w" "sane v w" "disk v w = D" and le: "stmt_of v w0 \<subseteq>\<^sub>m stmt_of v w"
    and fr: "\<forall>db'. db' \<noteq> db \<longrightarrow> in_tx v w db' = in_tx v w0 db'" "open_dbs v w = open_dbs v w0"
    using G by (auto simp: guarded_def)
  have own: "stmt_of v w0 st \<in> {None} \<union> Some ` ({db} \<times> UNIV)" if "st \<in> set (stmt_iter h (map snd (cache c)))" for st
  proof -
    have "st \<in> snd ` set (cache c)" using that by (simp add: stmt_iter_any)
    then obtain sq where "(sq, st) \<in> set (cache c)" by auto
    then obtain q where "stmt_of v w st = Some (db, q)" using c(1,2) unfolding conn_guarded_def by blast
    with stmt_le [OF le, of st] show ?thesis by (cases "stmt_of v w0 st") auto
  qed
  let ?f = "fold (sqlite3_finalize h) (stmt_iter h (map snd (cache c))) w"
  have fin: "sane v ?f \<and> disk v ?f = disk v w \<and> in_tx v ?f = in_tx v w \<and> open_dbs v ?f = open_dbs v w \<and>
    (\<forall>st db' q. db' \<noteq> db \<longrightarrow> stmt_of v w0 st = Some (db', q) \<longrightarrow> stmt_of v ?f st = Some (db', q))"
    by (rule finalize_others [OF c(3) own]) (auto dest: stmt_le [OF le])
  note cl = close_any [of ?f db]
  have "conn_guarded v c' w'" if "conn_guarded v c' w0" "rc_db c' \<noteq> db" for c'
    by (rule conn_guarded_frame [OF that]) (use fin cl fr that c in \<open>auto simp: w'_def drop_conn_def\<close>)
  then show ?thesis using fin cl c by (simp add: w'_def drop_conn_def)
qed

lemma fault_ok_others:
  assumes "fault_ok v D s" and "sane v w" and "disk v w = D"
    and "\<And>r c. CONNS s r = Some c \<Longrightarrow> conn_guarded v c (World s) \<Longrightarrow> conn_guarded v c w"
  shows "fault_ok v D (s\<lparr>World := w\<rparr>)"
  using assms by (auto simp: fault_ok_def)

lemma path_faults:
  assumes "fault_ok v D s"
  shows "wlp (path_for h rel) (\<lambda>_ s'. CONNS s' = CONNS s \<and> fault_ok v D s') (fault_ok v D) s"
proof -
  have "fault_ok v D (s\<lparr>World := snd (fs_create_dir_all h p (World s))\<rparr>)" for p
    by (rule fault_ok_quiet [OF assms]) (use assms in \<open>simp add: fault_ok_def mkdir_any\<close>)
  moreover have "fault_ok v D (s\<lparr>World := w, SQLITE_DIR := d\<rparr>) = fault_ok v D (s\<lparr>World := w\<rparr>)" for d w
    by (rule fault_ok_cong) simp_all
  ultimately show ?thesis using assms
    by (auto simp: path_for_def with_dir_def hostB_def Let_def wlp_rules split: option.splits)
qed

lemma setup_faults:
  assumes ok: "fault_ok v D s" and w: "sane v w" "disk v w = D" "db \<in> open_dbs v w"
    and old: "\<And>r c. CONNS s r = Some c \<Longrightarrow> conn_guarded v c w \<and> rc_db c \<noteq> db"
  shows "wlp (setup_conn h db) (\<lambda>c s'. CONNS s' = CONNS s \<and> fault_ok v D s' \<and> conn_guarded v c (World s') \<and> rc_db c = db)
    (fault_ok v D) (s\<lparr>World := w\<rparr>)"
proof -
  have "G D w db (RelConn_new db, w)" using w by (simp add: guarded_def conn_guarded_def RelConn_new_def)
  note i = init_guarded [OF this]
  have ok1: "fault_ok v D (s\<lparr>World := w'\<rparr>) \<and> conn_guarded v c w' \<and> rc_db c = db" if "G D w db (c, w')" for c w'
  proof (intro conjI)
    show "fault_ok v D (s\<lparr>World := w'\<rparr>)"
    proof (rule fault_ok_others [OF ok])
      fix r c' assume "CONNS s r = Some c'"
      from old [OF this] have "conn_guarded v c' w" "rc_db c' \<noteq> db" by auto
      then show "conn_guarded v c' w'"
        by (rule conn_guarded_frame) (use that in \<open>auto simp: guarded_def dest: stmt_le\<close>)
    qed (use that in \<open>simp_all add: guarded_def\<close>)
  qed (use that in \<open>simp_all add: guarded_def\<close>)
  have ok2: "fault_ok v D (s\<lparr>World := drop_conn h c w'\<rparr>)" if "G D w db (c, w')" for c w'
    by (rule fault_ok_others [OF ok]) (use drop_guarded [OF that] old in blast)+
  show ?thesis
  proof (cases "init_conn h (RelConn_new db, w)")
    case None
    then show ?thesis by (simp add: wlp_def setup_conn_def)
  next
    case (Some y)
    then obtain r c w' where y: "init_conn h (RelConn_new db, w) = Some (r, c, w')" by (cases y) auto
    from i y have g: "G D w db (c, w')" by (cases r) (simp_all add: wlp_def)
    show ?thesis using y ok1 [OF g] ok2 [OF g] by (cases r) (simp_all add: wlp_def setup_conn_def)
  qed
qed

lemma open_faults:
  assumes "fault_ok v D s"
  shows "wlp (open_conn h rel) (\<lambda>c s'. CONNS s' = CONNS s \<and> fault_ok v D s' \<and> conn_guarded v c (World s') \<and>
    (\<forall>r c'. CONNS s r = Some c' \<longrightarrow> rc_db c' \<noteq> rc_db c)) (fault_ok v D) s"
  unfolding open_conn_def
proof (rule wlpB [OF path_faults [OF assms]], elim conjE)
  fix p s1 assume cs: "CONNS s1 = CONNS s" and ok: "fault_ok v D s1"
  let ?r = "sqlite3_open_v2 h p (World s1)" and ?Q = "\<lambda>c s'. CONNS s' = CONNS s \<and> fault_ok v D s' \<and> conn_guarded v c (World s') \<and>
    (\<forall>r c'. CONNS s r = Some c' \<longrightarrow> rc_db c' \<noteq> rc_db c)"
  have sane: "sane v (World s1)" and D: "disk v (World s1) = D" using ok by (simp_all add: fault_ok_def)
  note o = open_any [OF sane, of p]
  show "wlp (if CHR 0x00 \<in> set p then panic ''path contains NUL byte''
       else bindE (hostB (sqlite3_open_v2 h p)) (\<lambda>r.
         if fst r \<noteq> SQLITE_OK
         then (case snd r of
                 None \<Rightarrow> die (''open '' @ p @ '': open failed (no handle)'')
               | Some db \<Rightarrow>
                   bindE (getE (\<lambda>s. sqlite3_errmsg h db (World s))) (\<lambda>m.
                   seqE (hostWB (sqlite3_close h db)) (die (''open '' @ p @ '': '' @ m))))
         else setup_conn h (case snd r of Some db \<Rightarrow> db | None \<Rightarrow> 0))) ?Q (fault_ok v D) s1"
  proof (cases "snd (fst ?r)")
    case None
    then have "fault_ok v D (s1\<lparr>World := snd ?r\<rparr>)" "fst (fst ?r) \<noteq> SQLITE_OK" using o fault_ok_quiet [OF ok] by auto
    then show ?thesis using ok None by (simp add: hostB_def die_def wlp_rules)
  next
    case (Some db)
    have old: "conn_guarded v c (snd ?r) \<and> rc_db c \<noteq> db" if "CONNS s1 r = Some c" for r c
    proof -
      have c: "conn_guarded v c (World s1)" using ok that by (auto simp: fault_ok_def)
      then have "rc_db c \<noteq> db" using o Some by (auto simp: conn_guarded_def)
      with c show ?thesis by (auto intro!: conn_guarded_frame [OF c] simp: Some o [unfolded Some, simplified])
    qed
    have w1: "sane v (snd ?r)" "disk v (snd ?r) = D" "db \<in> open_dbs v (snd ?r)" using o Some D by simp_all
    have "fault_ok v D (s1\<lparr>World := sqlite3_close h db (snd ?r)\<rparr>)"
    proof (rule fault_ok_others [OF ok])
      fix r c assume "CONNS s1 r = Some c"
      from old [OF this] have "conn_guarded v c (snd ?r)" "rc_db c \<noteq> db" by auto
      then show "conn_guarded v c (sqlite3_close h db (snd ?r))"
        by (rule conn_guarded_frame) (use close_any [OF w1(1), of db] in simp_all)
    qed (use close_any [OF w1(1), of db] w1(2) in simp_all)
    moreover have "wlp (setup_conn h db) ?Q (fault_ok v D) (s1\<lparr>World := snd ?r\<rparr>)"
    proof (rule wlp_mono [OF setup_faults [OF ok w1 old]])
      fix c and s' :: "'w backend"
      assume "CONNS s' = CONNS s1 \<and> fault_ok v D s' \<and> conn_guarded v c (World s') \<and> rc_db c = db"
      then show "?Q c s'" using cs old by metis
    qed
    ultimately show ?thesis using ok Some by (simp add: hostB_def hostWB_def die_def wlp_rules)
  qed
qed

lemma ensure_faults:
  assumes "fault_ok v D s" shows "wlp (ensure_in_xact h rel) (\<lambda>_. fault_ok v D) (fault_ok v D) s"
proof -
  let ?s = "s\<lparr>TX_RELS := insert rel (TX_RELS s)\<rparr>"
  have ok: "fault_ok v D ?s" using assms by (simp add: fault_ok_def)
  have hooks: "fault_ok v D (s'\<lparr>HOOKS := hs\<rparr>) = fault_ok v D s'" for s' :: "'w backend" and hs by (rule fault_ok_cong) simp_all
  have "wlp (open_conn h rel) (\<lambda>c s'. fault_ok v D (s'\<lparr>CONNS := (CONNS s')(rel \<mapsto> c)\<rparr>)) (fault_ok v D) ?s"
    by (rule wlp_mono [OF open_faults [OF ok]]) (use fault_ok_new in fastforce)+
  with assms ok show ?thesis
    by (auto simp: ensure_in_xact_def register_hooks_def wlp_rules hooks split: option.splits elim!: wlp_mono)
qed

lemma wlp_with_conn:
  assumes ok: "fault_ok v D s"
    and f: "\<And>w0 db cs. guarded v D w0 db cs \<Longrightarrow> wlp f (\<lambda>_. guarded v D w0 db) (guarded v D w0 db) cs"
  shows "wlp (with_conn h rel f) (\<lambda>_. fault_ok v D) (fault_ok v D) s"
  unfolding with_conn_def
  by (rule wlpS [OF ensure_faults [OF ok]], rule wlp_mono [OF wlp_on_conn [where P = "\<lambda>_. True"]]) (use f in auto)

end

lemma wlp_discard: "wlp m (\<lambda>_. Q) E s \<Longrightarrow> wlp (bindE m (\<lambda>_. ret ())) (\<lambda>_. Q) E s"
  by (simp add: wlp_rules)

context fallible_engine
begin

lemma update_guarded:
  assumes "G D w0 db cs" and "in_txn (fst cs)"
  shows "wlp (bindE (prepare_cached h ''INSERT INTO storage (xmin, cmin, tuple) VALUES (?1, ?2, ?3)'') (\<lambda>ins.
      seqE (bind_u32 h ins 1 xid) (seqE (bind_u32 h ins 2 cid) (seqE (bind_blob h ins 3 b)
     (seqE (step_done h ins) (getE f)))))) (\<lambda>_. G D w0 db) (G D w0 db) cs"
  by (rule wlpB [OF prepare_guarded [OF assms(1), where b = True and q = Q_insert]], simp add: assms(2), simp)
    (rule wlpS bind_guarded(1) bind_value_guarded(1) run_guarded get_guarded | assumption)+

lemma run_op_faults:
  assumes "fault_ok v D s"
  shows "wlp (run_op h rel op) (\<lambda>_. fault_ok v D) (fault_ok v D) s"
proof (cases op)
  case (OpInsert x c b)
  show ?thesis
    unfolding OpInsert run_op.simps insert_row_def
    by (rule wlp_discard, rule wlp_with_conn [OF assms], rule write_guarded [where q = Q_insert], assumption, simp)
      (rule wlpS bind_guarded(1) bind_value_guarded(1) run_guarded get_guarded | assumption)+
next
  case (OpBatch x c bs)
  show ?thesis
    unfolding OpBatch run_op.simps insert_batch_def
    by (rule wlp_discard, rule wlp_with_conn [OF assms], rule write_guarded [where q = Q_insert], assumption, simp)
      (rule wlpS bind_guarded(1) batch_loop_guarded | assumption)+
next
  case (OpStamp rid x c)
  show ?thesis
    unfolding OpStamp run_op.simps set_xmax_def
    by (rule wlp_discard, rule wlp_with_conn [OF assms], rule write_guarded [where q = Q_stamp], assumption, simp)
      (rule wlpS bind_guarded(1,2) run_guarded get_guarded | assumption)+
next
  case (OpDelete rid)
  show ?thesis
    unfolding OpDelete run_op.simps physical_delete_def
    by (rule wlp_discard, rule wlp_with_conn [OF assms], rule write_guarded [where q = Q_delete], assumption, simp)
      (rule wlpS bind_guarded(2) run_guarded get_guarded | assumption)+
next
  case (OpPurge x)
  show ?thesis
    unfolding OpPurge run_op.simps delete_dead_def
    by (rule wlp_discard, rule wlp_with_conn [OF assms], rule write_guarded [where q = Q_vacuum], assumption, simp)
      (rule wlpS bind_guarded(1) run_guarded get_guarded | assumption)+
next
  case (OpMeta k val)
  show ?thesis
    unfolding OpMeta run_op.simps meta_set_def
    by (rule wlp_with_conn [OF assms], rule write_guarded [where q = Q_meta_set], assumption, simp)
      (rule wlpS bind_value_guarded step_last_guarded | assumption)+
next
  case OpRead
  show ?thesis
    unfolding OpRead run_op.simps select_all_def
    by (rule wlp_discard, rule wlp_with_conn [OF assms], rule read_guarded [where q = Q_select_all], assumption, simp)
      (rule select_loop_guarded [where q = Q_select_all], simp)
next
  case OpReset
  show ?thesis
    unfolding OpReset run_op.simps reset_def exec_def
    by (rule wlp_with_conn [OF assms], rule wlpS [OF begin_guarded], assumption, elim conjE,
        rule wlpB [OF exec_inside_guarded [where q = X_clear]], assumption+, simp, simp)
      (auto simp: wlp_rules die_def split: sum.splits)
next
  case (OpUpdate rid x c b)
  show ?thesis
    unfolding OpUpdate run_op.simps update_row_def
    by (rule wlp_discard, rule wlp_with_conn [OF assms], rule write_guarded [where q = Q_stamp], assumption, simp)
      (rule wlpS bind_guarded(1,2) step_done_guarded update_guarded | assumption | erule guarded_stmtD guarded_stmt_in_txn)+
qed

text \<open>The hooks. Those of an abort do not panic, whatever the engine answers.\<close>

lemma rollback_guarded:
  assumes "G D w0 db cs"
  shows "wlp (rollback h) (\<lambda>_ cs'. G D w0 db cs') (G D w0 db) cs"
proof (cases cs)
  case (Pair c w)
  let ?w = "snd (sqlite3_exec h db ''ROLLBACK'' w)"
  have r: "quiet_but v db w ?w" using rollback_any [OF guarded_sane [OF assms [unfolded Pair]], of db] .
  then have w: "quiet v ?w (pg_warning h m ?w)" for m by (intro warning_any) (simp add: quiet_but_def)
  have "G D w0 db (c\<lparr>in_txn := False\<rparr>, w')" if "quiet_but v db w w'" for w'
    using assms that Pair by (auto simp: guarded_def conn_guarded_def quiet_but_def)
  moreover have "quiet_but v db w (pg_warning h m ?w)" for m using r w [of m] by (simp add: quiet_def quiet_but_def)
  ultimately show ?thesis using r assms Pair
    by (auto simp: rollback_def try_exec_def conn_prog_defs wlp_rules guarded_def split: sum.splits)
qed

lemma warn_guarded:
  "fault_ok v D s \<Longrightarrow> wlp (hostWB (pg_warning h m)) (\<lambda>_. fault_ok v D) (fault_ok v D) s"
  using warning_any [of "World s" m] by (auto simp: hostWB_def wlp_rules fault_ok_def quiet_def conn_guarded_def)

lemma each_conn_faults:
  assumes "fault_ok v D s"
    and "\<And>s rel c. fault_ok v D s \<Longrightarrow> CONNS s rel = Some c \<Longrightarrow> wlp (K rel c) (\<lambda>_. fault_ok v D) (fault_ok v D) s"
  shows "wlp (forE rels (\<lambda>rel. bindE (getE (\<lambda>s. CONNS s rel))
      (\<lambda>c. case c of None \<Rightarrow> ret () | Some c \<Rightarrow> K rel c))) (\<lambda>_. fault_ok v D) (fault_ok v D) s"
  by (rule wlp_forE [where I = "fault_ok v D"]) (auto simp: wlp_rules assms split: option.splits)

lemma sub_start_faults:
  assumes "fault_ok v D s" shows "wlp (on_sub_start h n) (\<lambda>_. fault_ok v D) (fault_ok v D) s"
proof -
  have body: "wlp (seqE (begin_if_needed h) (try_exec h (''SAVEPOINT '' @ sp_name n @ '';'')))
      (\<lambda>_ cs'. G D w0 db cs' \<and> True) (G D w0 db) cs" if "G D w0 db cs" for w0 db cs
    by (rule wlpS [OF begin_guarded [OF that]], elim conjE,
        rule wlp_mono [OF exec_inside_guarded [OF _ _ sp_texts(1)]]) auto
  have "wlp (bindE (on_conn rel (seqE (begin_if_needed h) (try_exec h (''SAVEPOINT '' @ sp_name n @ '';''))))
      (\<lambda>r. case r of Inr _ \<Rightarrow> ret () | Inl e \<Rightarrow> hostWB (pg_warning h (''sqlite_heap: savepoint failed: '' @ e))))
      (\<lambda>_. fault_ok v D) (fault_ok v D) s" if "fault_ok v D s" "CONNS s rel = Some c" for s rel c
    by (rule wlpB [OF wlp_on_conn [OF that(1) body]], assumption) (auto simp: wlp_ret warn_guarded split: sum.splits)
  from each_conn_faults [OF assms this] show ?thesis by (simp add: on_sub_start_def wlp_rules)
qed

lemma run_on_txn_conns_faults:
  assumes "fault_ok v D s" and q: "parse_sql sq = Some q" "stays_inside q"
  shows "wlp (run_on_txn_conns h sq) (\<lambda>_. fault_ok v D) (fault_ok v D) s"
proof -
  have "wlp (if in_txn c then bindE (on_conn rel (try_exec h sq)) (\<lambda>r. case r of Inr _ \<Rightarrow> ret ()
      | Inl e \<Rightarrow> hostWB (pg_warning h (''sqlite_heap: `'' @ sq @ ''` failed: '' @ e))) else ret ())
    (\<lambda>_. fault_ok v D) (fault_ok v D) s" if s: "fault_ok v D s" "CONNS s rel = Some c" for s rel c
  proof (cases "in_txn c")
    case True
    have g: "guarded v D (World s) (rc_db c) (c, World s)" using s by (auto simp: guarded_def fault_ok_def)
    have "wlp (try_exec h sq) (\<lambda>_. G D (World s) (rc_db c)) (G D (World s) (rc_db c)) (c, World s)"
      by (rule wlp_mono [OF exec_inside_guarded [OF g _ q]]) (auto simp: True)
    then have "wlp (on_conn rel (try_exec h sq)) (\<lambda>_. fault_ok v D) (fault_ok v D) s"
      using fault_ok_upd [OF s] by (auto simp: wlp_def on_conn_def s split: option.splits res.splits)
    then show ?thesis unfolding if_P [OF True]
      by (rule wlpB) (auto simp: wlp_ret warn_guarded split: sum.splits)
  qed (use s in \<open>simp add: wlp_ret\<close>)
  from each_conn_faults [OF assms(1) this] show ?thesis by (simp add: run_on_txn_conns_def wlp_rules)
qed

lemma abort_faults:
  assumes "fault_ok v D s" shows "wlp (on_abort h) (\<lambda>_. fault_ok v D) (fault_ok v D) s"
proof -
  have "wlp (on_conn rel (rollback h)) (\<lambda>_ s'. fault_ok v D s' \<and> True) (fault_ok v D) s"
    if "fault_ok v D s" "CONNS s rel = Some c" for s rel c
    by (rule wlp_on_conn [OF that(1)]) (auto intro: wlp_mono [OF rollback_guarded])
  then have "wlp (on_conn rel (rollback h)) (\<lambda>_. fault_ok v D) (fault_ok v D) s"
    if "fault_ok v D s" "CONNS s rel = Some c" for s rel c using that by simp
  moreover have "fault_ok v D (s\<lparr>TX_RELS := {}\<rparr>)" using assms by (simp add: fault_ok_def)
  ultimately show ?thesis using each_conn_faults [of D "s\<lparr>TX_RELS := {}\<rparr>" "\<lambda>rel c. on_conn rel (rollback h)"]
    by (simp add: on_abort_def take_and_run_def wlp_rules)
qed

end

text \<open>\<open>rollback\<close> and \<open>on_abort\<close> return, whatever the host answers, and clear the flags.\<close>

lemma rollback_returns:
  "wp (rollback h) (\<lambda>_ cs'. \<not> in_txn (fst cs')) cs"
  by (auto simp: rollback_def try_exec_def conn_prog_defs wp_rules split: sum.splits)

lemma rollback_each:
  fixes h :: "'w host"
  shows "wp (forE rels (\<lambda>rel. bindE (getE (\<lambda>s. CONNS s rel)) (\<lambda>c. case c of None \<Rightarrow> ret () | Some c \<Rightarrow> on_conn rel (rollback h))))
    (\<lambda>_ s'. TX_RELS s' = TX_RELS s \<and> (\<forall>rel c. CONNS s' rel = Some c \<longrightarrow> rel \<in> set rels \<or> CONNS s rel \<noteq> Some c \<longrightarrow> \<not> in_txn c)) s"
proof (induction rels rule: rev_induct)
  case Nil
  then show ?case by (simp add: wp_ret)
next
  case (snoc x rels)
  show ?case
    unfolding forE_snoc
  proof (rule wpS [OF snoc], unfold wp_bindE wp_getE, elim conjE)
    fix s1 :: "'w backend" assume s1: "TX_RELS s1 = TX_RELS s"
      "\<forall>rel c. CONNS s1 rel = Some c \<longrightarrow> rel \<in> set rels \<or> CONNS s rel \<noteq> Some c \<longrightarrow> \<not> in_txn c"
    let ?Q = "\<lambda>_ s'. TX_RELS s' = TX_RELS s \<and>
      (\<forall>rel c. CONNS s' rel = Some c \<longrightarrow> rel \<in> set (rels @ [x]) \<or> CONNS s rel \<noteq> Some c \<longrightarrow> \<not> in_txn c)"
    show "wp (case CONNS s1 x of None \<Rightarrow> ret () | Some c \<Rightarrow> on_conn x (rollback h)) ?Q s1"
    proof (cases "CONNS s1 x")
      case None
      with s1 show ?thesis by (auto simp: wp_ret)
    next
      case (Some c)
      have "wp (on_conn x (rollback h)) ?Q s1"
        by (rule wp_on_conn [OF Some], rule wp_mono [OF rollback_returns]) (use s1 in auto)
      with Some show ?thesis by simp
    qed
  qed
qed

lemma on_abort_returns:
  assumes "set (hash_iter h (TX_RELS s)) = TX_RELS s"
  shows "wp (on_abort h) (\<lambda>_ s'. TX_RELS s' = {} \<and> (\<forall>rel c. rel \<in> TX_RELS s \<and> CONNS s' rel = Some c \<longrightarrow> \<not> in_txn c)) s"
  unfolding on_abort_def take_and_run_def wp_bindE wp_getE wp_seqE wp_modE
  by (rule wp_mono [OF rollback_each]) (use assms in auto)

section \<open>Attempts\<close>

text \<open>
  Work of a transaction, whatever comes of it: an operation on any relation, which opens its file
  if need be, or a subtransaction event, that returns or panics.
\<close>

inductive attempt :: "'w host \<Rightarrow> 'w backend \<Rightarrow> 'w backend \<Rightarrow> bool" for h where
  try_op: "run_op h rel op s = Some (r, s') \<Longrightarrow> attempt h s s'"
| try_sub_start: "on_sub_start h n s = Some (r, s') \<Longrightarrow> attempt h s s'"
| try_sub_commit: "on_sub_commit h n s = Some (r, s') \<Longrightarrow> attempt h s s'"
| try_sub_abort: "on_sub_abort h n s = Some (r, s') \<Longrightarrow> attempt h s s'"

context fallible_engine
begin

lemma attempt_faults:
  assumes "attempt h s s'" and "fault_ok v D s" shows "fault_ok v D s'"
  using assms(1)
proof cases
  case (try_op rel op r)
  from wlp_result [OF run_op_faults [OF assms(2)] try_op] show ?thesis .
next
  case (try_sub_start n r)
  from wlp_result [OF sub_start_faults [OF assms(2)] try_sub_start] show ?thesis .
next
  case (try_sub_commit n r)
  from wlp_result [OF run_on_txn_conns_faults [OF assms(2) sp_texts(2)] try_sub_commit [unfolded on_sub_commit_def]]
  show ?thesis by simp
next
  case (try_sub_abort n r)
  from wlp_result [OF run_on_txn_conns_faults [OF assms(2) sp_texts(3)] try_sub_abort [unfolded on_sub_abort_def]]
  show ?thesis by simp
qed

lemma attempts_faults: "(attempt h)\<^sup>*\<^sup>* s s' \<Longrightarrow> fault_ok v D s \<Longrightarrow> fault_ok v D s'"
  by (induction rule: rtranclp_induct) (auto intro: attempt_faults)

lemma attempts_then_abort:
  assumes "(attempt h)\<^sup>*\<^sup>* s s'" and "fault_ok v D s" and "set (hash_iter h (TX_RELS s')) = TX_RELS s'"
  shows "fault_ok v D s' \<and> wp (on_abort h) (\<lambda>_ s''. fault_ok v D s'' \<and> TX_RELS s'' = {} \<and>
    (\<forall>rel c. rel \<in> TX_RELS s' \<and> CONNS s'' rel = Some c \<longrightarrow> \<not> in_txn c)) s'"
proof -
  have ok: "fault_ok v D s'" by (rule attempts_faults [OF assms(1,2)])
  with abort_faults [OF ok] on_abort_returns [OF assms(3)] show ?thesis by (auto simp: wlp_def wp_def)
qed

end

end
