(* ===== verification/Ref_Engine.thy ===== *)
theory Ref_Engine
  imports Sql_Engine
begin

text \<open>
  An engine that does exactly what the contract \<open>sqlite_engine\<close> documents, for every SQL text
  the sources issue. It shows that the contract can be met and is the host on which the
  properties are evaluated.
\<close>

section \<open>Definitions\<close>

record ref_world =
  rw_eng :: eng
  rw_next :: nat
  rw_sizes :: "string \<rightharpoonup> u64"
  rw_dir :: "string list option"
  rw_log :: "string list"

text \<open>Handles are numbered; a handle below \<open>rw_next\<close> is never handed out again.\<close>

definition ref_up :: "ref_world \<Rightarrow> bool" where
  "ref_up w \<longleftrightarrow> (\<forall>n \<ge> rw_next w. e_dbs (rw_eng w) n = None \<and> e_stmts (rw_eng w) n = None) \<and>
     (\<forall>st s. e_stmts (rw_eng w) st = Some s \<longrightarrow> st_db s < rw_next w)"

definition on_eng :: "(eng \<Rightarrow> eng) \<Rightarrow> ref_world \<Rightarrow> ref_world" where
  "on_eng f w = w\<lparr>rw_eng := f (rw_eng w)\<rparr>"

definition on_stmt :: "stp \<Rightarrow> (sstmt \<Rightarrow> sstmt) \<Rightarrow> eng \<Rightarrow> eng" where
  "on_stmt st f e = (case e_stmts e st of Some s \<Rightarrow> put_stmt st (f s) e | None \<Rightarrow> e)"

definition ref_open :: "string \<Rightarrow> ref_world \<Rightarrow> (int \<times> dbp option) \<times> ref_world" where
  "ref_open p w = ((SQLITE_OK, Some (rw_next w)),
     (on_eng (\<lambda>e. put_conn (rw_next w) (open_conn_at p e) e) w)\<lparr>rw_next := Suc (rw_next w)\<rparr>)"

definition ref_exec :: "dbp \<Rightarrow> string \<Rightarrow> ref_world \<Rightarrow> (int \<times> string option) \<times> ref_world" where
  "ref_exec db sq w =
     (case parse_sql sq of
        None \<Rightarrow> ((1, Some ''near syntax error''), w)
      | Some q \<Rightarrow>
          (case eng_exec db q (rw_eng w) of
             None \<Rightarrow> ((1, Some ''SQL logic error''), w)
           | Some e \<Rightarrow> ((SQLITE_OK, None), on_eng (\<lambda>_. e) w)))"

definition ref_prepare :: "dbp \<Rightarrow> string \<Rightarrow> ref_world \<Rightarrow> (int \<times> stp) \<times> ref_world" where
  "ref_prepare db sq w =
     (case parse_sql sq of
        None \<Rightarrow> ((1, 0), w)
      | Some q \<Rightarrow>
          (case e_dbs (rw_eng w) db of
             None \<Rightarrow> ((1, 0), w)
           | Some d \<Rightarrow>
               if preparable q (db_tab d)
               then ((SQLITE_OK, rw_next w),
                     (on_eng (put_stmt (rw_next w) (fresh_stmt db q)) w)\<lparr>rw_next := Suc (rw_next w)\<rparr>)
               else ((1, 0), w)))"

definition ref_step :: "stp \<Rightarrow> ref_world \<Rightarrow> int \<times> ref_world" where
  "ref_step st w =
     (case eng_step st (rw_eng w) of
        None \<Rightarrow> (1, w)
      | Some (b, e) \<Rightarrow> ((if b then SQLITE_ROW else SQLITE_DONE), on_eng (\<lambda>_. e) w))"

definition ref_column :: "stp \<Rightarrow> nat \<Rightarrow> ref_world \<Rightarrow> sval" where
  "ref_column st i w =
     (let r = current_row st (rw_eng w) in if i < length r then r ! i else SNull)"

fun as_blob :: "sval \<Rightarrow> bytes" where
  "as_blob (SBlob b) = b"
| "as_blob _ = []"

definition ref_conn :: "dbp \<Rightarrow> ref_world \<Rightarrow> dbconn" where
  "ref_conn db w = (case e_dbs (rw_eng w) db of Some d \<Rightarrow> d
     | None \<Rightarrow> \<lparr>db_path = [], db_tab = empty_tables, db_txn = None, db_last_rowid = 0, db_changes = 0\<rparr>)"

definition ref_host :: "ref_world host" where
  "ref_host = \<lparr>
     sqlite3_open_v2 = ref_open,
     sqlite3_close = (\<lambda>db. on_eng (\<lambda>e. e\<lparr>e_dbs := (e_dbs e)(db := None)\<rparr>)),
     sqlite3_errmsg = (\<lambda>db w. ''error''),
     sqlite3_exec = ref_exec,
     sqlite3_prepare_v2 = ref_prepare,
     sqlite3_finalize = (\<lambda>st. on_eng (\<lambda>e. e\<lparr>e_stmts := (e_stmts e)(st := None)\<rparr>)),
     sqlite3_reset = (\<lambda>st. on_eng (on_stmt st (\<lambda>s. s\<lparr>st_phase := Ready\<rparr>))),
     sqlite3_clear_bindings = (\<lambda>st. on_eng (on_stmt st (\<lambda>s. s\<lparr>st_binds := (\<lambda>_. SNull)\<rparr>))),
     sqlite3_bind_int = (\<lambda>st i v. on_eng (on_stmt st (bind_stmt i (SInt (sint v))))),
     sqlite3_bind_int64 = (\<lambda>st i v. on_eng (on_stmt st (bind_stmt i (SInt v)))),
     sqlite3_bind_blob = (\<lambda>st i v w. (SQLITE_OK, on_eng (on_stmt st (bind_stmt i (SBlob v))) w)),
     sqlite3_bind_text = (\<lambda>st i v w. (SQLITE_OK, on_eng (on_stmt st (bind_stmt i (SText v))) w)),
     sqlite3_step = ref_step,
     sqlite3_column_int = (\<lambda>st i w. word_of_int (as_int (ref_column st i w))),
     sqlite3_column_int64 = (\<lambda>st i w. as_int (ref_column st i w)),
     sqlite3_column_bytes = (\<lambda>st i w. int (length (as_blob (ref_column st i w)))),
     sqlite3_column_blob = (\<lambda>st i w. as_blob (ref_column st i w)),
     sqlite3_last_insert_rowid = (\<lambda>db w. db_last_rowid (ref_conn db w)),
     sqlite3_changes = (\<lambda>db w. db_changes (ref_conn db w)),
     fs_create_dir_all = (\<lambda>p w. (True, w)),
     fs_metadata_len = (\<lambda>p w. rw_sizes w p),
     fs_remove_file = (\<lambda>p. on_eng (\<lambda>e. e\<lparr>e_files := (e_files e)(p := None)\<rparr>)),
     fs_read_dir = (\<lambda>p w. rw_dir w),
     DataDir = Some ''/pg'',
     MyDatabaseId = 5,
     pg_warning = (\<lambda>msg w. w\<lparr>rw_log := rw_log w @ [msg]\<rparr>),
     hash_iter = sorted_list_of_set,
     stmt_iter = (\<lambda>xs. xs)\<rparr>"

section \<open>The contract is met\<close>

lemma rw_eng_on_eng [simp]: "rw_eng (on_eng f w) = f (rw_eng w)"
  by (simp add: on_eng_def)

lemma rw_next_on_eng [simp]: "rw_next (on_eng f w) = rw_next w"
  by (simp add: on_eng_def)

lemma on_stmt_Some: "e_stmts e st = Some s \<Longrightarrow> on_stmt st f e = put_stmt st (f s) e"
  by (simp add: on_stmt_def)

lemma ref_up_put_stmt:
  "ref_up w \<Longrightarrow> e_stmts (rw_eng w) st = Some s \<Longrightarrow> st_db s' = st_db s \<Longrightarrow>
    ref_up (on_eng (\<lambda>_. put_stmt st s' (rw_eng w)) w)"
  by (auto simp: ref_up_def)

lemma ref_up_on_stmt:
  "ref_up w \<Longrightarrow> e_stmts (rw_eng w) st = Some s \<Longrightarrow> st_db (f s) = st_db s \<Longrightarrow>
    ref_up (on_eng (on_stmt st f) w)"
  by (auto simp: ref_up_def on_stmt_Some)

lemma ref_up_put_conn:
  "ref_up w \<Longrightarrow> e_dbs (rw_eng w) db = Some d \<Longrightarrow> ref_up (on_eng (put_conn db d') w)"
  by (auto simp: ref_up_def)

lemma deliver_db [simp]: "st_db (snd (deliver rs s)) = st_db s"
  by (cases rs) auto

lemma step_stmt_db: "step_stmt s d = Some (b, s', d') \<Longrightarrow> st_db s' = st_db s"
  by (auto simp: step_stmt_def split: phase.splits option.splits prod.splits dest: arg_cong [where f = "\<lambda>p. st_db (snd p)"])

lemma ref_host_simps [simp]:
  "sqlite3_open_v2 ref_host = ref_open"
  "sqlite3_close ref_host db = on_eng (\<lambda>e. e\<lparr>e_dbs := (e_dbs e)(db := None)\<rparr>)"
  "sqlite3_exec ref_host = ref_exec"
  "sqlite3_prepare_v2 ref_host = ref_prepare"
  "sqlite3_finalize ref_host st = on_eng (\<lambda>e. e\<lparr>e_stmts := (e_stmts e)(st := None)\<rparr>)"
  "sqlite3_reset ref_host st = on_eng (on_stmt st (\<lambda>s. s\<lparr>st_phase := Ready\<rparr>))"
  "sqlite3_clear_bindings ref_host st = on_eng (on_stmt st (\<lambda>s. s\<lparr>st_binds := (\<lambda>_. SNull)\<rparr>))"
  "sqlite3_bind_int ref_host st i v = on_eng (on_stmt st (bind_stmt i (SInt (sint v))))"
  "sqlite3_bind_int64 ref_host st i k = on_eng (on_stmt st (bind_stmt i (SInt k)))"
  "sqlite3_bind_blob ref_host st i b w = (SQLITE_OK, on_eng (on_stmt st (bind_stmt i (SBlob b))) w)"
  "sqlite3_bind_text ref_host st i t w = (SQLITE_OK, on_eng (on_stmt st (bind_stmt i (SText t))) w)"
  "sqlite3_step ref_host = ref_step"
  "sqlite3_column_int ref_host st i w = word_of_int (as_int (ref_column st i w))"
  "sqlite3_column_int64 ref_host st i w = as_int (ref_column st i w)"
  "sqlite3_column_bytes ref_host st i w = int (length (as_blob (ref_column st i w)))"
  "sqlite3_column_blob ref_host st i w = as_blob (ref_column st i w)"
  "sqlite3_last_insert_rowid ref_host db w = db_last_rowid (ref_conn db w)"
  "sqlite3_changes ref_host db w = db_changes (ref_conn db w)"
  "fs_create_dir_all ref_host p w = (True, w)"
  "fs_metadata_len ref_host p w = rw_sizes w p"
  "fs_remove_file ref_host p = on_eng (\<lambda>e. e\<lparr>e_files := (e_files e)(p := None)\<rparr>)"
  "fs_read_dir ref_host p w = rw_dir w"
  "DataDir ref_host = Some ''/pg''"
  "MyDatabaseId ref_host = 5"
  "pg_warning ref_host msg w = w\<lparr>rw_log := rw_log w @ [msg]\<rparr>"
  "hash_iter ref_host = sorted_list_of_set"
  "stmt_iter ref_host xs = xs"
  by (simp_all add: ref_host_def)

lemma ref_open_ok:
  assumes "ref_up w"
  shows "\<exists>db. fst (ref_open p w) = (SQLITE_OK, Some db) \<and> e_dbs (rw_eng w) db = None \<and>
    (\<forall>st s. e_stmts (rw_eng w) st = Some s \<longrightarrow> st_db s \<noteq> db) \<and>
    rw_eng (snd (ref_open p w)) = put_conn db (open_conn_at p (rw_eng w)) (rw_eng w) \<and>
    ref_up (snd (ref_open p w))"
  using assms by (force simp: ref_open_def ref_up_def on_eng_def)

lemma ref_exec_ok:
  assumes "ref_up w" and "parse_sql sq = Some q" and "eng_exec db q (rw_eng w) = Some e'"
  shows "fst (fst (ref_exec db sq w)) = SQLITE_OK \<and> rw_eng (snd (ref_exec db sq w)) = e' \<and>
    ref_up (snd (ref_exec db sq w))"
  using assms by (auto simp: ref_exec_def eng_exec_def ref_up_def split: option.splits)

lemma ref_exec_err:
  assumes "ref_up w" and "parse_sql sq = Some q" and "e_dbs (rw_eng w) db = Some d" and "exec_error q d"
  shows "fst (fst (ref_exec db sq w)) \<noteq> SQLITE_OK \<and> rw_eng (snd (ref_exec db sq w)) = rw_eng w \<and>
    ref_up (snd (ref_exec db sq w))"
proof -
  have "exec_conn q d = None"
    using assms(4) by (cases q) (auto split: option.splits)
  with assms show ?thesis by (simp add: ref_exec_def eng_exec_def SQLITE_OK_def)
qed

lemma ref_prepare_ok:
  assumes "ref_up w" and "parse_sql sq = Some q" and "e_dbs (rw_eng w) db = Some d"
    and "preparable q (db_tab d)"
  shows "fst (fst (ref_prepare db sq w)) = SQLITE_OK \<and>
    e_stmts (rw_eng w) (snd (fst (ref_prepare db sq w))) = None \<and>
    rw_eng (snd (ref_prepare db sq w)) =
      put_stmt (snd (fst (ref_prepare db sq w))) (fresh_stmt db q) (rw_eng w) \<and>
    ref_up (snd (ref_prepare db sq w))"
proof -
  from assms have "db < rw_next w" by (auto simp: ref_up_def not_less [symmetric])
  with assms show ?thesis by (auto simp: ref_prepare_def ref_up_def fresh_stmt_def less_Suc_eq)
qed

lemma ref_step_ok:
  assumes "ref_up w" and "eng_step st (rw_eng w) = Some (hit, e')"
  shows "fst (ref_step st w) = (if hit then SQLITE_ROW else SQLITE_DONE) \<and>
    rw_eng (snd (ref_step st w)) = e' \<and> ref_up (snd (ref_step st w))"
proof -
  from assms(2) obtain s d s' d' where s: "e_stmts (rw_eng w) st = Some s"
    and d: "e_dbs (rw_eng w) (st_db s) = Some d" and st: "step_stmt s d = Some (hit, s', d')"
    and e': "e' = put_stmt st s' (put_conn (st_db s) d' (rw_eng w))"
    by (auto simp: eng_step_def split: option.splits)
  have "ref_up (on_eng (\<lambda>_. e') w)"
    using assms(1) s d step_stmt_db [OF st] by (auto simp: ref_up_def e')
  with assms(2) show ?thesis by (simp add: ref_step_def)
qed

interpretation ref: sqlite_engine ref_host rw_eng ref_up
proof (unfold_locales, goal_cases)
  case (1 w p) then show ?case using ref_open_ok by simp
next
  case (3 w t q db e') then show ?case using ref_exec_ok by simp
next
  case (4 w t q db d) then show ?case using ref_exec_err by simp
next
  case (5 w t q db d) then show ?case using ref_prepare_ok by simp
next
  case (7 w st s) then show ?case by (simp add: on_stmt_Some ref_up_on_stmt)
next
  case (8 w st s) then show ?case by (simp add: on_stmt_Some ref_up_on_stmt)
next
  case (9 w st s i v) then show ?case by (simp add: on_stmt_Some ref_up_on_stmt bind_stmt_def)
next
  case (10 w st s i k) then show ?case by (simp add: on_stmt_Some ref_up_on_stmt bind_stmt_def)
next
  case (11 w st s b i) then show ?case by (simp add: on_stmt_Some ref_up_on_stmt bind_stmt_def)
next
  case (12 w st s key i) then show ?case by (simp add: on_stmt_Some ref_up_on_stmt bind_stmt_def)
next
  case (13 w st hit e') then show ?case using ref_step_ok by simp
qed (auto simp: ref_up_def ref_column_def ref_conn_def)

end
