(* ===== verification/Flaky_Engine.thy ===== *)
theory Flaky_Engine
  imports Faults Ref_Engine
begin

text \<open>
  The reference engine with failures: a script of booleans says which of the calls that can fail
  (opening, statements, preparation, binding of values) are refused, with no effect. It keeps the contract
  \<open>fallible_engine\<close>.
\<close>

type_synonym flaky_world = "ref_world \<times> bool list"

definition flaky :: "'a \<Rightarrow> (ref_world \<Rightarrow> 'a \<times> ref_world) \<Rightarrow> flaky_world \<Rightarrow> 'a \<times> flaky_world" where
  "flaky err f w = (case snd w of
     True # fs \<Rightarrow> (err, (fst w, fs))
   | _ \<Rightarrow> (fst (f (fst w)), (snd (f (fst w)), tl (snd w))))"

definition steady :: "(ref_world \<Rightarrow> ref_world) \<Rightarrow> flaky_world \<Rightarrow> flaky_world" where
  "steady f w = (f (fst w), snd w)"

definition flaky_host :: "flaky_world host" where
  "flaky_host = \<lparr>
     sqlite3_open_v2 = (\<lambda>p. flaky (14, None) (ref_open p)),
     sqlite3_close = (\<lambda>db. steady (sqlite3_close ref_host db)),
     sqlite3_errmsg = (\<lambda>db w. ''database or disk is full''),
     sqlite3_exec = (\<lambda>db sq. flaky (13, Some ''database or disk is full'') (ref_exec db sq)),
     sqlite3_prepare_v2 = (\<lambda>db sq. flaky (7, 0) (ref_prepare db sq)),
     sqlite3_finalize = (\<lambda>st. steady (sqlite3_finalize ref_host st)),
     sqlite3_reset = (\<lambda>st. steady (sqlite3_reset ref_host st)),
     sqlite3_clear_bindings = (\<lambda>st. steady (sqlite3_clear_bindings ref_host st)),
     sqlite3_bind_int = (\<lambda>st i k. steady (sqlite3_bind_int ref_host st i k)),
     sqlite3_bind_int64 = (\<lambda>st i k. steady (sqlite3_bind_int64 ref_host st i k)),
     sqlite3_bind_blob = (\<lambda>st i b. flaky 7 (sqlite3_bind_blob ref_host st i b)),
     sqlite3_bind_text = (\<lambda>st i t. flaky 7 (sqlite3_bind_text ref_host st i t)),
     sqlite3_step = (\<lambda>st. flaky 13 (ref_step st)),
     sqlite3_column_int = (\<lambda>st i w. sqlite3_column_int ref_host st i (fst w)),
     sqlite3_column_int64 = (\<lambda>st i w. sqlite3_column_int64 ref_host st i (fst w)),
     sqlite3_column_bytes = (\<lambda>st i w. sqlite3_column_bytes ref_host st i (fst w)),
     sqlite3_column_blob = (\<lambda>st i w. sqlite3_column_blob ref_host st i (fst w)),
     sqlite3_last_insert_rowid = (\<lambda>db w. sqlite3_last_insert_rowid ref_host db (fst w)),
     sqlite3_changes = (\<lambda>db w. sqlite3_changes ref_host db (fst w)),
     fs_create_dir_all = (\<lambda>p w. (True, w)),
     fs_metadata_len = (\<lambda>p w. rw_sizes (fst w) p),
     fs_remove_file = (\<lambda>p. steady (fs_remove_file ref_host p)),
     fs_read_dir = (\<lambda>p w. rw_dir (fst w)),
     DataDir = Some ''/pg'',
     MyDatabaseId = 5,
     pg_warning = (\<lambda>msg. steady (pg_warning ref_host msg)),
     hash_iter = sorted_list_of_set,
     stmt_iter = (\<lambda>xs. xs)\<rparr>"

text \<open>The rows and metadata of each file; a file that does not exist has none.\<close>

fun contents :: "tables option \<Rightarrow> srow list \<times> (string \<times> bytes) list" where
  "contents None = ([], [])"
| "contents (Some t) = (storage t, meta t)"

definition ref_disk :: "ref_world \<Rightarrow> string \<Rightarrow> srow list \<times> (string \<times> bytes) list" where
  "ref_disk w p = contents (e_files (rw_eng w) p)"

definition ref_sane :: "ref_world \<Rightarrow> bool" where
  "ref_sane w \<longleftrightarrow> ref_up w \<and>
     (\<forall>db d. e_dbs (rw_eng w) db = Some d \<longrightarrow> ref_disk w (db_path d) = contents (Some (committed d)))"

definition flaky_watch :: "(flaky_world, string \<Rightarrow> srow list \<times> (string \<times> bytes) list) watch" where
  "flaky_watch = \<lparr>disk = (\<lambda>w. ref_disk (fst w)),
     in_tx = (\<lambda>w db. \<exists>d. e_dbs (rw_eng (fst w)) db = Some d \<and> db_txn d \<noteq> None),
     stmt_of = (\<lambda>w st. map_option (\<lambda>s. (st_db s, st_sql s)) (e_stmts (rw_eng (fst w)) st)),
     open_dbs = (\<lambda>w. dom (e_dbs (rw_eng (fst w)))),
     sane = (\<lambda>w. ref_sane (fst w))\<rparr>"

section \<open>The contract is met\<close>

lemma flaky_watch_simps [simp]:
  "disk flaky_watch w = ref_disk (fst w)"
  "in_tx flaky_watch w db \<longleftrightarrow> (\<exists>d. e_dbs (rw_eng (fst w)) db = Some d \<and> db_txn d \<noteq> None)"
  "stmt_of flaky_watch w st = map_option (\<lambda>s. (st_db s, st_sql s)) (e_stmts (rw_eng (fst w)) st)"
  "open_dbs flaky_watch w = dom (e_dbs (rw_eng (fst w)))"
  "sane flaky_watch w = ref_sane (fst w)"
  by (simp_all add: flaky_watch_def)

lemma flaky_cases:
  obtains fs where "flaky err f w = (err, (fst w, fs))" | fs where "flaky err f w = (fst (f (fst w)), (snd (f (fst w)), fs))"
  by (cases "snd w"; cases "hd (snd w)") (auto simp: flaky_def)

lemma ref_disk_stmt [simp]:
  "ref_disk (on_eng (put_stmt st s) w) = ref_disk w" "ref_disk (on_eng (on_stmt st f) w) = ref_disk w"
  by (auto simp: ref_disk_def fun_eq_iff put_stmt_def on_stmt_def split: option.splits)

text \<open>A connection inside a transaction may change its tables, or any connection nothing.\<close>

lemma put_conn_quiet:
  assumes "ref_sane w" and "e_dbs (rw_eng w) db = Some d" and "db_path d' = db_path d"
    and "contents (Some (committed d')) = contents (Some (committed d))"
    and e: "e_dbs (rw_eng w') = (e_dbs (rw_eng w))(db \<mapsto> d')" "e_stmts (rw_eng w') = e_stmts (rw_eng w)"
      "e_files (rw_eng w') = e_files (put_conn db d' (rw_eng w))" "rw_next w' = rw_next w"
  shows "ref_sane w'" and "ref_disk w' = ref_disk w"
proof -
  have f: "ref_disk w (db_path d) = contents (Some (committed d))" using assms(1,2) by (simp add: ref_sane_def)
  have "committed d' = db_tab d'" if "db_txn d' = None" using that by (simp add: committed_def)
  then show g: "ref_disk w' = ref_disk w" using assms(3,4) e f by (auto simp: put_conn_def ref_disk_def fun_eq_iff)
  show "ref_sane w'" using assms(1-4) e f g by (auto simp: ref_sane_def ref_up_def)
qed

lemma exec_conn_kept:
  assumes "exec_conn q d = Some d'" and "q = X_begin \<or> q = X_rollback \<or> stays_inside q \<and> db_txn d \<noteq> None"
  shows "committed d' = committed d" and "q \<noteq> X_rollback \<Longrightarrow> db_txn d' \<noteq> None"
  using assms by (cases q; auto simp: committed_def split: option.splits if_splits)+

lemma ref_exec_kept:
  assumes w: "ref_sane w" and q: "parse_sql sq = Some q"
    and k: "q = X_begin \<or> q = X_rollback \<or> stays_inside q \<and> (\<exists>d. e_dbs (rw_eng w) db = Some d \<and> db_txn d \<noteq> None)"
  defines "w' \<equiv> snd (ref_exec db sq w)"
  shows "ref_sane w'" and "ref_disk w' = ref_disk w" and "e_stmts (rw_eng w') = e_stmts (rw_eng w)"
    and "dom (e_dbs (rw_eng w')) = dom (e_dbs (rw_eng w))" and "db' \<noteq> db \<Longrightarrow> e_dbs (rw_eng w') db' = e_dbs (rw_eng w) db'"
    and "q \<noteq> X_rollback \<Longrightarrow> fst (fst (ref_exec db sq w)) = SQLITE_OK \<or> (\<exists>d. e_dbs (rw_eng w) db = Some d \<and> db_txn d \<noteq> None) \<Longrightarrow>
      \<exists>d. e_dbs (rw_eng w') db = Some d \<and> db_txn d \<noteq> None"
proof -
  have "w' = w \<and> fst (fst (ref_exec db sq w)) \<noteq> SQLITE_OK \<or> (\<exists>d d'. e_dbs (rw_eng w) db = Some d \<and> exec_conn q d = Some d' \<and>
      w' = on_eng (\<lambda>_. put_conn db d' (rw_eng w)) w)"
    using q by (auto simp: w'_def ref_exec_def eng_exec_def SQLITE_OK_def split: option.splits)
  then have "ref_sane w' \<and> ref_disk w' = ref_disk w \<and> e_stmts (rw_eng w') = e_stmts (rw_eng w) \<and>
    dom (e_dbs (rw_eng w')) = dom (e_dbs (rw_eng w)) \<and> (db' \<noteq> db \<longrightarrow> e_dbs (rw_eng w') db' = e_dbs (rw_eng w) db') \<and>
    (q \<noteq> X_rollback \<longrightarrow> fst (fst (ref_exec db sq w)) = SQLITE_OK \<or> (\<exists>d. e_dbs (rw_eng w) db = Some d \<and> db_txn d \<noteq> None) \<longrightarrow>
      (\<exists>d. e_dbs (rw_eng w') db = Some d \<and> db_txn d \<noteq> None))"
  proof (elim disjE exE conjE)
    fix d d' assume d: "e_dbs (rw_eng w) db = Some d" "exec_conn q d = Some d'" and w': "w' = on_eng (\<lambda>_. put_conn db d' (rw_eng w)) w"
    note kept = exec_conn_kept [OF d(2)]
    have "q = X_begin \<or> q = X_rollback \<or> stays_inside q \<and> db_txn d \<noteq> None" using k d(1) by auto
    with put_conn_quiet [OF w d(1) exec_conn_path [OF d(2)], of w'] kept w' d(1) show ?thesis by auto
  qed (use w in auto)
  then show "ref_sane w'" "ref_disk w' = ref_disk w" "e_stmts (rw_eng w') = e_stmts (rw_eng w)"
    "dom (e_dbs (rw_eng w')) = dom (e_dbs (rw_eng w))" "db' \<noteq> db \<Longrightarrow> e_dbs (rw_eng w') db' = e_dbs (rw_eng w) db'"
    "q \<noteq> X_rollback \<Longrightarrow> fst (fst (ref_exec db sq w)) = SQLITE_OK \<or> (\<exists>d. e_dbs (rw_eng w) db = Some d \<and> db_txn d \<noteq> None) \<Longrightarrow>
      \<exists>d. e_dbs (rw_eng w') db = Some d \<and> db_txn d \<noteq> None" by auto
qed

lemma step_stmt_kept:
  assumes "step_stmt s d = Some (b, s', d')" and "db_txn d \<noteq> None \<or> is_query (st_sql s)"
  shows "db_path d' = db_path d" "db_txn d' = db_txn d" "committed d' = committed d" "st_sql s' = st_sql s"
proof -
  have sql: "st_sql (snd (deliver rs s)) = st_sql s" for rs by (cases rs) auto
  have q: "run_query (st_sql s) b t \<noteq> None" if "is_query (st_sql s)" for b t using that by (cases "st_sql s") auto
  have "db_path d' = db_path d \<and> db_txn d' = db_txn d \<and> committed d' = committed d \<and> st_sql s' = st_sql s"
    using assms q [of "st_binds s" "db_tab d"] sql
    by (auto simp: step_stmt_def committed_def split: phase.splits option.splits prod.splits
        dest: arg_cong [where f = "\<lambda>p. st_sql (snd p)"])
  then show "db_path d' = db_path d" "db_txn d' = db_txn d" "committed d' = committed d" "st_sql s' = st_sql s" by auto
qed

lemma ref_step_kept:
  assumes w: "ref_sane w" and s: "e_stmts (rw_eng w) st = Some s"
    and k: "(\<exists>d. e_dbs (rw_eng w) (st_db s) = Some d \<and> db_txn d \<noteq> None) \<or> is_query (st_sql s)"
  shows "quiet flaky_watch (w, fs) (snd (ref_step st w), fs')"
proof (cases "eng_step st (rw_eng w)")
  case None
  then show ?thesis using w by (simp add: ref_step_def quiet_def fun_eq_iff)
next
  case (Some r)
  then obtain b d s' d' where d: "e_dbs (rw_eng w) (st_db s) = Some d" and st: "step_stmt s d = Some (b, s', d')"
    and r: "r = (b, put_stmt st s' (put_conn (st_db s) d' (rw_eng w)))"
    using s by (auto simp: eng_step_def split: option.splits)
  let ?c = "on_eng (\<lambda>_. put_conn (st_db s) d' (rw_eng w)) w"
  have "db_txn d \<noteq> None \<or> is_query (st_sql s)" using k d by auto
  note kept = step_stmt_kept [OF st this] and db = step_stmt_db [OF st]
  note c = put_conn_quiet [OF w d kept(1), of ?c]
  have "snd (ref_step st w) = on_eng (put_stmt st s') ?c" using Some r by (simp add: ref_step_def on_eng_def)
  then show ?thesis using c s d kept db by (auto simp: quiet_def fun_eq_iff ref_sane_def ref_up_def)
qed

lemma steady_stmt_quiet:
  assumes "ref_sane (fst w)" and "\<And>s. st_db (f s) = st_db s \<and> st_sql (f s) = st_sql s"
  shows "quiet flaky_watch w (steady (on_eng (on_stmt st f)) w)"
  using assms by (auto simp: quiet_def steady_def on_stmt_def ref_sane_def ref_up_def fun_eq_iff split: option.splits)

lemma ref_prepare_kept:
  fixes db
  assumes w: "ref_sane w" and q: "parse_sql sq = Some q"
  defines "w' \<equiv> snd (ref_prepare db sq w)" and "st \<equiv> snd (fst (ref_prepare db sq w))"
  shows "ref_sane w'" and "ref_disk w' = ref_disk w" and "e_dbs (rw_eng w') = e_dbs (rw_eng w)"
    and "fst (fst (ref_prepare db sq w)) \<noteq> SQLITE_OK \<Longrightarrow> e_stmts (rw_eng w') = e_stmts (rw_eng w)"
    and "fst (fst (ref_prepare db sq w)) = SQLITE_OK \<Longrightarrow> e_stmts (rw_eng w) st = None \<and>
      e_stmts (rw_eng w') = (e_stmts (rw_eng w))(st \<mapsto> fresh_stmt db q)"
proof -
  have up: "ref_up w" using w by (simp add: ref_sane_def)
  have "ref_sane w' \<and> ref_disk w' = ref_disk w \<and> e_dbs (rw_eng w') = e_dbs (rw_eng w) \<and>
    (fst (fst (ref_prepare db sq w)) \<noteq> SQLITE_OK \<longrightarrow> e_stmts (rw_eng w') = e_stmts (rw_eng w)) \<and>
    (fst (fst (ref_prepare db sq w)) = SQLITE_OK \<longrightarrow> e_stmts (rw_eng w) st = None \<and>
      e_stmts (rw_eng w') = (e_stmts (rw_eng w))(st \<mapsto> fresh_stmt db q))"
  proof (cases "\<exists>d. e_dbs (rw_eng w) db = Some d \<and> preparable q (db_tab d)")
    case True
    then obtain d where d: "e_dbs (rw_eng w) db = Some d" "preparable q (db_tab d)" by blast
    from ref_prepare_ok [OF up q d] have "ref_disk w' = ref_disk w" by (auto simp: w'_def ref_disk_def fun_eq_iff)
    with ref_prepare_ok [OF up q d] w show ?thesis by (auto simp: w'_def st_def ref_sane_def)
  next
    case False
    then have "ref_prepare db sq w = ((1, 0), w)" using q by (auto simp: ref_prepare_def split: option.splits)
    with w show ?thesis by (simp add: w'_def SQLITE_OK_def)
  qed
  then show "ref_sane w'" "ref_disk w' = ref_disk w" "e_dbs (rw_eng w') = e_dbs (rw_eng w)"
    "fst (fst (ref_prepare db sq w)) \<noteq> SQLITE_OK \<Longrightarrow> e_stmts (rw_eng w') = e_stmts (rw_eng w)"
    "fst (fst (ref_prepare db sq w)) = SQLITE_OK \<Longrightarrow> e_stmts (rw_eng w) st = None \<and>
      e_stmts (rw_eng w') = (e_stmts (rw_eng w))(st \<mapsto> fresh_stmt db q)" by auto
qed

text \<open>Opening, closing and the schema.\<close>

lemma ref_schema_kept:
  assumes w: "ref_sane w" and q: "parse_sql sq = Some q" "schema_text q"
  shows "quiet flaky_watch (w, fs) (snd (ref_exec db sq w), fs')"
proof (cases "eng_exec db q (rw_eng w)")
  case None
  then show ?thesis using w q by (simp add: ref_exec_def quiet_def fun_eq_iff)
next
  case (Some e)
  then obtain d d' where d: "e_dbs (rw_eng w) db = Some d" "exec_conn q d = Some d'" and e: "e = put_conn db d' (rw_eng w)"
    by (auto simp: eng_exec_def split: option.splits)
  let ?w = "snd (ref_exec db sq w)"
  have r: "?w = on_eng (\<lambda>_. put_conn db d' (rw_eng w)) w" using Some e q by (simp add: ref_exec_def)
  have k: "contents (Some (committed d')) = contents (Some (committed d)) \<and> db_txn d' = db_txn d"
    using d(2) q(2) by (cases q) (auto simp: committed_def split: option.splits if_splits)
  note c = put_conn_quiet [OF w d(1) exec_conn_path [OF d(2)], of ?w]
  have "ref_sane ?w" "ref_disk ?w = ref_disk w" using c k r by simp_all
  then show ?thesis using r k d(1) by (auto simp: quiet_def fun_eq_iff)
qed

lemma ref_open_kept:
  fixes p
  assumes "ref_sane w"
  defines "w' \<equiv> snd (ref_open p w)"
  shows "ref_sane w'" and "ref_disk w' = ref_disk w" and "e_dbs (rw_eng w) (rw_next w) = None"
proof -
  have up: "ref_up w" using assms(1) by (simp add: ref_sane_def)
  then show "e_dbs (rw_eng w) (rw_next w) = None" by (simp add: ref_up_def)
  show d: "ref_disk w' = ref_disk w"
    by (auto simp: w'_def ref_open_def ref_disk_def put_conn_def open_conn_at_def empty_tables_def fun_eq_iff split: option.splits)
  have "ref_up w'" using up by (auto simp: w'_def ref_open_def ref_up_def put_conn_def less_Suc_eq)
  moreover have "ref_disk w' (db_path d) = contents (Some (committed d))" if "e_dbs (rw_eng w') db = Some d" for db d
  proof (cases "db = rw_next w")
    case True
    then have "d = open_conn_at p (rw_eng w)" using that by (simp add: w'_def ref_open_def put_conn_def)
    then show ?thesis
      unfolding d by (auto simp: ref_disk_def open_conn_at_def committed_def empty_tables_def split: option.splits)
  next
    case False
    then have "e_dbs (rw_eng w) db = Some d" using that by (simp add: w'_def ref_open_def put_conn_def)
    then show ?thesis unfolding d using assms(1) by (simp add: ref_sane_def)
  qed
  ultimately show "ref_sane w'" by (simp add: ref_sane_def)
qed

lemma flaky_host_simps [simp]:
  "sqlite3_exec flaky_host db sq = flaky (13, Some ''database or disk is full'') (ref_exec db sq)"
  "sqlite3_prepare_v2 flaky_host db sq = flaky (7, 0) (ref_prepare db sq)"
  "sqlite3_reset flaky_host st = steady (sqlite3_reset ref_host st)"
  "sqlite3_clear_bindings flaky_host st = steady (sqlite3_clear_bindings ref_host st)"
  "sqlite3_bind_int flaky_host st i x = steady (sqlite3_bind_int ref_host st i x)"
  "sqlite3_bind_int64 flaky_host st i k = steady (sqlite3_bind_int64 ref_host st i k)"
  "sqlite3_bind_blob flaky_host st i b = flaky 7 (\<lambda>w. (SQLITE_OK, on_eng (on_stmt st (bind_stmt i (SBlob b))) w))"
  "sqlite3_bind_text flaky_host st i t = flaky 7 (\<lambda>w. (SQLITE_OK, on_eng (on_stmt st (bind_stmt i (SText t))) w))"
  "sqlite3_step flaky_host st = flaky 13 (ref_step st)"
  "pg_warning flaky_host msg = steady (pg_warning ref_host msg)"
  "hash_iter flaky_host = sorted_list_of_set"
  "stmt_iter flaky_host xs = xs"
  "fs_create_dir_all flaky_host p w = (True, w)"
  "sqlite3_open_v2 flaky_host p = flaky (14, None) (ref_open p)"
  "sqlite3_close flaky_host db = steady (on_eng (\<lambda>e. e\<lparr>e_dbs := (e_dbs e)(db := None)\<rparr>))"
  "sqlite3_finalize flaky_host st = steady (on_eng (\<lambda>e. e\<lparr>e_stmts := (e_stmts e)(st := None)\<rparr>))"
  by (simp_all add: flaky_host_def) (simp_all add: ref_host_def)

lemma flaky_bind_quiet:
  assumes "ref_sane (fst w)"
  shows "quiet flaky_watch w (snd (flaky rc (\<lambda>w. (rc', on_eng (on_stmt st (bind_stmt i x)) w)) w))"
proof (cases rule: flaky_cases [of rc "\<lambda>w. (rc', on_eng (on_stmt st (bind_stmt i x)) w)" w])
  case (2 fs)
  with steady_stmt_quiet [OF assms, of "bind_stmt i x" st] show ?thesis by (simp add: steady_def quiet_def bind_stmt_def fun_eq_iff)
qed (use assms in \<open>simp add: quiet_def fun_eq_iff\<close>)

interpretation flaky: fallible_engine flaky_host flaky_watch
proof
  fix w :: flaky_world and db sq q assume w: "sane flaky_watch w"
  let ?f = "flaky (13, Some ''database or disk is full'') (ref_exec db sq)"
  show "quiet_but flaky_watch db w (snd (sqlite3_exec flaky_host db ''BEGIN'' w)) \<and>
      (fst (fst (sqlite3_exec flaky_host db ''BEGIN'' w)) = SQLITE_OK \<or> in_tx flaky_watch w db \<longrightarrow>
        in_tx flaky_watch (snd (sqlite3_exec flaky_host db ''BEGIN'' w)) db)" for db
  proof (cases rule: flaky_cases [of "(13, Some ''database or disk is full'')" "ref_exec db ''BEGIN''" w])
    case (2 fs)
    with ref_exec_kept [of "fst w" "''BEGIN''" X_begin db] w show ?thesis by (auto simp: quiet_but_def fun_eq_iff)
  qed (use w in \<open>auto simp: quiet_but_def fun_eq_iff SQLITE_OK_def\<close>)
next
  fix w :: flaky_world and db assume w: "sane flaky_watch w"
  show "quiet_but flaky_watch db w (snd (sqlite3_exec flaky_host db ''ROLLBACK'' w))"
  proof (cases rule: flaky_cases [of "(13, Some ''database or disk is full'')" "ref_exec db ''ROLLBACK''" w])
    case (2 fs)
    with ref_exec_kept(1-5) [of "fst w" "''ROLLBACK''" X_rollback db] w show ?thesis by (auto simp: quiet_but_def fun_eq_iff)
  qed (use w in \<open>auto simp: quiet_but_def fun_eq_iff\<close>)
next
  fix w :: flaky_world and db sq q
  assume w: "sane flaky_watch w" "in_tx flaky_watch w db" "parse_sql sq = Some q" "stays_inside q"
  show "quiet flaky_watch w (snd (sqlite3_exec flaky_host db sq w))"
  proof (cases rule: flaky_cases [of "(13, Some ''database or disk is full'')" "ref_exec db sq" w])
    case (2 fs)
    have "q \<noteq> X_rollback" using w(4) by auto
    have t: "\<exists>d. e_dbs (rw_eng (fst w)) db = Some d \<and> db_txn d \<noteq> None" and s: "ref_sane (fst w)" using w by auto
    note kept = ref_exec_kept [OF s w(3), of db, OF disjI2, OF disjI2, OF conjI, OF w(4) t]
    have "in_tx flaky_watch (snd (ref_exec db sq (fst w)), fs) x = in_tx flaky_watch w x" for x
      using kept(5) [of x] kept(6) t \<open>q \<noteq> X_rollback\<close> by (cases "x = db") auto
    with 2 kept(1-4) show ?thesis by (simp add: quiet_def fun_eq_iff del: flaky_watch_simps(2))
  qed (use w in \<open>auto simp: quiet_def fun_eq_iff\<close>)
next
  fix w :: flaky_world and db sq q assume w: "sane flaky_watch w" "parse_sql sq = Some q"
  let ?r = "sqlite3_prepare_v2 flaky_host db sq w"
  show "sane flaky_watch (snd ?r) \<and> disk flaky_watch (snd ?r) = disk flaky_watch w \<and> in_tx flaky_watch (snd ?r) = in_tx flaky_watch w \<and>
    open_dbs flaky_watch (snd ?r) = open_dbs flaky_watch w \<and>
    (if fst (fst ?r) = SQLITE_OK
     then stmt_of flaky_watch w (snd (fst ?r)) = None \<and> stmt_of flaky_watch (snd ?r) = (stmt_of flaky_watch w)(snd (fst ?r) \<mapsto> (db, q))
     else stmt_of flaky_watch (snd ?r) = stmt_of flaky_watch w)"
  proof (cases rule: flaky_cases [of "(7, 0)" "ref_prepare db sq" w])
    case (2 fs)
    with ref_prepare_kept [of "fst w" sq q db] w show ?thesis by (auto simp: fun_eq_iff fresh_stmt_def)
  qed (use w in \<open>auto simp: fun_eq_iff SQLITE_OK_def\<close>)
next
  fix w :: flaky_world and st db q
  assume w: "sane flaky_watch w" "stmt_of flaky_watch w st = Some (db, q)" "in_tx flaky_watch w db \<or> is_query q"
  then obtain s where s: "e_stmts (rw_eng (fst w)) st = Some s" "st_db s = db" "st_sql s = q" by auto
  show "quiet flaky_watch w (snd (sqlite3_step flaky_host st w))"
  proof (cases rule: flaky_cases [of 13 "ref_step st" w])
    case (2 fs)
    with ref_step_kept [of "fst w" st s "snd w" fs] s w show ?thesis by simp
  qed (use w in \<open>auto simp: quiet_def fun_eq_iff\<close>)
next
  fix w :: flaky_world and db sq q assume w: "sane flaky_watch w" "parse_sql sq = Some q" "schema_text q"
  show "quiet flaky_watch w (snd (sqlite3_exec flaky_host db sq w))"
  proof (cases rule: flaky_cases [of "(13, Some ''database or disk is full'')" "ref_exec db sq" w])
    case (2 fs)
    with ref_schema_kept [of "fst w" sq q "snd w" db fs] w show ?thesis by simp
  qed (use w in \<open>auto simp: quiet_def fun_eq_iff\<close>)
next
  fix w :: flaky_world and p assume w: "sane flaky_watch w"
  let ?r = "sqlite3_open_v2 flaky_host p w"
  show "(fst (fst ?r) = SQLITE_OK \<longrightarrow> snd (fst ?r) \<noteq> None) \<and> (case snd (fst ?r) of None \<Rightarrow> quiet flaky_watch w (snd ?r)
    | Some db \<Rightarrow> db \<notin> open_dbs flaky_watch w \<and> sane flaky_watch (snd ?r) \<and> disk flaky_watch (snd ?r) = disk flaky_watch w \<and>
        (\<forall>db'. db' \<noteq> db \<longrightarrow> in_tx flaky_watch (snd ?r) db' = in_tx flaky_watch w db') \<and>
        stmt_of flaky_watch (snd ?r) = stmt_of flaky_watch w \<and> open_dbs flaky_watch (snd ?r) = insert db (open_dbs flaky_watch w))"
  proof (cases rule: flaky_cases [of "(14, None)" "ref_open p" w])
    case (2 fs)
    have o: "fst (ref_open p (fst w)) = (SQLITE_OK, Some (rw_next (fst w)))" by (simp add: ref_open_def)
    with 2 ref_open_kept(1,2) [of "fst w" p] ref_open_kept(3) [of "fst w"] w show ?thesis by (auto simp: fun_eq_iff domIff) (auto simp: ref_open_def put_conn_def)
  qed (use w in \<open>auto simp: quiet_def fun_eq_iff SQLITE_OK_def\<close>)
qed (auto simp: flaky_bind_quiet bind_stmt_def intro!: steady_stmt_quiet,
    auto simp: quiet_def steady_def ref_sane_def ref_up_def ref_disk_def fun_eq_iff split: if_splits)

end
