(* ===== verification/Tuple_Memory.thy ===== *)
theory Tuple_Memory
  imports Tuple_Ffi
begin

text \<open>
  Heap tuples in memory: \<open>build_heap_tuple\<close>, \<open>build_heap_tuple_from_parts\<close> and \<open>OwnedHeapTuple\<close> of
  \<open>src/ffi.rs\<close> on the level of pointers, where \<open>Tuple_Ffi\<close> passes values. Memory is a set of chunks; a
  pointer is a chunk and an offset. An access outside a chunk, or one that reads what was never
  written, is undefined behaviour, and the program has no outcome (\<open>None\<close>).
\<close>

section \<open>Memory\<close>

datatype ptr = Ptr (ptr_block: nat) (ptr_off: nat)

text \<open>A cell: not written yet, a byte, or the \<open>i\<close>th byte of a pointer.\<close>

datatype memval = Undef | Byte u8 | Frag ptr nat

text \<open>The chunks in use, all of them below the bound \<open>brk\<close>.\<close>

record memory =
  chunks :: "nat \<rightharpoonup> memval list"
  brk :: nat

definition memory_ok :: "memory \<Rightarrow> bool" where
  "memory_ok m \<longleftrightarrow> (\<forall>b \<ge> brk m. chunks m b = None)"

definition with_chunk :: "nat \<Rightarrow> memval list \<Rightarrow> memory \<Rightarrow> memory" where
  "with_chunk b c m = m\<lparr>chunks := (chunks m)(b \<mapsto> c)\<rparr>"

definition ptr_add :: "ptr \<Rightarrow> nat \<Rightarrow> ptr" where
  "ptr_add p n = Ptr (ptr_block p) (ptr_off p + n)"

definition put_at :: "nat \<Rightarrow> 'a list \<Rightarrow> 'a list \<Rightarrow> 'a list" where
  "put_at i vs c = take i c @ vs @ drop (i + length vs) c"

definition cut :: "nat \<Rightarrow> nat \<Rightarrow> 'a list \<Rightarrow> 'a list" where
  "cut i n c = take n (drop i c)"

definition undefined_behaviour :: "(memory, 'a) prog" where
  "undefined_behaviour = (\<lambda>_. None)"

definition store_cells :: "ptr \<Rightarrow> memval list \<Rightarrow> (memory, unit) prog" where
  "store_cells p vs = (\<lambda>m. case chunks m (ptr_block p) of
     None \<Rightarrow> None
   | Some c \<Rightarrow> if ptr_off p + length vs \<le> length c
       then Some (Ok (), with_chunk (ptr_block p) (put_at (ptr_off p) vs c) m) else None)"

definition load_cells :: "ptr \<Rightarrow> nat \<Rightarrow> (memory, memval list) prog" where
  "load_cells p n = (\<lambda>m. case chunks m (ptr_block p) of
     None \<Rightarrow> None
   | Some c \<Rightarrow> if ptr_off p + n \<le> length c then Some (Ok (cut (ptr_off p) n c), m) else None)"

fun cells_bytes :: "memval list \<Rightarrow> bytes option" where
  "cells_bytes [] = Some []"
| "cells_bytes (Byte b # vs) = map_option (\<lambda>bs. b # bs) (cells_bytes vs)"
| "cells_bytes (_ # vs) = None"

definition ptr_cells :: "ptr \<Rightarrow> memval list" where
  "ptr_cells q = map (Frag q) [0..<8]"

fun cells_ptr :: "memval list \<Rightarrow> ptr option" where
  "cells_ptr (Frag q i # vs) = (if Frag q i # vs = ptr_cells q then Some q else None)"
| "cells_ptr _ = None"

definition or_undefined :: "'a option \<Rightarrow> (memory, 'a) prog" where
  "or_undefined x = (case x of Some y \<Rightarrow> ret y | None \<Rightarrow> undefined_behaviour)"

definition store_bytes :: "ptr \<Rightarrow> bytes \<Rightarrow> (memory, unit) prog" where
  "store_bytes p bs = store_cells p (map Byte bs)"

definition store_u32 :: "ptr \<Rightarrow> u32 \<Rightarrow> (memory, unit) prog" where
  "store_u32 p w = store_bytes p (to_le_bytes w)"

definition store_ptr :: "ptr \<Rightarrow> ptr \<Rightarrow> (memory, unit) prog" where
  "store_ptr p q = store_cells p (ptr_cells q)"

definition load_bytes :: "ptr \<Rightarrow> nat \<Rightarrow> (memory, bytes) prog" where
  "load_bytes p n = bindE (load_cells p n) (\<lambda>vs. or_undefined (cells_bytes vs))"

definition load_u32 :: "ptr \<Rightarrow> (memory, u32) prog" where
  "load_u32 p = bindE (load_bytes p 4) (\<lambda>bs. or_undefined (from_le_bytes bs))"

definition load_ptr :: "ptr \<Rightarrow> (memory, ptr) prog" where
  "load_ptr p = bindE (load_cells p 8) (\<lambda>vs. or_undefined (cells_ptr vs))"

text \<open>
  An \<open>ItemPointerData\<close> is three 16-bit words: the high and the low half of the block number, and
  the offset number.
\<close>

definition u16_bytes :: "u16 \<Rightarrow> bytes" where
  "u16_bytes w = [ucast w, ucast (drop_bit 8 w)]"

definition tid_bytes :: "ItemPointerData \<Rightarrow> bytes" where
  "tid_bytes t = u16_bytes (ucast (drop_bit 16 (ip_blkid t))) @ u16_bytes (ucast (ip_blkid t)) @ u16_bytes (ip_posid t)"

fun bytes_tid :: "bytes \<Rightarrow> ItemPointerData option" where
  "bytes_tid [a, b, c, d, e, f] = Some
     \<lparr>ip_blkid = push_bit 16 (ucast a OR push_bit 8 (ucast b)) OR ucast c OR push_bit 8 (ucast d),
      ip_posid = ucast e OR push_bit 8 (ucast f)\<rparr>"
| "bytes_tid _ = None"

section \<open>Postgres's side\<close>

text \<open>
  The allocator is Postgres's: \<open>palloc\<close> of at most \<open>MaxAllocSize\<close> bytes gives a chunk of its own, and
  \<open>heap_freetuple\<close> releases the chunk a tuple starts, and only that one.
\<close>

definition MaxAllocSize :: nat where "MaxAllocSize = 0x3fffffff"

record palloc_api =
  palloc :: "nat \<Rightarrow> (memory, ptr) prog"
  heap_freetuple :: "ptr \<Rightarrow> (memory, unit) prog"

locale palloc_laws =
  fixes A :: palloc_api
  assumes palloc_ok: "memory_ok m \<Longrightarrow> n \<le> MaxAllocSize \<Longrightarrow>
      \<exists>b c m'. palloc A n m = Some (Ok (Ptr b 0), with_chunk b c m') \<and> chunks m' = chunks m \<and> chunks m b = None \<and>
        memory_ok (with_chunk b c m') \<and> length c = n"
    and freetuple_ok: "chunks m b = Some c \<Longrightarrow>
      heap_freetuple A (Ptr b 0) m = Some (Ok (), m\<lparr>chunks := (chunks m)(b := None)\<rparr>)"

text \<open>\<open>HeapTupleData\<close> is a C struct: its fields follow each other in the declared order.\<close>

record tuple_layout =
  size_of_HeapTupleData :: nat
  off_t_len :: nat
  off_t_self :: nat
  off_t_tableOid :: nat
  off_t_data :: nat

locale layout_laws =
  fixes L :: tuple_layout
  assumes self_after: "off_t_len L + 4 \<le> off_t_self L"
    and oid_after: "off_t_self L + 6 \<le> off_t_tableOid L"
    and data_after: "off_t_tableOid L + 4 \<le> off_t_data L"
    and size_covers: "off_t_data L + 8 \<le> size_of_HeapTupleData L"
    and size_small: "size_of_HeapTupleData L \<le> 4096"

section \<open>Heap tuples by pointer\<close>

definition HEAPTUPLESIZE :: "tuple_layout \<Rightarrow> nat" where
  "HEAPTUPLESIZE L = unat ((of_nat (size_of_HeapTupleData L) + 7 :: u64) AND NOT 7)"

definition build_heap_tuple_at ::
    "palloc_api \<Rightarrow> tuple_layout \<Rightarrow> u32 \<Rightarrow> int \<Rightarrow> bytes \<Rightarrow> (memory, ptr) prog" where
  "build_heap_tuple_at A L rel rid bs =
     bindE (palloc A (HEAPTUPLESIZE L + length bs)) (\<lambda>tup.
       let data = ptr_add tup (HEAPTUPLESIZE L) in
       seqE (store_bytes data bs)
      (seqE (store_u32 (ptr_add tup (off_t_len L)) (of_nat (length bs)))
      (seqE (store_bytes (ptr_add tup (off_t_self L)) (tid_bytes (rowid_to_tid rid)))
      (seqE (store_u32 (ptr_add tup (off_t_tableOid L)) rel)
      (seqE (store_ptr (ptr_add tup (off_t_data L)) data)
            (ret tup))))))"

definition build_heap_tuple_from_parts_at ::
    "palloc_api \<Rightarrow> tuple_layout \<Rightarrow> u32 \<Rightarrow> StoredHeader \<Rightarrow> bytes \<Rightarrow> (memory, ptr) prog" where
  "build_heap_tuple_from_parts_at A L rel hdr bs =
     bindE (build_heap_tuple_at A L rel (rowid hdr) bs) (\<lambda>tup.
     bindE (load_ptr (ptr_add tup (off_t_data L))) (\<lambda>h.
       seqE (store_u32 h (xmin hdr))
      (seqE (store_u32 (ptr_add h 4) (xmax hdr))
      (seqE (store_u32 (ptr_add h 8) (cmin hdr))
            (ret tup)))))"

definition OwnedHeapTuple_bytes :: "tuple_layout \<Rightarrow> ptr \<Rightarrow> (memory, bytes) prog" where
  "OwnedHeapTuple_bytes L tup =
     bindE (load_ptr (ptr_add tup (off_t_data L))) (\<lambda>data.
     bindE (load_u32 (ptr_add tup (off_t_len L))) (\<lambda>len. load_bytes data (unat len)))"

definition OwnedHeapTuple_drop :: "palloc_api \<Rightarrow> ptr \<Rightarrow> (memory, unit) prog" where
  "OwnedHeapTuple_drop A tup = heap_freetuple A tup"

text \<open>What Postgres reads through a pointer to a heap tuple.\<close>

definition read_heap_tuple :: "tuple_layout \<Rightarrow> ptr \<Rightarrow> (memory, HeapTupleData) prog" where
  "read_heap_tuple L tup =
     bindE (load_u32 (ptr_add tup (off_t_len L))) (\<lambda>len.
     bindE (bindE (load_bytes (ptr_add tup (off_t_self L)) 6) (\<lambda>bs. or_undefined (bytes_tid bs))) (\<lambda>tid.
     bindE (load_u32 (ptr_add tup (off_t_tableOid L))) (\<lambda>oid.
     bindE (OwnedHeapTuple_bytes L tup) (\<lambda>bs.
       ret \<lparr>t_len = len, t_self = tid, t_tableOid = oid, t_data = bs\<rparr>))))"

section \<open>Reading back what was stored\<close>

lemma length_put_at [simp]: "i + length vs \<le> length c \<Longrightarrow> length (put_at i vs c) = length c"
  by (simp add: put_at_def)

lemma length_cut [simp]: "i + n \<le> length c \<Longrightarrow> length (cut i n c) = n"
  by (simp add: cut_def)

lemma cut_put_same [simp]: "i + length vs \<le> length c \<Longrightarrow> n = length vs \<Longrightarrow> cut i n (put_at i vs c) = vs"
  by (simp add: cut_def put_at_def)

lemma put_at_shift: "i \<le> length c \<Longrightarrow> put_at (i + k) vs c = take i c @ put_at k vs (drop i c)"
  by (simp add: put_at_def take_add ac_simps)

lemma take_put_at:
  assumes "k + length vs \<le> n" and "n \<le> length c"
  shows "take n (put_at k vs c) = put_at k vs (take n c)"
proof -
  have "min k (length c) = k" "min n k = k" "min k n = k" using assms by auto
  with assms show ?thesis by (simp add: put_at_def drop_take)
qed

lemma take_put_at_before: "n \<le> k \<Longrightarrow> k \<le> length c \<Longrightarrow> take n (put_at k vs c) = take n c"
  by (simp add: put_at_def min_absorb1)

lemma cut_put_other [simp]:
  assumes "j + length vs \<le> length c" and "i + n \<le> j \<or> j + length vs \<le> i"
  shows "cut i n (put_at j vs c) = cut i n c"
  using assms(2)
proof
  assume le: "i + n \<le> j"
  then obtain k where j: "j = i + k" by (metis add_leD1 le_Suc_ex)
  show ?thesis using assms(1) le take_put_at_before [of n k "drop i c" vs] by (simp add: j put_at_shift cut_def)
next
  assume "j + length vs \<le> i"
  then show ?thesis using assms(1) by (simp add: cut_def put_at_def)
qed

lemma cut_put_inside:
  assumes "i \<le> j" and "j + length vs \<le> i + n" and "i + n \<le> length c"
  shows "cut i n (put_at j vs c) = put_at (j - i) vs (cut i n c)"
proof -
  obtain k where j: "j = i + k" using assms(1) le_Suc_ex by blast
  show ?thesis using assms take_put_at [of k vs n "drop i c"] by (simp add: j put_at_shift cut_def)
qed

lemma put_at_map: "put_at i (map f vs) (map f c) = map f (put_at i vs c)"
  by (simp add: put_at_def take_map drop_map)

lemma cells_bytes_Byte [simp]: "cells_bytes (map Byte bs) = Some bs"
  by (induction bs) simp_all

lemma length_ptr_cells [simp]: "length (ptr_cells q) = 8"
  by (simp add: ptr_cells_def)

lemma cells_ptr_cells [simp]: "cells_ptr (ptr_cells q) = Some q"
proof -
  have "ptr_cells q = Frag q 0 # map (Frag q) [1..<8]" by (simp add: ptr_cells_def upt_rec)
  then show ?thesis by (simp add: ptr_cells_def)
qed

lemma length_tid_bytes [simp]: "length (tid_bytes t) = 6"
  by (simp add: tid_bytes_def u16_bytes_def)

lemma u16_halves: "(ucast (ucast (w :: u16) :: u8) OR push_bit 8 (ucast (ucast (drop_bit 8 w) :: u8)) :: 'a :: len word) =
    (ucast w :: 'a word)" if "16 \<le> LENGTH('a)"
  using that by (intro bit_word_eqI)
    (auto simp: bit_or_iff bit_push_bit_iff bit_ucast_iff bit_drop_bit_eq dest: bit_imp_le_length)

interpretation tid_bytes_codec: codec tid_bytes bytes_tid "\<lambda>_. True"
proof unfold_locales
  fix t :: ItemPointerData
  have "push_bit 16 (ucast (ucast (drop_bit 16 b) :: u16)) OR ucast (ucast b :: u16) = b" for b :: u32
    by (intro bit_word_eqI) (auto simp: bit_or_iff bit_push_bit_iff bit_ucast_iff bit_drop_bit_eq)
  then show "bytes_tid (tid_bytes t) = Some t"
    by (simp add: tid_bytes_def u16_bytes_def u16_halves or.assoc [symmetric])
qed

section \<open>Running the constructors\<close>

lemma bindE_Ok: "m s = Some (Ok x, s') \<Longrightarrow> bindE m f s = f x s'"
  by (simp add: bindE_def)

lemma seqE_Ok: "m s = Some (Ok x, s') \<Longrightarrow> seqE m n s = n s'"
  by (simp add: seqE_def bindE_Ok)

lemma store_cells_at:
  "store_cells (Ptr b i) vs (with_chunk b c m) = (if i + length vs \<le> length c then Some (Ok (), with_chunk b (put_at i vs c) m) else None)"
  by (simp add: store_cells_def with_chunk_def)

lemma load_cells_at:
  "load_cells (Ptr b i) n (with_chunk b c m) = (if i + n \<le> length c then Some (Ok (cut i n c), with_chunk b c m) else None)"
  by (simp add: load_cells_def with_chunk_def)

lemma load_bytes_at:
  "i + n \<le> length c \<Longrightarrow> cut i n c = map Byte bs \<Longrightarrow> load_bytes (Ptr b i) n (with_chunk b c m) = Some (Ok bs, with_chunk b c m)"
  by (simp add: load_bytes_def bindE_def load_cells_at or_undefined_def ret_def)

lemma load_u32_at:
  "i + 4 \<le> length c \<Longrightarrow> cut i 4 c = map Byte (to_le_bytes w) \<Longrightarrow> load_u32 (Ptr b i) (with_chunk b c m) = Some (Ok w, with_chunk b c m)"
  by (simp add: load_u32_def bindE_def load_bytes_at or_undefined_def ret_def)

lemma load_ptr_at:
  "i + 8 \<le> length c \<Longrightarrow> cut i 8 c = ptr_cells q \<Longrightarrow> load_ptr (Ptr b i) (with_chunk b c m) = Some (Ok q, with_chunk b c m)"
  by (simp add: load_ptr_def bindE_def load_cells_at or_undefined_def ret_def)

lemma memory_ok_chunk: "memory_ok (with_chunk b c m) \<Longrightarrow> memory_ok (with_chunk b c' m)"
  by (auto simp: memory_ok_def with_chunk_def split: if_splits)

lemma ptr_add_Ptr [simp]: "ptr_add (Ptr b i) n = Ptr b (i + n)"
  by (simp add: ptr_add_def)

context layout_laws
begin

lemma HEAPTUPLESIZE_bounds:
  "size_of_HeapTupleData L \<le> HEAPTUPLESIZE L" "HEAPTUPLESIZE L \<le> size_of_HeapTupleData L + 7" "8 dvd HEAPTUPLESIZE L"
proof -
  let ?w = "of_nat (size_of_HeapTupleData L) + 7 :: u64"
  have w: "unat ?w = size_of_HeapTupleData L + 7"
    using size_small by (simp add: unat_word_ariths unsigned_of_nat take_bit_nat_eq_self)
  have "?w AND NOT (mask 3) = push_bit 3 (drop_bit 3 ?w)"
    by (intro bit_word_eqI) (auto simp: bit_and_iff bit_not_iff bit_mask_iff bit_push_bit_iff bit_drop_bit_eq)
  moreover have "unat (drop_bit 3 ?w) = (size_of_HeapTupleData L + 7) div 8"
    by (simp add: drop_bit_eq_div unat_div_distrib w)
  then have "unat (push_bit 3 (drop_bit 3 ?w)) = (size_of_HeapTupleData L + 7) div 8 * 8"
    using size_small by (simp only: push_bit_eq_mult unat_word_ariths) simp
  moreover have "(7 :: u64) = mask 3" by (simp add: mask_eq_exp_minus_1)
  ultimately have e: "HEAPTUPLESIZE L = (size_of_HeapTupleData L + 7) div 8 * 8"
    unfolding HEAPTUPLESIZE_def by metis
  show "size_of_HeapTupleData L \<le> HEAPTUPLESIZE L" "HEAPTUPLESIZE L \<le> size_of_HeapTupleData L + 7" "8 dvd HEAPTUPLESIZE L"
    unfolding e by simp_all
qed

text \<open>The chunk of a tuple: what each field of it reads as.\<close>

definition tuple_chunk :: "nat \<Rightarrow> u32 \<Rightarrow> int \<Rightarrow> bytes \<Rightarrow> memval list \<Rightarrow> bool" where
  "tuple_chunk b rel rid bs c \<longleftrightarrow> length c = HEAPTUPLESIZE L + length bs \<and>
     cut (HEAPTUPLESIZE L) (length bs) c = map Byte bs \<and>
     cut (off_t_len L) 4 c = map Byte (to_le_bytes (of_nat (length bs))) \<and>
     cut (off_t_self L) 6 c = map Byte (tid_bytes (rowid_to_tid rid)) \<and>
     cut (off_t_tableOid L) 4 c = map Byte (to_le_bytes rel) \<and>
     cut (off_t_data L) 8 c = ptr_cells (Ptr b (HEAPTUPLESIZE L))"

lemmas field_bounds = self_after oid_after data_after size_covers HEAPTUPLESIZE_bounds(1)

lemma build_at:
  assumes "palloc_laws A" and "memory_ok m" and "length bs \<le> 1000000000"
  obtains b c m1 where "build_heap_tuple_at A L rel rid bs m = Some (Ok (Ptr b 0), with_chunk b c m1)" "chunks m1 = chunks m"
    "chunks m b = None" "tuple_chunk b rel rid bs c" "memory_ok (with_chunk b c m1)"
proof -
  let ?H = "HEAPTUPLESIZE L"
  have "?H + length bs \<le> MaxAllocSize"
    using assms(3) HEAPTUPLESIZE_bounds(2) size_small by (simp add: MaxAllocSize_def)
  from palloc_laws.palloc_ok [OF assms(1,2) this] obtain b c0 m1 where
    p: "palloc A (?H + length bs) m = Some (Ok (Ptr b 0), with_chunk b c0 m1)" "chunks m1 = chunks m" "chunks m b = None"
      "length c0 = ?H + length bs" and ok: "memory_ok (with_chunk b c0 m1)" by metis
  let ?c = "put_at (off_t_data L) (ptr_cells (Ptr b ?H)) (put_at (off_t_tableOid L) (map Byte (to_le_bytes rel))
    (put_at (off_t_self L) (map Byte (tid_bytes (rowid_to_tid rid))) (put_at (off_t_len L) (map Byte (to_le_bytes (of_nat (length bs))))
    (put_at ?H (map Byte bs) c0))))"
  have "build_heap_tuple_at A L rel rid bs m = Some (Ok (Ptr b 0), with_chunk b ?c m1)"
    using p field_bounds
    by (simp add: build_heap_tuple_at_def bindE_def seqE_def Let_def store_bytes_def store_u32_def store_ptr_def store_cells_at ret_def)
  moreover have "tuple_chunk b rel rid bs ?c" using p field_bounds by (simp add: tuple_chunk_def)
  ultimately show ?thesis using that p(2,3) memory_ok_chunk [OF ok] by blast
qed

lemma overlay_put:
  "12 \<le> length bs \<Longrightarrow> put_at 8 (to_le_bytes z) (put_at 4 (to_le_bytes y) (put_at 0 (to_le_bytes x) bs)) = overlay_header x y z bs"
  by (simp add: put_at_def overlay_header_def)

lemma from_parts_at:
  assumes "palloc_laws A" and "memory_ok m" and "length bs \<le> 1000000000"
  obtains b c m1 where "build_heap_tuple_from_parts_at A L rel hdr bs m =
      (if 12 \<le> length bs then Some (Ok (Ptr b 0), with_chunk b c m1) else None)" "chunks m1 = chunks m" "chunks m b = None"
    "memory_ok (with_chunk b c m1)" "12 \<le> length bs \<longrightarrow> tuple_chunk b rel (rowid hdr) (overlay_header (xmin hdr) (xmax hdr) (cmin hdr) bs) c"
proof -
  let ?H = "HEAPTUPLESIZE L" and ?x = "to_le_bytes (xmin hdr)" and ?y = "to_le_bytes (xmax hdr)" and ?z = "to_le_bytes (cmin hdr)"
  obtain b c m1 where t: "build_heap_tuple_at A L rel (rowid hdr) bs m = Some (Ok (Ptr b 0), with_chunk b c m1)"
    "chunks m1 = chunks m" "chunks m b = None"
    "tuple_chunk b rel (rowid hdr) bs c" "memory_ok (with_chunk b c m1)" by (rule build_at [OF assms])
  then have len: "length c = ?H + length bs" and data: "cut ?H (length bs) c = map Byte bs"
    and q: "load_ptr (Ptr b (off_t_data L)) (with_chunk b c m1) = Some (Ok (Ptr b ?H), with_chunk b c m1)"
    using field_bounds by (simp_all add: tuple_chunk_def load_ptr_at)
  let ?c = "put_at (?H + 8) (map Byte ?z) (put_at (?H + 4) (map Byte ?y) (put_at ?H (map Byte ?x) c))"
  have "build_heap_tuple_from_parts_at A L rel hdr bs m = (if 12 \<le> length bs then Some (Ok (Ptr b 0), with_chunk b ?c m1) else None)"
    using len by (auto simp: build_heap_tuple_from_parts_at_def bindE_def seqE_def t(1) q store_bytes_def store_u32_def store_cells_at ret_def)
  moreover have "tuple_chunk b rel (rowid hdr) (overlay_header (xmin hdr) (xmax hdr) (cmin hdr) bs) ?c" if "12 \<le> length bs"
  proof -
    have "cut ?H (length bs) ?c = map Byte (overlay_header (xmin hdr) (xmax hdr) (cmin hdr) bs)"
      using that len by (simp add: cut_put_inside data put_at_map overlay_put)
    then show ?thesis
      using t(4) that len field_bounds by (simp add: tuple_chunk_def overlay_header_def)
  qed
  ultimately show ?thesis using that t(2,3) memory_ok_chunk [OF t(5)] by blast
qed

lemma owned_bytes_at:
  assumes "tuple_chunk b rel rid bs c" and "length bs \<le> 1000000000"
  shows "OwnedHeapTuple_bytes L (Ptr b 0) (with_chunk b c m) = Some (Ok bs, with_chunk b c m)"
proof -
  have "unat (of_nat (length bs) :: u32) = length bs" using assms(2) by (simp add: unsigned_of_nat take_bit_nat_eq_self)
  then show ?thesis
    using assms(1) field_bounds
    by (simp add: OwnedHeapTuple_bytes_def tuple_chunk_def bindE_def load_ptr_at load_u32_at load_bytes_at)
qed

lemma read_tuple_at:
  assumes "tuple_chunk b rel rid bs c" and "length bs \<le> 1000000000"
  shows "read_heap_tuple L (Ptr b 0) (with_chunk b c m) =
    Some (Ok \<lparr>t_len = of_nat (length bs), t_self = rowid_to_tid rid, t_tableOid = rel, t_data = bs\<rparr>, with_chunk b c m)"
proof -
  have "load_bytes (Ptr b (off_t_self L)) 6 (with_chunk b c m) = Some (Ok (tid_bytes (rowid_to_tid rid)), with_chunk b c m)"
    "load_u32 (Ptr b (off_t_len L)) (with_chunk b c m) = Some (Ok (of_nat (length bs)), with_chunk b c m)"
    "load_u32 (Ptr b (off_t_tableOid L)) (with_chunk b c m) = Some (Ok rel, with_chunk b c m)"
    using assms(1) field_bounds by (simp_all add: tuple_chunk_def load_bytes_at load_u32_at)
  then show ?thesis
    by (simp add: read_heap_tuple_def bindE_def owned_bytes_at [OF assms] tid_bytes_codec.dec_enc or_undefined_def ret_def)
qed

end

text \<open>An allocator that never reuses a chunk, and the layout on 64-bit machines.\<close>

definition bump_palloc :: palloc_api where
  "bump_palloc = \<lparr>palloc = (\<lambda>n m. Some (Ok (Ptr (brk m) 0), with_chunk (brk m) (replicate n Undef) (m\<lparr>brk := brk m + 1\<rparr>))),
     heap_freetuple = (\<lambda>p m. if chunks m (ptr_block p) = None then None
       else Some (Ok (), m\<lparr>chunks := (chunks m)(ptr_block p := None)\<rparr>))\<rparr>"

interpretation bump: palloc_laws bump_palloc
proof unfold_locales
  fix m :: memory and n assume "memory_ok m"
  then show "\<exists>b c m'. palloc bump_palloc n m = Some (Ok (Ptr b 0), with_chunk b c m') \<and> chunks m' = chunks m \<and>
      chunks m b = None \<and> memory_ok (with_chunk b c m') \<and> length c = n"
    by (intro exI [of _ "brk m"] exI [of _ "replicate n Undef"] exI [of _ "m\<lparr>brk := brk m + 1\<rparr>"])
      (auto simp: bump_palloc_def memory_ok_def with_chunk_def)
qed (simp add: bump_palloc_def)

definition x64_layout :: tuple_layout where
  "x64_layout = \<lparr>size_of_HeapTupleData = 24, off_t_len = 0, off_t_self = 4, off_t_tableOid = 12, off_t_data = 16\<rparr>"

interpretation x64: layout_laws x64_layout
  by unfold_locales (simp_all add: x64_layout_def)

end
