(* ===== verification/Demo_Backend.thy ===== *)
theory Demo_Backend
  imports Am_Routine Xact_Spec Flaky_Engine Tuple_Memory
begin

text \<open>
  Concrete states on which the properties are evaluated: a backend of database 5 that has
  touched no relation yet, over the reference engine and a directory with one file, that of
  relation 16; a transaction 10 that is at command 3; snapshots.
\<close>

definition demo_file :: "u32 \<Rightarrow> string" where
  "demo_file rel = rel_path ''/pg/sqlite_heap/5'' rel"

definition demo_tab :: "srow list \<Rightarrow> tables" where
  "demo_tab rs = \<lparr>user_version = 4, has_tables = True, has_prev = False, has_dead_index = False,
     storage = rs, meta = []\<rparr>"

definition demo_world :: "tables \<Rightarrow> ref_world" where
  "demo_world t = \<lparr>rw_eng = \<lparr>e_files = [demo_file 16 \<mapsto> t], e_dbs = Map.empty, e_stmts = Map.empty\<rparr>,
     rw_next = 0, rw_sizes = Map.empty, rw_dir = Some [''16.sqlite'', ''16.sqlite-wal'', ''7.sqlite''], rw_log = []\<rparr>"

definition demo_backend :: "tables \<Rightarrow> ref_world backend" where
  "demo_backend t = \<lparr>CONNS = Map.empty, TX_RELS = {}, SQLITE_DIR = None, HOOKS = [], World = demo_world t\<rparr>"

definition demo_conn :: "u32 \<Rightarrow> tables \<Rightarrow> dbconn" where
  "demo_conn rel t = \<lparr>db_path = demo_file rel, db_tab = t, db_txn = None, db_last_rowid = 0, db_changes = 0\<rparr>"

definition demo_row :: "int \<Rightarrow> u32 \<Rightarrow> u32 \<Rightarrow> bytes \<Rightarrow> srow" where
  "demo_row rid xn xx b = \<lparr>rw_id = rid, rw_xmin = sint xn, rw_cmin = 0, rw_xmax = sint xx, rw_cmax = 0, rw_tuple = b\<rparr>"

definition demo_pg :: pg_xact where
  "demo_pg = \<lparr>TransactionIdDidCommit = (\<lambda>x. x < 10), TransactionIdIsCurrentTransactionId = (\<lambda>x. x = 10),
     TransactionIdIsInProgress = (\<lambda>x. x = 11), TransactionIdPrecedes = (\<lambda>a b. a < b),
     TransactionIdFollows = (\<lambda>a b. b < a), GetCurrentTransactionId = 10, GetCurrentCommandId = 3,
     GetOldestNonRemovableTransactionId = (\<lambda>_. 8)\<rparr>"

text \<open>The same, but transaction 7 aborted.\<close>

definition demo_pg2 :: pg_xact where
  "demo_pg2 = demo_pg\<lparr>TransactionIdDidCommit := (\<lambda>x. x < 10 \<and> x \<noteq> 7)\<rparr>"

definition demo_snap :: Snapshot where
  "demo_snap = \<lparr>snapshot_type = SNAPSHOT_MVCC, snap_xmin = 9, snap_xmax = 12, xip = [11], subxip = [],
     curcid = 3, speculativeToken = 0\<rparr>"

definition demo_slot :: "bytes \<Rightarrow> HeapTupleData option slot" where
  "demo_slot b = \<lparr>tts_tableOid = 0, tts_tid = \<lparr>ip_blkid = 0, ip_posid = 0\<rparr>,
     tts_body = Some \<lparr>t_len = of_nat (length b), t_self = \<lparr>ip_blkid = 0, ip_posid = 0\<rparr>, t_tableOid = 0, t_data = b\<rparr>\<rparr>"

text \<open>A bitmap iterator over a list of pages; an exact page has the offsets 2 and 9.\<close>

definition demo_page :: "u32 \<Rightarrow> bool \<Rightarrow> unit TBMIterateResult" where
  "demo_page blk lossy = \<lparr>tbm_blockno = blk, tbm_lossy = lossy, tbm_recheck = lossy, tbm_page = ()\<rparr>"

definition demo_tbm :: "(unit TBMIterateResult list, unit) tbm_api" where
  "demo_tbm = \<lparr>tbm_iterate = (\<lambda>ps. case ps of [] \<Rightarrow> (None, []) | p # ps' \<Rightarrow> (Some p, ps')),
     tbm_extract_page_tuple = (\<lambda>p n. (take n [2, 9], 2))\<rparr>"

text \<open>A backend that has relation 16 open, outside a SQLite transaction.\<close>

definition open_world :: "tables \<Rightarrow> ref_world" where
  "open_world t = (demo_world t)\<lparr>rw_eng := \<lparr>e_files = [demo_file 16 \<mapsto> t], e_dbs = [0 \<mapsto> demo_conn 16 t],
     e_stmts = Map.empty\<rparr>, rw_next := 1\<rparr>"

definition open_backend :: "u32 set \<Rightarrow> tables \<Rightarrow> ref_world backend" where
  "open_backend rels t = \<lparr>CONNS = [16 \<mapsto> RelConn_new 0], TX_RELS = rels, SQLITE_DIR = Some ''/pg/sqlite_heap/5'',
     HOOKS = all_hooks, World = open_world t\<rparr>"

text \<open>A host whose disk is full: every \<open>COMMIT\<close> is refused. A backend that has a SQLite transaction open.\<close>

definition full_host :: "ref_world host" where
  "full_host = ref_host\<lparr>sqlite3_exec := (\<lambda>db sq w. if sq = ''COMMIT'' then ((13, Some ''database or disk is full''), w)
     else sqlite3_exec ref_host db sq w)\<rparr>"

definition stuck_backend :: "tables \<Rightarrow> ref_world backend" where
  "stuck_backend t = (open_backend {16} t)\<lparr>CONNS := [16 \<mapsto> (RelConn_new 0)\<lparr>in_txn := True\<rparr>]\<rparr>"

text \<open>A host on which a step fails for want of space and rolls the transaction back, and a backend over an
  engine with scripted failures.\<close>

definition rollback_host :: "ref_world host" where
  "rollback_host = ref_host\<lparr>sqlite3_step := (\<lambda>st w. (13, on_eng (\<lambda>e. case e_stmts e st of None \<Rightarrow> e
     | Some q \<Rightarrow> (case eng_exec (st_db q) X_rollback e of None \<Rightarrow> e | Some e' \<Rightarrow> e')) w))\<rparr>"

definition flaky_backend :: "bool list \<Rightarrow> tables \<Rightarrow> flaky_world backend" where
  "flaky_backend fs t = \<lparr>CONNS = Map.empty, TX_RELS = {}, SQLITE_DIR = None, HOOKS = [], World = (demo_world t, fs)\<rparr>"

definition demo_parallel :: "unit parallel_api" where
  "demo_parallel = \<lparr>table_block_parallelscan_estimate = (\<lambda>_. 0), table_block_parallelscan_initialize = (\<lambda>_ _. (0, ())),
     table_block_parallelscan_reinitialize = (\<lambda>_ _. ())\<rparr>"

lemma demo_ok: "backend_ok rw_eng ref_up (demo_backend t)"
  by (simp add: backend_ok_def demo_backend_def demo_world_def ref_up_def)

lemma demo_dir: "dir_of ref_host (demo_backend t) = Some ''/pg/sqlite_heap/5''"
proof -
  have "show_u32 5 = ''5''" by code_simp
  then show ?thesis by (simp add: dir_of_def demo_backend_def ref_host_def path_join_def)
qed

lemma demo_avail:
  assumes "openable t" shows "avail ref_host rw_eng (demo_backend t) 16 (demo_conn 16 (upgraded t))"
  using assms demo_dir [of t] unfolding avail_def
  by (simp add: demo_backend_def demo_world_def open_conn_at_def demo_conn_def demo_file_def Let_def)

lemma demo_avail_new:
  assumes "rel \<noteq> 16"
  shows "avail ref_host rw_eng (demo_backend t) rel (demo_conn rel (upgraded empty_tables))"
  using assms demo_dir [of t] unfolding avail_def
  by (simp add: demo_backend_def demo_world_def open_conn_at_def demo_conn_def demo_file_def Let_def
      rel_path_inj openable_def empty_tables_def SCHEMA_VERSION_def)

lemma demo_tab_simps [simp]:
  "openable (demo_tab rs)" "upgraded (demo_tab rs) = demo_tab rs" "has_tables (demo_tab rs)" "storage (demo_tab rs) = rs"
  "db_tab (demo_conn rel t) = t" "db_txn (demo_conn rel t) = None" "meta (demo_tab rs) = []"
  by (simp_all add: openable_def upgraded_def demo_tab_def SCHEMA_VERSION_def demo_conn_def)

lemma demo_avail_tab: "avail ref_host rw_eng (demo_backend (demo_tab rs)) 16 (demo_conn 16 (demo_tab rs))"
  using demo_avail [of "demo_tab rs"] by simp

lemma demo_typed:
  assumes "rows_ok rs" shows "well_typed ref_host rw_eng (demo_backend (demo_tab rs))"
proof -
  have e: "rows_ok (storage (upgraded empty_tables))" "rows_ok (storage (upgraded (demo_tab rs)))"
    using assms by (simp_all add: upgraded_def empty_tables_def rows_ok_def)
  have "conn_typed d" if "avail ref_host rw_eng (demo_backend (demo_tab rs)) rel d" for rel d
    using that e demo_dir [of "demo_tab rs"] unfolding avail_def
    by (auto simp: demo_backend_def demo_world_def open_conn_at_def conn_typed_def Let_def split: if_splits)
  then show ?thesis by (simp add: well_typed_def demo_backend_def)
qed

lemma demo_copy: "length b < 2 ^ 32 \<Longrightarrow> copy_heap_tuple heap_slots (demo_slot b) = b"
  by (simp add: copy_heap_tuple_def heap_slots_def demo_slot_def unsigned_of_nat take_bit_nat_eq_self)

lemma demo_holds:
  "rows_ok rs \<Longrightarrow> holds ref_host rw_eng ref_up (demo_backend (demo_tab rs)) 16 (demo_tab rs)"
  using demo_avail_tab [of rs] ref.sqlite_engine_axioms demo_ok [of "demo_tab rs"]
  by (auto simp: holds_def intro!: exI [of _ "demo_conn 16 (demo_tab rs)"])

lemma demo_holds_new:
  assumes "rel \<noteq> 16"
  shows "holds ref_host rw_eng ref_up (demo_backend t) rel (upgraded empty_tables)"
  using demo_avail_new [OF assms, of t] ref.sqlite_engine_axioms demo_ok [of t]
  by (auto simp: holds_def rows_ok_def upgraded_def empty_tables_def intro!: exI [of _ "demo_conn rel (upgraded empty_tables)"])

lemma open_ok: "backend_ok rw_eng ref_up (open_backend rels t)"
  by (simp add: backend_ok_def open_backend_def open_world_def demo_world_def ref_up_def conn_ok_def RelConn_new_def
      committed_def demo_conn_def demo_file_def rel_path_def path_join_def)

lemma open_rel_db: "rel_db rw_eng (open_backend rels t) 16 = Some (demo_conn 16 t)" "TX_RELS (open_backend rels t) = rels"
  by (simp_all add: rel_db_def open_backend_def open_world_def RelConn_new_def)

lemma open_dir: "dir_of ref_host (open_backend rels t) = Some ''/pg/sqlite_heap/5''"
  by (simp add: dir_of_def open_backend_def)

lemma flaky_ok:
  "fault_ok flaky_watch ((\<lambda>_. ([], []))(demo_file 16 := (storage t, meta t))) (flaky_backend fs t)"
  by (auto simp: fault_ok_def flaky_backend_def ref_sane_def ref_up_def ref_disk_def demo_world_def fun_eq_iff)

lemma rollback_run:
  "case insert_row rollback_host 16 10 2 [7] (open_backend {16} (demo_tab rs)) of Some (Panic m, s1) \<Rightarrow>
     ref_up (World s1) \<and> CONNS s1 16 \<noteq> None \<and> in_txn (the (CONNS s1 16)) \<and>
     e_dbs (rw_eng (World s1)) (rc_db (the (CONNS s1 16))) = Some (demo_conn 16 (demo_tab rs)) \<and> TX_RELS s1 = {16} | _ \<Rightarrow> False"
  by (simp add: insert_row_def with_conn_def ensure_in_xact_def on_conn_def begin_if_needed_def exec_def try_exec_def prepare_cached_def
      conn_prog_defs bind_u32_def bind_blob_def step_done_def bindE_def seqE_def getE_def modE_def callE_def ret_def panic_def
      rollback_host_def open_backend_def RelConn_new_def open_world_def demo_world_def ref_exec_def eng_exec_def ref_prepare_def
      on_eng_def put_conn_def demo_conn_def SQLITE_OK_def preparable_def on_stmt_def fresh_stmt_def put_stmt_def bind_stmt_def SQLITE_DONE_def)
    (simp add: ref_up_def)

lemma demo_refines:
  "refines ref_host rw_eng ref_up {16} \<lparr>base = \<lambda>_. demo_tab rs, work = \<lambda>_. demo_tab rs, subs = [], touched = {},
     hooked = False, last_sub = 0\<rparr> (demo_backend (demo_tab rs))"
  by (rule refines_start)
    (use demo_ok demo_avail_tab [of rs] in \<open>auto simp: demo_backend_def intro!: exI [of _ "demo_conn 16 (demo_tab rs)"]\<close>)

end
