(* ===== verification/Fx_Hash.thy ===== *)
theory Fx_Hash
  imports Heap_Prelude
begin

text \<open>
  The hasher behind the connection and transaction tables (\<open>src/fxhash.rs\<close>): a 64-bit
  multiplicative hash. The state of the hasher is the \<open>u64\<close> it wraps.
\<close>

section \<open>Definitions\<close>

type_synonym FxHasher = u64

definition SEED :: u64 where "SEED = 0x517cc1b727220a95"

definition FxHasher_default :: FxHasher where "FxHasher_default = 0"

definition finish :: "FxHasher \<Rightarrow> u64" where "finish h = h"

definition write_u32 :: "FxHasher \<Rightarrow> u32 \<Rightarrow> FxHasher" where
  "write_u32 h i = (word_rotl 5 h XOR ucast i) * SEED"

fun write_bytes :: "FxHasher \<Rightarrow> bytes \<Rightarrow> FxHasher" where
  "write_bytes h [] = h"
| "write_bytes h (b # bs) = write_bytes ((word_rotl 5 h XOR ucast b) * SEED) bs"

text \<open>The hash of a relation id, as \<open>HashMap\<close> and \<open>HashSet\<close> ask for it.\<close>

definition hash_rel_id :: "u32 \<Rightarrow> u64" where
  "hash_rel_id k = finish (write_u32 FxHasher_default k)"

text \<open>
  An \<open>i64\<close> key reaches the hasher through the default methods of \<open>Hasher\<close>, which hand its
  eight native-endian bytes to \<open>write\<close>.
\<close>

definition i64_ne_bytes :: "int \<Rightarrow> bytes" where
  "i64_ne_bytes k = (let w = (word_of_int k :: u64) in
     to_le_bytes (ucast w) @ to_le_bytes (ucast (drop_bit 32 w)))"

definition hash_rowid :: "int \<Rightarrow> u64" where
  "hash_rowid k = finish (write_bytes FxHasher_default (i64_ne_bytes k))"

section \<open>The mixing step loses nothing\<close>

definition SEED_INV :: u64 where "SEED_INV = 0x2040003d780970bd"

lemma SEED_mult_inv: "SEED * SEED_INV = 1"
  by (simp add: SEED_def SEED_INV_def)

lemma mult_SEED_cancel [simp]: "a * SEED = b * SEED \<longleftrightarrow> a = b"
proof
  assume "a * SEED = b * SEED"
  then have "a * (SEED * SEED_INV) = b * (SEED * SEED_INV)"
    by (metis mult.assoc)
  then show "a = b" by (simp add: SEED_mult_inv)
qed simp

lemma xor_cancel_left [simp]: "(a :: 'a :: len word) XOR b = a XOR c \<longleftrightarrow> b = c"
  by (metis xor.assoc xor.left_neutral xor_self_eq)

lemma xor_cancel_right [simp]: "(b :: 'a :: len word) XOR a = c XOR a \<longleftrightarrow> b = c"
  by (metis xor.commute xor_cancel_left)

lemma word_rotl_cancel [simp]: "word_rotl n (a :: 'a :: len word) = word_rotl n b \<longleftrightarrow> a = b"
  by (metis word_rot_gal)

lemma ucast_u32_u64_inj [simp]: "(ucast (i :: u32) :: u64) = ucast j \<longleftrightarrow> i = j"
  by (simp add: ucast_up_inj)

lemma ucast_u8_u64_inj [simp]: "(ucast (i :: u8) :: u64) = ucast j \<longleftrightarrow> i = j"
  by (simp add: ucast_up_inj)

lemma write_bytes_append: "write_bytes h (bs @ cs) = write_bytes (write_bytes h bs) cs"
  by (induction bs arbitrary: h) auto

lemma write_bytes_inj_state: "write_bytes h bs = write_bytes h' bs \<longleftrightarrow> h = h'"
  by (induction bs arbitrary: h h') auto

lemma write_bytes_snoc_inj: "write_bytes h (bs @ [b]) = write_bytes h (bs @ [c]) \<longleftrightarrow> b = c"
  by (simp add: write_bytes_append)

lemma write_u32_inj: "write_u32 h i = write_u32 h j \<longleftrightarrow> i = j"
  by (simp add: write_u32_def)

text \<open>Distinct relation ids have distinct hashes: the connection table has no full collisions.\<close>

lemma hash_rel_id_inj: "inj hash_rel_id"
  by (rule injI) (simp add: hash_rel_id_def finish_def write_u32_inj)

end
