(* ===== verification/Spec2Isabelle.thy ===== *)
theory Spec2Isabelle
  imports Demo_Backend Fx_Hash
begin

text \<open>
  Verification of pg-sqlite-heap, a Postgres table access method that keeps the rows of each
  table in a SQLite file of its own.

  \<^bold>\<open>The program.\<close> Postgres calls the callbacks of \<open>src/tam.rs\<close> (scans, fetches, inserts, deletes,
  updates, index and relation maintenance). They marshal tuples and TIDs with \<open>src/ffi.rs\<close>, ask
  \<open>src/visibility.rs\<close> which row versions a snapshot sees, and read and write rows through
  \<open>src/sqlite.rs\<close>, which keeps one connection per relation and backend in thread-local tables,
  runs SQL text through the SQLite C API, and follows Postgres's transactions and subtransactions
  with hooks. \<open>src/lib.rs\<close> has the handler, SQL-callable inspection functions and the trigger that
  reclaims a dropped table's files; \<open>src/fxhash.rs\<close> is the hasher of the tables.

  \<^bold>\<open>Theories.\<close>
  \<^item> \<open>Heap_Prelude\<close>: machine types, programs with state, panics (\<open>Panic\<close>) and non-return (\<open>None\<close>),
    their weakest precondition \<open>wp\<close> (total: the program returns normally), the locale \<open>codec\<close>.
  \<^item> \<open>Fx_Hash\<close>: \<open>src/fxhash.rs\<close>.
  \<^item> \<open>Tuple_Ffi\<close>: \<open>src/ffi.rs\<close>; TIDs, heap tuples, slots. The executor's slot functions are the
    parameter \<open>slot_api\<close> with the laws of the locale \<open>slot_laws\<close>.
  \<^item> \<open>Tuple_Memory\<close>: the same tuples behind pointers, in a memory of allocations with bounds where an
    access outside one has no result. The palloc allocator and the C layout of \<open>HeapTupleData\<close> are
    the parameters \<open>palloc_api\<close> and \<open>tuple_layout\<close> with the locales \<open>palloc_laws\<close> and \<open>layout_laws\<close>.
  \<^item> \<open>Visibility\<close>: \<open>src/visibility.rs\<close>, every snapshot type. Postgres's transaction status functions
    are the parameter \<open>pg_xact\<close>. The locale \<open>snapshot_view\<close> states a visibility rule by what it
    sees of each effect; the MVCC and the self rule interpret it.
  \<^item> \<open>Sql_Engine\<close>: the SQLite C API and the file system as the record \<open>host\<close>, an abstract engine
    \<open>eng\<close> (files, connections with transaction and savepoints, statements) over the SQL texts
    the sources issue, and the contract \<open>sqlite_engine\<close> between the two. \<open>Ref_Engine\<close> is an
    executable host that satisfies the contract. \<open>Std_Text\<close>: decimal numbers and paths.
  \<^item> \<open>Rel_Conn\<close>, \<open>Open_Conn\<close>: \<open>RelConn\<close>, statements, schema installation and migration, opening.
  \<^item> \<open>Backend_Inv\<close>: the thread-local tables (record \<open>backend\<close>) and their invariant \<open>backend_ok\<close>:
    every cached connection is open on its relation's file, its flag tells whether a SQLite
    transaction is open, the file holds the committed tables, the cached statements are its own.
  \<^item> \<open>Row_Store\<close>: the operations of \<open>src/sqlite.rs\<close> on rows and metadata, each with the
    effect of its statement. \<open>Seen_Table\<close>: the abstract table, that is, what a snapshot sees of the
    rows; \<open>holds\<close> says that an operation on a relation will find given tables.
  \<^item> \<open>Xact_Hooks\<close>, \<open>Xact_Trace\<close>: the hooks; transactions as sequences of steps (inductive \<open>step\<close>
    and \<open>trace\<close>) with the invariants behind atomicity and the typing of the stored rows
    (\<open>well_typed\<close>). \<open>Xact_Spec\<close>: the transactional store that the
    hooks and row operations implement, as a machine on whole tables, and the refinement.
  \<^item> \<open>Faults\<close>: what is kept when calls of SQLite fail, at any point and any number of them, the calls
    that open a file and set up its schema included: a calculus \<open>wlp\<close> over all outcomes, the weaker
    contract \<open>fallible_engine\<close>, and the attempts of a transaction (inductive \<open>attempt\<close>).
    \<open>Flaky_Engine\<close> is an executable host with scripted failures that satisfies the contract.
  \<^item> \<open>Scan\<close>, \<open>Bitmap_Scan\<close>: the scan callbacks. The locale \<open>row_source\<close> is the interface of a scan;
    the sequential, TID-range, sample and bitmap scans interpret it.
  \<^item> \<open>Table_Am\<close>, \<open>Row_Walks\<close>, \<open>Drop_Storage\<close>: write, index and relation callbacks, \<open>ANALYZE\<close>, index
    build, directory listing, dropping. \<open>Am_Routine\<close>: the callback table and the handler.
  \<^item> \<open>Demo_Backend\<close>: the concrete states on which the properties are evaluated.

  \<^bold>\<open>Properties.\<close> C1 and C17 to C19 are about visibility; C2 to C8 and C22 say what the callbacks do
  to the abstract table; C9 to C16 are about transactions and subtransactions, C12 as an
  invariant and a typing, C13 as a refinement, C14 under failures and C15 as progress after an abort; C20 and C21 about TIDs and tuples in
  memory; C23 to C25 about opening files; C26, C27, C32 and C35 about the other scans; C28 and C36
  about indexes; C29 to C31 about copies, lost updates and identifier reuse; C33, C34 and C37 about
  files; C38 to C40 about cancelled and failed work. Several of them prove that the code does
  something it should not (C5, C16, C21, C24, C25, C27, C30, C31, C34, C39, C40), as do
  \<open>cluster_revives_aborted\<close>, \<open>subxact_commit_seen\<close> and \<open>tidrange_spills\<close>.

  \<^bold>\<open>Bounds.\<close> Rowids are \<open>int\<close> in the range of \<open>i64\<close>; TIDs are words, and C20 holds for rowids up to
  \<open>2 ^ 40\<close>, all that a 32-bit block number and 256 offsets can name. Transaction and command ids are
  32-bit words, stored by SQLite as signed numbers, as the code does. Tuples are at most \<open>10 ^ 9\<close>
  bytes, SQLite's limit; C21 asks no more, which with a header of at most 4096 bytes stays below
  the largest request palloc grants. The loops over a statement's rows and over bitmap pages are
  \<open>partial_function (option)\<close>; the \<open>wp\<close> of the properties shows that they return. \<open>drain\<close> and
  \<open>analyze_drain\<close> are the client's loop with a bound on the number of calls; any bound above the
  number of rows is enough, and the properties say that the end is reached.

  \<^bold>\<open>Scope.\<close> One backend at a time: the engine contracts have no other process that writes the file
  or holds a lock. Under \<open>sqlite_engine\<close> the statements the abstract engine accepts succeed; C39 is
  the failure of a \<open>COMMIT\<close>, C24 a refused file, C25 a version that could not be read, C16 a refused
  savepoint. Under \<open>fallible_engine\<close> every call may fail, provided that the failure ends the statement
  and not the transaction; C40 is what happens otherwise. The scan callbacks take the direction and
  the parallel scan descriptor as the code does, and as in the code neither has an effect (C2).

  \<^bold>\<open>Not modelled.\<close> The extension's DDL, the V1 calling-convention record, the pointer wrappers \<open>Rel\<close> and
  \<open>Slot\<close> of \<open>src/ffi.rs\<close> and the memory of the scan descriptors of \<open>src/tam.rs\<close> (the model passes
  values; only tuples are also modelled in memory), the declarations of \<open>src/raw_pg.rs\<close>
  (parameters here), executor-state setup in \<open>build_index\<close> (\<open>FormIndexDatum\<close> is a parameter), the
  tests, concurrent backends and the file locking of SQLite.
\<close>

section \<open>Visibility\<close>

text \<open>
  C1. The MVCC rule of \<open>visibility.rs\<close> decides exactly the specification: a row version is
  visible when its insertion is seen by the snapshot and it has no deleter, or one whose
  deletion the snapshot does not see.
\<close>

theorem mvcc_visible_iff:
  "visible_mvcc pg row snap \<longleftrightarrow>
     sees pg snap (xmin row) (cmin row) \<and> \<not> (xmax row \<noteq> 0 \<and> sees pg snap (xmax row) (cmax row))"
  by (rule mvcc.vis_iff)

section \<open>Tables seen through the callbacks\<close>

text \<open>
  C2. A sequential scan, begun under a snapshot that is not dirty and drained by repeated
  calls of \<open>scan_getnextslot\<close>, ends and hands out, in rowid order, exactly the rows that
  \<open>row_visible\<close> accepts, each with the stored header written over its tuple. It does so for every
  direction \<open>dir\<close> of the calls and every \<open>pscan\<close>: a backward scan runs forward, and each participant
  of a parallel scan hands out the whole table.
\<close>

theorem full_scan:
  assumes "holds h view up s rel t" and "slot_laws x" and "read_only snap" and "length (storage t) < n"
  shows "wp (drain (seq_next h pg x dir) n (scan_begin it rel snap nkeys key pscan flags, sl)) (\<lambda>(sts, fin) s'.
    fin \<and> map (slot_tuple x) sts =
      map (stored_tuple rel) (filter (sees_row pg snap) (map row_of (storage t)))) s"
  by (rule seq_drain [OF assms])

theorem full_scan_witness:
  "wp (drain (seq_next ref_host demo_pg heap_slots ForwardScanDirection) 3 (scan_begin () 16 demo_snap 0 None None 0, demo_slot [])) (\<lambda>(sts, fin) s'.
     fin \<and> map (slot_tuple heap_slots) sts = [stored_tuple 16 (row_of (demo_row 1 5 0 [1, 2]))])
   (demo_backend (demo_tab [demo_row 1 5 0 [1, 2], demo_row 2 5 6 [3]]))"
proof -
  have ok: "rows_ok [demo_row 1 5 0 [1, 2], demo_row 2 5 6 [3]]"
    by (simp add: rows_ok_def demo_row_def)
  have "filter (sees_row demo_pg demo_snap) (map row_of [demo_row 1 5 0 [1, 2], demo_row 2 5 6 [3]]) =
      [row_of (demo_row 1 5 0 [1, 2])]" by code_simp
  moreover have "read_only demo_snap" by (simp add: read_only_def demo_snap_def)
  ultimately show ?thesis
    using full_scan [OF demo_holds [OF ok] heap_slots.slot_laws_axioms, where pg = demo_pg and snap = demo_snap
      and n = 3 and it = "()" and nkeys = 0 and key = None and pscan = None and flags = 0 and sl = "demo_slot []"] by simp
qed

text \<open>
  C3. An insert gives the slot a valid TID; every snapshot sees, after what it saw before, the
  new tuple under that TID exactly when it sees the inserting command; other relations keep
  their tables.
\<close>

theorem insert_seen:
  assumes "holds h view up s rel t" and "length (copy_heap_tuple x sl) \<le> 1000000000"
    and "next_rowid (storage t) \<le> 2 ^ 40"
  shows "wp (tuple_insert h pg x rel sl cid) (\<lambda>sl' s'. \<exists>t'. holds h view up s' rel t' \<and> alone h view up rel s s' \<and>
    tid_ok (tts_tid sl') \<and> tid_to_rowid (tts_tid sl') = next_rowid (storage t) \<and> tts_tableOid sl' = rel \<and>
    (\<forall>pg' snap. seen_table pg' snap (storage t') = seen_table pg' snap (storage t) @
       (if sees pg' snap (GetCurrentTransactionId pg) cid
        then [(tid_to_rowid (tts_tid sl'), copy_heap_tuple x sl)] else []))) s"
proof -
  have "rowid_ok (next_rowid (storage t))"
    using assms next_rowid_pos by (auto simp: rowid_ok_def holds_def)
  note r = tid_to_rowid_to_tid [OF this] tid_ok_rowid_to_tid [OF this]
  have n: "next_rowid (storage t) \<le> i64_max" using assms(3) by (simp add: i64_max_def)
  show ?thesis
    unfolding tuple_insert_def do_tuple_insert_def Let_def
    by (rule wpB [OF holds_insert [OF assms(1,2) n]])
      (auto simp: wp_ret set_inserted_tid_def r seen_insert current_xid_u32_def)
qed

theorem insert_seen_witness:
  "wp (tuple_insert ref_host demo_pg heap_slots 16 (demo_slot [7]) 2) (\<lambda>sl' s'. tid_to_rowid (tts_tid sl') = 2 \<and>
     (\<exists>t'. holds ref_host rw_eng ref_up s' 16 t' \<and> seen_table demo_pg demo_snap (storage t') = [(1, [1]), (2, [7])]))
   (demo_backend (demo_tab [demo_row 1 5 0 [1]]))"
proof -
  have ok: "rows_ok [demo_row 1 5 0 [1]]" by (simp add: rows_ok_def demo_row_def)
  have c: "copy_heap_tuple heap_slots (demo_slot [7]) = [7]" by (simp add: demo_copy)
  have n: "next_rowid [demo_row 1 5 0 [1]] = 2" by (simp add: next_rowid_def demo_row_def)
  have "seen_table demo_pg demo_snap [demo_row 1 5 0 [1]] = [(1, [1])]" "sees demo_pg demo_snap 10 2"
    "GetCurrentTransactionId demo_pg = 10" by code_simp+
  then show ?thesis
    by (intro wp_mono [OF insert_seen [OF demo_holds [OF ok], where pg = demo_pg and sl = "demo_slot [7]" and x = heap_slots]])
      (auto simp: c n)
qed

text \<open>
  C4. A delete of a live row stamps it and answers \<open>TM_Ok\<close>: exactly the snapshots that see the
  deleting command stop seeing the row, and no second deleter can stamp it. A row that is
  stamped already, or absent, answers \<open>TM_Deleted\<close> and nothing changes.
\<close>

theorem delete_first_wins:
  assumes "holds h view up s rel t" and "GetCurrentTransactionId pg \<noteq> 0"
  shows "wp (tuple_delete h pg rel tid cid) (\<lambda>r s'. \<exists>t'. holds h view up s' rel t' \<and> alone h view up rel s s' \<and>
    (if live_row (tid_to_rowid tid) (storage t)
     then r = TM_Ok \<and> \<not> live_row (tid_to_rowid tid) (storage t') \<and>
       (\<forall>pg' snap. seen_table pg' snap (storage t') =
          (if sees pg' snap (GetCurrentTransactionId pg) cid
           then filter (\<lambda>e. fst e \<noteq> tid_to_rowid tid) (seen_table pg' snap (storage t))
           else seen_table pg' snap (storage t)))
     else r = TM_Deleted \<and> t' = t)) s"
proof -
  let ?x = "GetCurrentTransactionId pg" and ?rid = "tid_to_rowid tid"
  have ok: "rows_ok (storage t)" using assms(1) by (simp add: holds_def)
  have gone: "\<not> live_row ?rid (rows_stamp (sint ?x) (sint cid) ?rid (storage t))"
    using assms(2) by (auto simp: live_row_def rows_stamp_def stampable_def)
  show ?thesis
    unfolding tuple_delete_def current_xid_u32_def
    by (rule wpB [OF holds_set_xmax [OF assms(1)]])
      (use gone in \<open>auto simp: wp_ret live_row_count seen_stamp [OF ok assms(2)] stamp_dead_rid\<close>)
qed

theorem delete_first_wins_witness:
  "wp (tuple_delete ref_host demo_pg 16 \<lparr>ip_blkid = 0, ip_posid = 1\<rparr> 2) (\<lambda>r s'. r = TM_Ok \<and>
     (\<exists>t'. holds ref_host rw_eng ref_up s' 16 t' \<and> seen_table demo_pg demo_snap (storage t') = [(2, [9])]))
   (demo_backend (demo_tab [demo_row 1 5 0 [1], demo_row 2 5 0 [9]]))"
proof -
  have ok: "rows_ok [demo_row 1 5 0 [1], demo_row 2 5 0 [9]]" by (simp add: rows_ok_def demo_row_def)
  have "seen_table demo_pg demo_snap [demo_row 1 5 0 [1], demo_row 2 5 0 [9]] = [(1, [1]), (2, [9])]"
    "sees demo_pg demo_snap 10 2" "GetCurrentTransactionId demo_pg = 10"
    "live_row 1 [demo_row 1 5 0 [1], demo_row 2 5 0 [9]]" by code_simp+
  then show ?thesis
    by (intro wp_mono [OF delete_first_wins [OF demo_holds [OF ok], where pg = demo_pg]])
      (auto simp: tid_to_rowid_eq)
qed

text \<open>
  C5. An update answers \<open>TM_Ok\<close>, gives the slot a fresh TID and asks for all indexes to be updated.
  A snapshot that sees the updating command sees the new version, in place of the old one if the
  old one was live; every other snapshot sees what it saw. Whether the old version was live is
  not checked: of a row that is already deleted, or absent, the update makes a second version.
\<close>

theorem update_replaces:
  assumes "holds h view up s rel t" and "GetCurrentTransactionId pg \<noteq> 0"
    and "length (copy_heap_tuple x sl) \<le> 1000000000" and "next_rowid (storage t) \<le> 2 ^ 40"
  shows "wp (tuple_update h pg x rel otid sl cid ui) (\<lambda>(r, sl', ui') s'. r = TM_Ok \<and> ui' = map_option (\<lambda>_. TU_All) ui \<and>
    (\<exists>t'. holds h view up s' rel t' \<and> alone h view up rel s s' \<and>
      tid_to_rowid (tts_tid sl') = next_rowid (storage t) \<and> tts_tableOid sl' = rel \<and>
      (\<forall>pg' snap. seen_table pg' snap (storage t') =
         (if sees pg' snap (GetCurrentTransactionId pg) cid
          then (if live_row (tid_to_rowid otid) (storage t)
                then filter (\<lambda>e. fst e \<noteq> tid_to_rowid otid) (seen_table pg' snap (storage t))
                else seen_table pg' snap (storage t)) @ [(tid_to_rowid (tts_tid sl'), copy_heap_tuple x sl)]
          else seen_table pg' snap (storage t))))) s"
proof -
  have ok: "rows_ok (storage t)" using assms(1) by (simp add: holds_def)
  have "rowid_ok (next_rowid (storage t))"
    using assms next_rowid_pos by (auto simp: rowid_ok_def holds_def)
  note r = tid_to_rowid_to_tid [OF this]
  have n: "next_rowid (storage t) \<le> i64_max" using assms(4) by (simp add: i64_max_def)
  show ?thesis
    unfolding tuple_update_def current_xid_u32_def Let_def
    by (rule wpB [OF holds_update [OF assms(1,3) n]])
      (auto simp: wp_ret set_inserted_tid_def r seen_insert seen_stamp [OF ok assms(2)] stamp_dead_rid)
qed

theorem update_replaces_witness:
  "wp (tuple_update ref_host demo_pg heap_slots 16 \<lparr>ip_blkid = 0, ip_posid = 1\<rparr> (demo_slot [7]) 2 (Some TU_None))
    (\<lambda>(r, sl', ui') s'. r = TM_Ok \<and> ui' = Some TU_All \<and> tid_to_rowid (tts_tid sl') = 3 \<and>
     (\<exists>t'. holds ref_host rw_eng ref_up s' 16 t' \<and> seen_table demo_pg demo_snap (storage t') = [(3, [7])]))
   (demo_backend (demo_tab [demo_row 1 5 0 [1], demo_row 2 5 6 [2]])) \<and>
   wp (tuple_update ref_host demo_pg heap_slots 16 \<lparr>ip_blkid = 0, ip_posid = 2\<rparr> (demo_slot [7]) 2 None)
    (\<lambda>(r, sl', ui') s'. r = TM_Ok \<and>
     (\<exists>t'. holds ref_host rw_eng ref_up s' 16 t' \<and> seen_table demo_pg demo_snap (storage t') = [(1, [1]), (3, [7])]))
   (demo_backend (demo_tab [demo_row 1 5 0 [1], demo_row 2 5 6 [2]]))"
proof -
  let ?rs = "[demo_row 1 5 0 [1], demo_row 2 5 6 [2]]"
  have ok: "rows_ok ?rs" by (simp add: rows_ok_def demo_row_def)
  have c: "copy_heap_tuple heap_slots (demo_slot [7]) = [7]" by (simp add: demo_copy)
  have n: "next_rowid ?rs = 3" by (simp add: next_rowid_def demo_row_def)
  have x: "seen_table demo_pg demo_snap ?rs = [(1, [1])]" "sees demo_pg demo_snap 10 2"
    "GetCurrentTransactionId demo_pg = 10" "live_row 1 ?rs" "\<not> live_row 2 ?rs" by code_simp+
  note upd = update_replaces [OF demo_holds [OF ok], where pg = demo_pg and sl = "demo_slot [7]" and x = heap_slots]
  from x show ?thesis
    by (intro conjI wp_mono [OF upd]) (auto simp: c n tid_to_rowid_eq)
qed

text \<open>
  C6. Fetching by TID finds the row with that rowid, if there is one, and returns it exactly
  when the snapshot sees it; otherwise the slot is untouched. The caller is never told to call
  again or that all versions are dead.
\<close>

theorem index_fetch:
  assumes "holds h view up s rel t" and "slot_laws x" and "read_only snap"
  shows "wp (index_fetch_tuple h pg x rel tid snap sl ca ad) (\<lambda>(hit, snap', sl', ca', ad') s'.
    holds h view up s' rel t \<and> snap' = snap \<and>
    ca' = map_option (\<lambda>_. False) ca \<and> ad' = map_option (\<lambda>_. False) ad \<and>
    (case find_row (tid_to_rowid tid) (storage t) of
       None \<Rightarrow> \<not> hit \<and> sl' = sl
     | Some r \<Rightarrow> hit = sees_row pg snap (row_of r) \<and>
         (if hit then ExecCopySlotHeapTuple x sl' = stored_tuple rel (row_of r) \<and> tts_tableOid sl' = rel \<and>
            tts_tid sl' = rowid_to_tid (tid_to_rowid tid) else sl' = sl))) s"
  unfolding index_fetch_tuple_def fetch_one_into_slot_def
  by (rule wpB [OF holds_fetch [OF assms(1)]])
    (use assms(2,3) find_row_Some in \<open>auto simp: wp_ret row_visible_read_only store_parts_def stored_tuple_def
      slot_laws_def split: option.splits\<close>)

theorem index_fetch_witness:
  "wp (index_fetch_tuple ref_host demo_pg heap_slots 16 \<lparr>ip_blkid = 0, ip_posid = 2\<rparr> demo_snap (demo_slot [])
     (Some True) None) (\<lambda>(hit, snap', sl', ca', ad') s'. hit \<and> ca' = Some False \<and> ad' = None)
   (demo_backend (demo_tab [demo_row 1 5 0 [1], demo_row 2 5 0 [9]]))"
proof -
  have ok: "rows_ok [demo_row 1 5 0 [1], demo_row 2 5 0 [9]]" by (simp add: rows_ok_def demo_row_def)
  have "find_row 2 [demo_row 1 5 0 [1], demo_row 2 5 0 [9]] = Some (demo_row 2 5 0 [9])"
    "sees_row demo_pg demo_snap (row_of (demo_row 2 5 0 [9]))" by code_simp+
  moreover have "read_only demo_snap" by (simp add: read_only_def demo_snap_def)
  ultimately show ?thesis
    by (intro wp_mono [OF index_fetch [OF demo_holds [OF ok] heap_slots.slot_laws_axioms, where pg = demo_pg]])
      (auto simp: tid_to_rowid_eq)
qed

text \<open>
  C7. A multi-insert gives the slots consecutive fresh TIDs in order, and every snapshot that
  sees the inserting command sees all the tuples, in order, after what it saw before; no other
  snapshot sees any of them.
\<close>

theorem multi_insert_seen:
  assumes "holds h view up s rel t" and "\<forall>sl \<in> set slots. length (copy_heap_tuple x sl) \<le> 1000000000"
    and "next_rowid (storage t) + int (length slots) \<le> 2 ^ 40"
  shows "wp (multi_insert h pg x rel slots cid) (\<lambda>slots' s'. \<exists>t'. holds h view up s' rel t' \<and> alone h view up rel s s' \<and>
    length slots' = length slots \<and>
    map (\<lambda>sl. tid_to_rowid (tts_tid sl)) slots' = map (\<lambda>i. next_rowid (storage t) + int i) [0..<length slots] \<and>
    (\<forall>pg' snap. seen_table pg' snap (storage t') = seen_table pg' snap (storage t) @
       (if sees pg' snap (GetCurrentTransactionId pg) cid
        then zip (map (\<lambda>sl. tid_to_rowid (tts_tid sl)) slots') (map (copy_heap_tuple x) slots) else []))) s"
proof (cases "slots = []")
  case True
  with assms(1) show ?thesis by (auto simp: multi_insert_def wp_ret alone_refl)
next
  case False
  let ?ids = "map (\<lambda>i. next_rowid (storage t) + int i) [0..<length slots]"
  have stamp: "length (stamp_slots rel sls ids) = length sls \<and>
      map (\<lambda>sl. tid_to_rowid (tts_tid sl)) (stamp_slots rel sls ids) = ids"
    if "length ids = length sls" "\<forall>i \<in> set ids. rowid_ok i" for ids and sls :: "'b slot list"
    using that by (induction rel sls ids rule: stamp_slots.induct) (auto simp: set_inserted_tid_def tid_to_rowid_to_tid)
  have ids: "\<forall>i \<in> set ?ids. rowid_ok i"
    using assms next_rowid_pos [of "storage t"] by (auto simp: rowid_ok_def holds_def)
  have n: "next_rowid (storage t) + int (length (map (copy_heap_tuple x) slots)) \<le> i64_max"
    using assms(3) by (simp add: i64_max_def)
  show ?thesis
    unfolding multi_insert_def Let_def if_not_P [OF False] current_xid_u32_def
    by (rule wpB [OF holds_batch [OF assms(1) _ n]])
      (use assms(2) stamp [of ?ids slots] ids in \<open>auto simp: wp_ret seen_batch batch_ids_upto\<close>)
qed

theorem multi_insert_seen_witness:
  "wp (multi_insert ref_host demo_pg heap_slots 16 [demo_slot [7], demo_slot [8]] 2) (\<lambda>slots' s'.
     map (\<lambda>sl. tid_to_rowid (tts_tid sl)) slots' = [2, 3] \<and> (\<exists>t'. holds ref_host rw_eng ref_up s' 16 t' \<and>
       seen_table demo_pg demo_snap (storage t') = [(1, [1]), (2, [7]), (3, [8])]))
   (demo_backend (demo_tab [demo_row 1 5 0 [1]]))"
proof -
  have ok: "rows_ok [demo_row 1 5 0 [1]]" by (simp add: rows_ok_def demo_row_def)
  have c: "copy_heap_tuple heap_slots (demo_slot [7]) = [7]" "copy_heap_tuple heap_slots (demo_slot [8]) = [8]"
    by (simp_all add: demo_copy)
  have n: "next_rowid [demo_row 1 5 0 [1]] = 2" by (simp add: next_rowid_def demo_row_def)
  have "seen_table demo_pg demo_snap [demo_row 1 5 0 [1]] = [(1, [1])]" "sees demo_pg demo_snap 10 2"
    "GetCurrentTransactionId demo_pg = 10" by code_simp+
  then show ?thesis
    by (intro wp_mono [OF multi_insert_seen [OF demo_holds [OF ok], where pg = demo_pg and x = heap_slots and
        slots = "[demo_slot [7], demo_slot [8]]"]]) (auto simp: c n upt_rec)
qed

text \<open>
  C8. Vacuum removes the stamped rows below the horizon and remembers the horizon, so that a
  second vacuum with the same horizon does nothing; it does not change what a snapshot sees if
  the snapshot sees the deletion of every row it removes.
\<close>

theorem vacuum_keeps_seen:
  assumes "holds h view up s rel t" and "GetOldestNonRemovableTransactionId pg rel = oldest"
  shows "wp (relation_vacuum h pg rel) (\<lambda>_ s'. holds h view up s' rel (vacuumed oldest t) \<and> alone h view up rel s s' \<and>
    vacuumed oldest (vacuumed oldest t) = vacuumed oldest t \<and>
    (\<forall>pg' snap. (\<forall>r \<in> set (storage t). reclaimable (sint oldest) r \<longrightarrow>
        sees pg' snap (xmax (header (row_of r))) (cmax (header (row_of r)))) \<longrightarrow>
      seen_table pg' snap (storage (vacuumed oldest t)) = seen_table pg' snap (storage t))) s"
proof -
  have ok: "rows_ok (storage t)" using assms(1) by (simp add: holds_def)
  have twice: "vacuumed oldest (vacuumed oldest t) = vacuumed oldest t"
    by (simp add: vacuumed_def vacuum_due_def meta_lookup_def meta_put_def vacuum_watermark_def)
  have seen: "seen_table pg' snap (storage (vacuumed oldest t)) = seen_table pg' snap (storage t)"
    if "\<forall>r \<in> set (storage t). reclaimable (sint oldest) r \<longrightarrow>
        sees pg' snap (xmax (header (row_of r))) (cmax (header (row_of r)))" for pg' snap
    using that by (auto simp: vacuumed_def intro: seen_vacuum [OF ok])
  show ?thesis
    unfolding relation_vacuum_def assms(2)
    by (rule wpB [OF holds_vacuum [OF assms(1)]]) (use twice seen in \<open>auto simp: wp_ret\<close>)
qed

theorem vacuum_keeps_seen_witness:
  "wp (relation_vacuum ref_host demo_pg 16) (\<lambda>_ s'. \<exists>t'. holds ref_host rw_eng ref_up s' 16 t' \<and>
     storage t' = [demo_row 1 5 0 [1]] \<and> seen_table demo_pg demo_snap (storage t') = [(1, [1])])
   (demo_backend (demo_tab [demo_row 1 5 0 [1], demo_row 2 5 6 [9]]))"
proof -
  let ?rs = "[demo_row 1 5 0 [1], demo_row 2 5 6 [9]]"
  have ok: "rows_ok ?rs" by (simp add: rows_ok_def demo_row_def)
  have o: "GetOldestNonRemovableTransactionId demo_pg 16 = 8" by (simp add: demo_pg_def)
  have v: "storage (vacuumed 8 (demo_tab ?rs)) = [demo_row 1 5 0 [1]]"
    "seen_table demo_pg demo_snap [demo_row 1 5 0 [1]] = [(1, [1])]" by code_simp+
  then show ?thesis
    by (intro wp_mono [OF vacuum_keeps_seen [OF demo_holds [OF ok] o]]) auto
qed

section \<open>Transactions\<close>

text \<open>
  C9. Rolling back a subtransaction restores, in every relation the transaction had touched
  when the subtransaction began, the tables of that moment, whatever row operations and inner
  subtransactions ran in between; the enclosing transaction stays open.
\<close>

theorem sub_abort_restores:
  assumes "sqlite_engine h view up" and "backend_ok view up s" and "rel \<in> TX_RELS s" and "rel_db view s rel = Some d"
    and "\<And>t0 sps. db_txn d = Some (t0, sps) \<Longrightarrow> earlier n sps"
    and "on_sub_start h n s = Some (Ok (), s1)" and "trace h view (inside_sub n) s1 s2"
  shows "wp (on_sub_abort h n) (\<lambda>_ s3. \<exists>d3. rel_db view s3 rel = Some d3 \<and> db_tab d3 = db_tab d \<and> db_txn d3 \<noteq> None) s2"
proof -
  note E = assms(1)
  obtain t0 sps0 where b: "db_txn (begun d) = Some (t0, sps0)"
    using begun_simps(3) [of d] by (cases "db_txn (begun d)") auto
  have e: "earlier n sps0" using b assms(5) by (cases "db_txn d") (auto simp: begun_def earlier_def)
  note m = wp_run [OF sqlite_engine.on_sub_start_spec [OF E assms(2)] assms(6)]
  have "sub_base n t0 (db_tab d) sps0 (savepointed (sp_name n) d)"
    using b by (auto simp: sub_base_def savepointed_def later_def intro!: exI [of _ "[]"])
  with mapped_TX [OF m assms(3,4)] have I: "sub_inv view rel n t0 (db_tab d) sps0 s1" by (auto simp: sub_inv_def)
  have ok: "backend_ok view up s1" using m by (simp add: mapped_def)
  from sqlite_engine.sub_inv_trace [OF E assms(7) ok e I] obtain d2 where
    d2: "rel \<in> TX_RELS s2" "rel_db view s2 rel = Some d2" "sub_base n t0 (db_tab d) sps0 d2" by (auto simp: sub_inv_def)
  have "db_txn (rolled_to (sp_name n) d2) \<noteq> None" using d2(3) by (auto simp: sub_base_def)
  then show ?thesis
    by (intro wp_mono [OF sqlite_engine.on_sub_abort_spec [OF E sqlite_engine.trace_BK [OF E assms(7) ok]]])
      (use mapped_TX [OF _ d2(1,2)] sub_base_abort [OF d2(3)] in fastforce)
qed

theorem sub_abort_restores_witness:
  "\<exists>s1 s2. on_sub_start ref_host 1 (open_backend {16} (demo_tab [demo_row 1 5 0 [1]])) = Some (Ok (), s1) \<and>
     run_op ref_host 16 (OpInsert 10 2 [7]) s1 = Some (Ok (), s2) \<and>
     wp (on_sub_abort ref_host 1) (\<lambda>_ s3. \<exists>d3. rel_db rw_eng s3 16 = Some d3 \<and>
       storage (db_tab d3) = [demo_row 1 5 0 [1]] \<and> db_txn d3 \<noteq> None) s2"
proof -
  let ?t = "demo_tab [demo_row 1 5 0 [1]]" and ?s = "open_backend {16} (demo_tab [demo_row 1 5 0 [1]])"
  note E = ref.sqlite_engine_axioms
  obtain s1 where s1: "on_sub_start ref_host 1 ?s = Some (Ok (), s1)"
      "mapped rw_eng ref_up {16} (savepointed (sp_name 1)) ?s s1"
    using sqlite_engine.on_sub_start_spec [OF ref.sqlite_engine_axioms open_ok, of 1 "{16}" ?t] by (auto simp: wp_def open_rel_db)
  have d1: "rel_db rw_eng s1 16 = Some (savepointed (sp_name 1) (demo_conn 16 ?t))"
    using mapped_rel_db [OF s1(2) open_rel_db(1)] by simp
  have ok1: "backend_ok rw_eng ref_up s1" using s1(2) by (simp add: mapped_def)
  have r: "op_ready (OpInsert 10 2 [7]) (db_tab (savepointed (sp_name 1) (demo_conn 16 ?t)))"
    by (simp add: next_rowid_def demo_row_def i64_max_def)
  obtain s2 where s2: "run_op ref_host 16 (OpInsert 10 2 [7]) s1 = Some (Ok (), s2)"
    using sqlite_engine.run_op_spec [OF ref.sqlite_engine_axioms ok1 rel_db_avail [OF d1] _ r] by (auto simp: wp_def)
  have tr: "trace ref_host rw_eng (inside_sub 1) s1 s2"
    by (rule more_steps [OF here _ data [OF rel_db_avail [OF d1] _ r s2]]) simp_all
  have "wp (on_sub_abort ref_host 1) (\<lambda>_ s3. \<exists>d3. rel_db rw_eng s3 16 = Some d3 \<and>
      db_tab d3 = db_tab (demo_conn 16 ?t) \<and> db_txn d3 \<noteq> None) s2"
    by (rule sub_abort_restores [OF E open_ok _ open_rel_db(1) _ s1(1) tr]) (simp_all add: open_rel_db)
  then show ?thesis using s1(1) s2 by (auto elim!: wp_mono)
qed

text \<open>
  C10. A transaction that aborts leaves no trace: whatever it did, in whatever order and with
  whatever subtransactions, after the abort hook every relation that was open has the tables
  it began with, in the connection and in the file, and no SQLite transaction is open.
\<close>

theorem abort_restores:
  assumes "sqlite_engine h view up" and "backend_ok view up s" and "rel_db view s rel = Some d" and "db_txn d = None"
    and "trace h view in_xact s s1"
  shows "wp (on_abort h) (\<lambda>_ s2. TX_RELS s2 = {} \<and> (\<exists>d2. rel_db view s2 rel = Some d2 \<and> db_txn d2 = None \<and>
    db_tab d2 = db_tab d \<and> e_files (view (World s2)) (db_path d2) = Some (db_tab d))) s1"
proof -
  note E = assms(1)
  have "xact_inv view rel (db_tab d) s" using assms(3,4) by (auto simp: xact_inv_def committed_def)
  from sqlite_engine.xact_inv_trace [OF E assms(5,2) this] obtain d1 where
    d1: "rel_db view s1 rel = Some d1" "committed d1 = db_tab d" "\<not> (db_txn d1 \<noteq> None \<and> rel \<notin> TX_RELS s1)"
    by (auto simp: xact_inv_def)
  show ?thesis
  proof (rule wp_mono [OF sqlite_engine.on_abort_spec [OF E sqlite_engine.trace_BK [OF E assms(5,2)]]])
    fix u s2 assume m: "mapped view up (TX_RELS s1) rolled_back (s1\<lparr>TX_RELS := {}\<rparr>) s2"
    let ?d2 = "if rel \<in> TX_RELS s1 then rolled_back d1 else d1"
    have d2: "rel_db view s2 rel = Some ?d2" "TX_RELS s2 = {}" "backend_ok view up s2"
      using m d1(1) by (auto simp: mapped_def rel_db_def split: option.splits)
    moreover have n: "db_txn d1 = None" if "rel \<notin> TX_RELS s1" using d1(3) that by blast
    moreover from this have "db_txn ?d2 = None" "committed ?d2 = db_tab d" using d1(2) by simp_all
    moreover from this have "db_tab ?d2 = db_tab d" by (simp add: committed_def)
    ultimately show "TX_RELS s2 = {} \<and> (\<exists>d2. rel_db view s2 rel = Some d2 \<and> db_txn d2 = None \<and>
        db_tab d2 = db_tab d \<and> e_files (view (World s2)) (db_path d2) = Some (db_tab d))"
      using on_disk [OF d2(3,1)] by auto
  qed
qed

theorem abort_restores_witness:
  "\<exists>s1. run_op ref_host 16 OpReset (open_backend {} (demo_tab [demo_row 1 5 0 [1]])) = Some (Ok (), s1) \<and>
     wp (on_abort ref_host) (\<lambda>_ s2. \<exists>d2. rel_db rw_eng s2 16 = Some d2 \<and> storage (db_tab d2) = [demo_row 1 5 0 [1]]) s1"
proof -
  let ?t = "demo_tab [demo_row 1 5 0 [1]]" and ?s = "open_backend {} (demo_tab [demo_row 1 5 0 [1]])"
  have a: "avail ref_host rw_eng ?s 16 (demo_conn 16 ?t)" by (rule rel_db_avail [OF open_rel_db(1)])
  obtain s1 where s1: "run_op ref_host 16 OpReset ?s = Some (Ok (), s1)"
    using sqlite_engine.run_op_spec [OF ref.sqlite_engine_axioms open_ok a, of OpReset] by (auto simp: wp_def)
  have tr: "trace ref_host rw_eng in_xact ?s s1"
    by (rule more_steps [OF here _ data [OF a _ _ s1]]) simp_all
  from abort_restores [OF ref.sqlite_engine_axioms open_ok open_rel_db(1) _ tr] s1 show ?thesis
    by (auto elim!: wp_mono)
qed

text \<open>
  C11. The commit point is the pre-commit hook: until it runs, the file of every relation holds
  the tables the transaction began with, so a crash loses exactly the transaction; when it has
  run, the file holds everything the transaction did.
\<close>

theorem commit_point:
  assumes "sqlite_engine h view up" and "backend_ok view up s" and "rel_db view s rel = Some d" and "db_txn d = None"
    and "trace h view in_xact s s1"
  shows "\<exists>d1. rel_db view s1 rel = Some d1 \<and> e_files (view (World s1)) (db_path d1) = Some (db_tab d) \<and>
    wp (on_precommit h) (\<lambda>_ s2. TX_RELS s2 = {} \<and> rel_db view s2 rel = Some (closed_txn d1) \<and>
      e_files (view (World s2)) (db_path d1) = Some (db_tab d1)) s1"
proof -
  note E = assms(1)
  have "xact_inv view rel (db_tab d) s" using assms(3,4) by (auto simp: xact_inv_def committed_def)
  from sqlite_engine.xact_inv_trace [OF E assms(5,2) this] obtain d1 where
    d1: "rel_db view s1 rel = Some d1" "committed d1 = db_tab d" "\<not> (db_txn d1 \<noteq> None \<and> rel \<notin> TX_RELS s1)"
    by (auto simp: xact_inv_def)
  have ok: "backend_ok view up s1" by (rule sqlite_engine.trace_BK [OF E assms(5,2)])
  have "wp (on_precommit h) (\<lambda>_ s2. TX_RELS s2 = {} \<and> rel_db view s2 rel = Some (closed_txn d1) \<and>
      e_files (view (World s2)) (db_path d1) = Some (db_tab d1)) s1"
  proof (rule wp_mono [OF sqlite_engine.on_precommit_spec [OF E ok]])
    fix u s2 assume m: "mapped view up (TX_RELS s1) closed_txn (s1\<lparr>TX_RELS := {}\<rparr>) s2"
    have "rel_db view s2 rel = Some (if rel \<in> TX_RELS s1 then closed_txn d1 else d1)"
      "TX_RELS s2 = {}" "backend_ok view up s2"
      using m d1(1) by (auto simp: mapped_def rel_db_def split: option.splits)
    moreover have "(if rel \<in> TX_RELS s1 then closed_txn d1 else d1) = closed_txn d1"
    proof (cases "rel \<in> TX_RELS s1")
      case False
      then have "db_txn d1 = None" using d1(3) by blast
      then show ?thesis by (cases d1) (simp add: closed_txn_def)
    qed simp
    ultimately show "TX_RELS s2 = {} \<and> rel_db view s2 rel = Some (closed_txn d1) \<and>
        e_files (view (World s2)) (db_path d1) = Some (db_tab d1)"
      using on_disk [of view up s2 rel "closed_txn d1"] by (auto simp: committed_def closed_txn_def)
  qed
  with d1 on_disk [OF ok d1(1)] show ?thesis by auto
qed

theorem commit_point_witness:
  "\<exists>s1 d1. run_op ref_host 16 OpReset (open_backend {} (demo_tab [demo_row 1 5 0 [1]])) = Some (Ok (), s1) \<and>
     rel_db rw_eng s1 16 = Some d1 \<and>
     e_files (rw_eng (World s1)) (db_path d1) = Some (demo_tab [demo_row 1 5 0 [1]]) \<and>
     wp (on_precommit ref_host) (\<lambda>_ s2. e_files (rw_eng (World s2)) (db_path d1) = Some (db_tab d1)) s1"
proof -
  let ?t = "demo_tab [demo_row 1 5 0 [1]]" and ?s = "open_backend {} (demo_tab [demo_row 1 5 0 [1]])"
  have a: "avail ref_host rw_eng ?s 16 (demo_conn 16 ?t)" by (rule rel_db_avail [OF open_rel_db(1)])
  obtain s1 where s1: "run_op ref_host 16 OpReset ?s = Some (Ok (), s1)"
    using sqlite_engine.run_op_spec [OF ref.sqlite_engine_axioms open_ok a, of OpReset] by (auto simp: wp_def)
  have tr: "trace ref_host rw_eng in_xact ?s s1"
    by (rule more_steps [OF here _ data [OF a _ _ s1]]) simp_all
  from commit_point [OF ref.sqlite_engine_axioms open_ok open_rel_db(1) _ tr] s1 show ?thesis
    by (auto elim!: wp_mono)
qed

text \<open>
  C12. From a consistent backend, every sequence of row operations, subtransaction and
  transaction events, on any relations and in any order, leads to a consistent backend: every
  cached connection is open on its relation's file, knows whether it is in a SQLite transaction,
  its file holds what is committed, and its cached statements are its own. Well-typed storage
  stays well typed: in the connections, under their savepoints and in the files, rows stay in
  strict rowid order from 1 on and their ids stay in the range of \<open>u32\<close>.
\<close>

theorem reachable_consistent:
  assumes "sqlite_engine h view up" and "backend_ok view up s" and "trace h view P s s'"
  shows "backend_ok view up s' \<and> (well_typed h view s \<longrightarrow> well_typed h view s')"
  using sqlite_engine.trace_BK [OF assms(1,3,2)] sqlite_engine.trace_typed [OF assms(1,3,2)] by blast

theorem reachable_consistent_witness:
  "\<exists>s1. run_op ref_host 16 (OpInsert 10 2 [7]) (demo_backend (demo_tab [demo_row 1 5 0 [1]])) = Some (Ok (), s1) \<and>
     backend_ok rw_eng ref_up s1 \<and> well_typed ref_host rw_eng s1"
proof -
  let ?t = "demo_tab [demo_row 1 5 0 [1]]"
  have ok: "rows_ok [demo_row 1 5 0 [1]]" and r: "op_ready (OpInsert 10 2 [7]) ?t"
    by (simp_all add: rows_ok_def demo_row_def next_rowid_def i64_max_def)
  obtain s1 where s1: "run_op ref_host 16 (OpInsert 10 2 [7]) (demo_backend ?t) = Some (Ok (), s1)"
    using sqlite_engine.run_op_spec [OF ref.sqlite_engine_axioms demo_ok demo_avail_tab, of "[demo_row 1 5 0 [1]]" "OpInsert 10 2 [7]"] r
    by (auto simp: wp_def)
  have tr: "trace ref_host rw_eng (\<lambda>_. True) (demo_backend ?t) s1"
    by (rule more_steps [OF here _ data [OF demo_avail_tab _ _ s1]]) (use r in simp_all)
  from reachable_consistent [OF ref.sqlite_engine_axioms demo_ok tr] demo_typed [OF ok] s1 show ?thesis by auto
qed

text \<open>
  C13. The program refines a transactional store: a machine that keeps, for each relation, the
  tables a crash would leave (\<open>base\<close>), the tables the transaction works on (\<open>work\<close>) and the
  tables saved at each subtransaction (\<open>subs\<close>). A script of row operations, subtransaction and
  transaction events that the machine accepts, in which no relation is first touched inside a
  subtransaction, runs to its end, every event delivered through the registered hooks; then
  every connection shows \<open>work\<close> and every file holds \<open>base\<close>.
\<close>

theorem script_refines:
  assumes "sqlite_engine h view up" and "refines h view up R \<sigma> s" and "spec_run ls \<sigma> = Some \<sigma>'"
    and "\<And>rel op. Data rel op \<in> set ls \<Longrightarrow> rel \<in> R"
  shows "wp (forE ls (run_label h)) (\<lambda>_ s'. refines h view up R \<sigma>' s' \<and>
    (\<forall>rel d. rel \<in> R \<and> rel_db view s' rel = Some d \<longrightarrow>
       db_tab d = work \<sigma>' rel \<and> e_files (view (World s')) (db_path d) = Some (base \<sigma>' rel))) s"
  by (rule wp_mono [OF sqlite_engine.script_sim [OF assms]])
    (auto dest: refines_files)

theorem script_refines_witness:
  "wp (forE [Data 16 (OpInsert 10 2 [7]), Ev (StartSub 2), Data 16 OpReset, Ev (AbortSub 2), Data 16 (OpInsert 10 3 [8]),
       Ev PreCommit, Ev Commit] (run_label ref_host))
     (\<lambda>_ s'. \<forall>d. rel_db rw_eng s' 16 = Some d \<longrightarrow>
        (\<exists>t. e_files (rw_eng (World s')) (db_path d) = Some t \<and> map rw_tuple (storage t) = [[1], [7], [8]]))
     (demo_backend (demo_tab [demo_row 1 5 0 [1]]))"
proof -
  let ?t = "demo_tab [demo_row 1 5 0 [1]]"
  let ?\<sigma> = "\<lparr>base = \<lambda>_. ?t, work = \<lambda>_. ?t, subs = [], touched = {}, hooked = False, last_sub = 0\<rparr>"
  let ?ls = "[Data 16 (OpInsert 10 2 [7]), Ev (StartSub 2), Data 16 OpReset, Ev (AbortSub 2), Data 16 (OpInsert 10 3 [8]),
       Ev PreCommit, Ev Commit]"
  have r: "refines ref_host rw_eng ref_up {16} ?\<sigma> (demo_backend ?t)"
    by (rule demo_refines)
  have "case spec_run ?ls ?\<sigma> of Some \<sigma>' \<Rightarrow> map rw_tuple (storage (base \<sigma>' 16)) = [[1], [7], [8]] | None \<Rightarrow> False"
    by (simp add: demo_tab_def demo_row_def next_rowid_def rows_insert_def i64_max_def)
  then obtain \<sigma>' where \<sigma>': "spec_run ?ls ?\<sigma> = Some \<sigma>'" "map rw_tuple (storage (base \<sigma>' 16)) = [[1], [7], [8]]"
    by (auto split: option.splits)
  show ?thesis
    by (rule wp_mono [OF script_refines [OF ref.sqlite_engine_axioms r \<sigma>'(1)]]) (use \<sigma>'(2) in auto)
qed





text \<open>
  C16. The rollback of a subtransaction does not reach a relation that the transaction touches
  for the first time inside it: its savepoint was never made, the \<open>ROLLBACK TO\<close> is refused with
  a warning, and the operation stays.
\<close>

theorem late_relation_keeps_writes:
  assumes "sqlite_engine h view up" and "backend_ok view up s" and "rel \<notin> TX_RELS s" and "rel_db view s rel = Some d"
    and "db_txn d = None" and "has_tables (db_tab d)" and "op_ready op (db_tab d)"
    and "on_sub_start h n s = Some (Ok (), s1)" and "run_op h rel op s1 = Some (Ok (), s2)"
  shows "wp (on_sub_abort h n) (\<lambda>_ s3. \<exists>d3. rel_db view s3 rel = Some d3 \<and> db_tab d3 = op_effect op (db_tab d)) s2"
proof -
  note E = assms(1)
  note m = wp_run [OF sqlite_engine.on_sub_start_spec [OF E assms(2)] assms(8)]
  then have d1: "rel_db view s1 rel = Some d" and ok1: "backend_ok view up s1"
    using mapped_rel_db [OF m assms(4)] assms(3) by (auto simp: mapped_def)
  from wp_run [OF sqlite_engine.run_op_spec [OF E ok1 rel_db_avail [OF d1] assms(6,7)] assms(9)]
  obtain d2 where d2: "rel_db view s2 rel = Some d2" "db_tab d2 = op_effect op (db_tab d)"
    "db_txn d2 = db_txn (begun d) \<or> d2 = d" "backend_ok view up s2" by (auto simp: op_frame_def)
  have "rolled_to (sp_name n) d2 = d2"
    using d2(3) assms(5) by (auto simp: rolled_to_def begun_def)
  then show ?thesis
    by (intro wp_mono [OF sqlite_engine.on_sub_abort_spec [OF E d2(4)]])
      (use mapped_rel_db [OF _ d2(1)] d2(2) in fastforce)
qed

theorem late_relation_keeps_writes_witness:
  "\<exists>s1 s2. on_sub_start ref_host 1 (open_backend {} (demo_tab [demo_row 1 5 0 [1]])) = Some (Ok (), s1) \<and>
     run_op ref_host 16 OpReset s1 = Some (Ok (), s2) \<and>
     wp (on_sub_abort ref_host 1) (\<lambda>_ s3. \<exists>d3. rel_db rw_eng s3 16 = Some d3 \<and> storage (db_tab d3) = []) s2"
proof -
  let ?t = "demo_tab [demo_row 1 5 0 [1]]" and ?s = "open_backend {} (demo_tab [demo_row 1 5 0 [1]])"
  obtain s1 where s1: "on_sub_start ref_host 1 ?s = Some (Ok (), s1)"
      "mapped rw_eng ref_up {} (savepointed (sp_name 1)) ?s s1"
    using sqlite_engine.on_sub_start_spec [OF ref.sqlite_engine_axioms open_ok, of 1 "{}" ?t] by (auto simp: wp_def open_rel_db)
  have d1: "rel_db rw_eng s1 16 = Some (demo_conn 16 ?t)"
    using mapped_rel_db [OF s1(2) open_rel_db(1)] by simp
  have ok1: "backend_ok rw_eng ref_up s1" using s1(2) by (simp add: mapped_def)
  obtain s2 where s2: "run_op ref_host 16 OpReset s1 = Some (Ok (), s2)"
    using sqlite_engine.run_op_spec [OF ref.sqlite_engine_axioms ok1 rel_db_avail [OF d1], of OpReset] by (auto simp: wp_def)
  have "wp (on_sub_abort ref_host 1) (\<lambda>_ s3. \<exists>d3. rel_db rw_eng s3 16 = Some d3 \<and>
      db_tab d3 = op_effect OpReset (db_tab (demo_conn 16 ?t))) s2"
    by (rule late_relation_keeps_writes [OF ref.sqlite_engine_axioms open_ok _ open_rel_db(1) _ _ _ s1(1) s2])
      (simp_all add: open_rel_db)
  then show ?thesis using s1(1) s2 by (auto elim!: wp_mono)
qed

section \<open>Crashes, commands and snapshots\<close>



text \<open>
  A command does not see its own effects: what the current transaction does with a command
  id that has not passed the snapshot's leaves what the snapshot sees unchanged.
\<close>

theorem own_command_unseen:
  assumes "rows_ok (storage t)" and "x \<noteq> 0" and "\<forall>op \<in> set ops. op_by x (\<lambda>c. curcid snap \<le> c) op"
    and "TransactionIdIsCurrentTransactionId pg x"
  shows "seen_table pg snap (storage (fold op_effect ops t)) = seen_table pg snap (storage t)"
  by (rule unseen_effects [OF assms(1-3)]) (use assms(4) in \<open>simp add: sees_own not_less\<close>)

theorem own_command_unseen_witness:
  "seen_table demo_pg demo_snap (storage (fold op_effect [OpUpdate 1 10 3 [9], OpInsert 10 3 [8]]
     (demo_tab [demo_row 1 5 0 [1]]))) = [(1, [1])]"
proof -
  let ?t = "demo_tab [demo_row 1 5 0 [1]]"
  have ok: "rows_ok (storage ?t)" by (simp add: rows_ok_def demo_row_def)
  have "seen_table demo_pg demo_snap (storage ?t) = [(1, [1])]" by code_simp
  with own_command_unseen [OF ok, of 10 "[OpUpdate 1 10 3 [9], OpInsert 10 3 [8]]" demo_snap demo_pg]
  show ?thesis by (simp add: demo_pg_def demo_snap_def)
qed

text \<open>
  C18. A snapshot is stable: as long as only transactions that it lists as running, or that
  began after it, commit, it sees the same rows.
\<close>

theorem snapshot_stable:
  assumes "finished_only_running pg pg' snap"
  shows "seen_table pg' snap rs = seen_table pg snap rs"
proof -
  have "visible_row pg' snap = visible_row pg snap"
    using assms by (simp add: fun_eq_iff visible_row_def visible_mvcc_sees sees_stable)
  then show ?thesis by (simp add: seen_table_def)
qed

theorem snapshot_stable_witness:
  "seen_table (demo_pg\<lparr>TransactionIdDidCommit := (\<lambda>x. x < 10 \<or> x = 11)\<rparr>) demo_snap
     [demo_row 1 5 11 [1], demo_row 2 11 0 [2]] = [(1, [1])]"
proof -
  have f: "finished_only_running demo_pg (demo_pg\<lparr>TransactionIdDidCommit := (\<lambda>x. x < 10 \<or> x = 11)\<rparr>) demo_snap"
    by (auto simp: finished_only_running_def demo_pg_def demo_snap_def)
  have "seen_table demo_pg demo_snap [demo_row 1 5 11 [1], demo_row 2 11 0 [2]] = [(1, [1])]" by code_simp
  then show ?thesis using snapshot_stable [OF f] by simp
qed

text \<open>
  C19. The dirty rule, which uniqueness checks rely on: what it reports in the snapshot is a
  foreign transaction that is running and inserted or deleted the version; a reported deleter
  means the version is live so far; and when it reports nothing, its verdict is final, the same
  as that of the self rule. Nothing else of the snapshot changes but the cleared token.
\<close>

theorem dirty_visibility:
  assumes "visible_dirty pg row snap = (v, snap')" and "xmin row \<noteq> 0"
  shows "(snap_xmin snap' = 0 \<and> snap_xmax snap' = 0 \<longrightarrow> v = visible_self pg row) \<and>
    (snap_xmin snap' \<noteq> 0 \<longrightarrow> snap_xmin snap' = xmin row \<and> TransactionIdIsInProgress pg (xmin row) \<and>
       \<not> TransactionIdIsCurrentTransactionId pg (xmin row)) \<and>
    (snap_xmax snap' \<noteq> 0 \<longrightarrow> v \<and> snap_xmax snap' = xmax row \<and> TransactionIdIsInProgress pg (xmax row) \<and>
       \<not> TransactionIdIsCurrentTransactionId pg (xmax row)) \<and>
    snap' = snap\<lparr>snap_xmin := snap_xmin snap', snap_xmax := snap_xmax snap', speculativeToken := 0\<rparr>"
  using assms by (auto simp: visible_dirty_def dirty_xmax_def visible_self_def Let_def split: if_splits)

theorem dirty_visibility_witness:
  "\<exists>snap'. visible_dirty demo_pg \<lparr>rowid = 1, xmin = 5, cmin = 0, xmax = 11, cmax = 0\<rparr> demo_snap = (True, snap') \<and>
     snap_xmax snap' = 11 \<and> \<not> TransactionIdIsCurrentTransactionId demo_pg 11"
proof -
  let ?row = "\<lparr>rowid = 1, xmin = 5, cmin = 0, xmax = 11, cmax = 0\<rparr>" let ?d = "visible_dirty demo_pg ?row demo_snap"
  have "fst ?d" "snap_xmax (snd ?d) \<noteq> 0" by code_simp+
  moreover from this have "?d = (True, snd ?d)" by (cases ?d) simp
  ultimately show ?thesis using dirty_visibility [of demo_pg ?row demo_snap True "snd ?d"] by auto
qed

section \<open>Identifiers and tuples\<close>

text \<open>
  C20. The TID encoding is a bijection between the rowids a table can hand out (from 1 to
  \<open>2 ^ 40\<close>) and the TIDs with an offset from 1 to 256: both round trips are the identity, the
  offset never leaves the range Postgres accepts, and the order of TIDs is the order of rowids.
\<close>

theorem tid_bijection:
  assumes "rowid_ok r" and "rowid_ok q" and "tid_ok a"
  shows "tid_to_rowid (rowid_to_tid r) = r \<and> rowid_to_tid (tid_to_rowid a) = a \<and>
    tid_ok (rowid_to_tid r) \<and> rowid_ok (tid_to_rowid a) \<and> (tid_le (rowid_to_tid r) (rowid_to_tid q) \<longleftrightarrow> r \<le> q)"
  using assms by (simp add: tid_to_rowid_to_tid rowid_to_tid_to_rowid tid_ok_rowid_to_tid rowid_ok_tid_to_rowid tid_le_rowid)

theorem tid_bijection_witness:
  "tid_to_rowid (rowid_to_tid 257) = 257 \<and> rowid_to_tid (tid_to_rowid \<lparr>ip_blkid = 1, ip_posid = 256\<rparr>) =
     \<lparr>ip_blkid = 1, ip_posid = 256\<rparr> \<and> tid_le (rowid_to_tid 257) (rowid_to_tid 512)"
  using tid_bijection [of 257 512 "\<lparr>ip_blkid = 1, ip_posid = 256\<rparr>"] by (simp add: rowid_ok_def tid_ok_def)

text \<open>
  The tuple Postgres is handed carries the stored transaction ids and command id where it
  reads them, the TID of the rowid, the relation's oid, and every byte of the stored tuple after
  the twelve the header overlays.
\<close>

theorem stored_header_read_back:
  "tuple_xmin (build_heap_tuple_from_parts rel h bs) = Some (xmin h) \<and>
   tuple_xmax (build_heap_tuple_from_parts rel h bs) = Some (xmax h) \<and>
   tuple_cid (build_heap_tuple_from_parts rel h bs) = Some (cmin h) \<and>
   t_self (build_heap_tuple_from_parts rel h bs) = rowid_to_tid (rowid h) \<and>
   t_tableOid (build_heap_tuple_from_parts rel h bs) = rel \<and>
   drop 12 (t_data (build_heap_tuple_from_parts rel h bs)) = drop 12 bs \<and>
   length (t_data (build_heap_tuple_from_parts rel h bs)) = max 12 (length bs)"
  by (simp add: tuple_header_overlay build_heap_tuple_payload)
    (simp add: build_heap_tuple_from_parts_def build_heap_tuple_def overlay_header_def Let_def)

text \<open>
  C21. The tuple \<open>build_heap_tuple_from_parts\<close> hands to Postgres, in memory: over an allocator and
  a layout of \<open>HeapTupleData\<close> that keep their contracts, a stored tuple of at least twelve bytes is
  copied into one fresh allocation behind its eight-byte aligned header without touching any other,
  reading the structure back through its pointers gives the tuple the rest of the development
  works with, \<open>bytes\<close> gives the stored bytes after the overlaid header, and dropping the owner
  frees exactly that allocation. A shorter stored tuple makes the header writes run past the end
  of the allocation: this safe function then has no defined result.
\<close>

theorem heap_tuple_in_memory:
  assumes "palloc_laws A" and "layout_laws L" and "memory_ok m" and "length bs \<le> 1000000000"
  shows "if 12 \<le> length bs
    then 8 dvd HEAPTUPLESIZE L \<and> wp (build_heap_tuple_from_parts_at A L rel hdr bs) (\<lambda>tup m'. memory_ok m' \<and> chunks m \<subseteq>\<^sub>m chunks m' \<and>
      wp (read_heap_tuple L tup) (\<lambda>t m''. m'' = m' \<and> t = build_heap_tuple_from_parts rel hdr bs) m' \<and>
      wp (OwnedHeapTuple_bytes L tup) (\<lambda>bs' m''. m'' = m' \<and> length bs' = length bs \<and> drop 12 bs' = drop 12 bs) m' \<and>
      wp (OwnedHeapTuple_drop A tup) (\<lambda>_ m''. chunks m'' = chunks m) m') m
    else build_heap_tuple_from_parts_at A L rel hdr bs m = None"
proof -
  let ?o = "overlay_header (xmin hdr) (xmax hdr) (cmin hdr) bs"
  obtain b c m1 where r: "build_heap_tuple_from_parts_at A L rel hdr bs m =
      (if 12 \<le> length bs then Some (Ok (Ptr b 0), with_chunk b c m1) else None)"
    and m1: "chunks m1 = chunks m" "chunks m b = None" "memory_ok (with_chunk b c m1)"
    and t: "12 \<le> length bs \<longrightarrow> layout_laws.tuple_chunk L b rel (rowid hdr) ?o c"
    by (rule layout_laws.from_parts_at [OF assms(2,1,3,4), where rel = rel and hdr = hdr])
  show ?thesis
  proof (cases "12 \<le> length bs")
    case True
    then have l: "length ?o = length bs" "drop 12 ?o = drop 12 bs" by (simp_all add: overlay_header_def)
    then have n: "length ?o \<le> 1000000000" using assms(4) by simp
    note rd = layout_laws.read_tuple_at [OF assms(2) t [rule_format, OF True] n] layout_laws.owned_bytes_at [OF assms(2) t [rule_format, OF True] n]
    have "chunks m \<subseteq>\<^sub>m chunks (with_chunk b c m1)" using m1 by (auto simp: map_le_def with_chunk_def)
    moreover have "heap_freetuple A (Ptr b 0) (with_chunk b c m1) = Some (Ok (), m1)"
      using palloc_laws.freetuple_ok [OF assms(1), of "with_chunk b c m1" b c] m1 by (simp add: with_chunk_def fun_upd_idem)
    ultimately show ?thesis
      using True m1 l layout_laws.HEAPTUPLESIZE_bounds(3) [OF assms(2)] by (simp add: wp_def r rd OwnedHeapTuple_drop_def build_heap_tuple_from_parts_def build_heap_tuple_def)
  qed (simp add: r)
qed

theorem heap_tuple_in_memory_witness:
  "wp (build_heap_tuple_from_parts_at bump_palloc x64_layout 16 \<lparr>rowid = 257, xmin = 5, cmin = 2, xmax = 0, cmax = 0\<rparr> (replicate 24 9))
     (\<lambda>tup m'. wp (read_heap_tuple x64_layout tup) (\<lambda>t m''. tuple_xmin t = Some 5 \<and> t_self t = \<lparr>ip_blkid = 1, ip_posid = 1\<rparr>) m' \<and>
       wp (OwnedHeapTuple_drop bump_palloc tup) (\<lambda>_ m''. chunks m'' = Map.empty) m') \<lparr>chunks = Map.empty, brk = 0\<rparr> \<and>
   build_heap_tuple_from_parts_at bump_palloc x64_layout 16 \<lparr>rowid = 257, xmin = 5, cmin = 2, xmax = 0, cmax = 0\<rparr> [9]
     \<lparr>chunks = Map.empty, brk = 0\<rparr> = None"
proof -
  have ok: "memory_ok \<lparr>chunks = Map.empty, brk = 0\<rparr>" by (simp add: memory_ok_def)
  note mem = heap_tuple_in_memory [OF bump.palloc_laws_axioms x64.layout_laws_axioms ok, where rel = 16
      and hdr = "\<lparr>rowid = 257, xmin = 5, cmin = 2, xmax = 0, cmax = 0\<rparr>"]
  have "rowid_to_tid 257 = \<lparr>ip_blkid = 1, ip_posid = 1\<rparr>" by code_simp
  with mem [of "replicate 24 9"] mem [of "[9]"] show ?thesis
    by (auto simp: tuple_header_overlay elim!: wp_mono)
qed

section \<open>Through the handler\<close>

text \<open>
  C22. End to end through the callback table that the handler returns: after an insert, a
  sequential scan under a snapshot that sees the inserting command ends and hands out the rows
  the snapshot saw before and then the new tuple, with the inserter's transaction and command in
  its header and its TID.
\<close>

theorem handler_insert_scan:
  fixes h :: "'w host" and pg :: pg_xact and it :: 'i and x :: "'b slot_api" and par :: "'ps parallel_api" and tbm :: "('i, 'p) tbm_api"
  defines "am \<equiv> sqlite_heap_handler h pg x tbm par it :: ('w, 'b, 'i, 'ps, 'v, 'c) TableAmRoutine"
  assumes "holds h view up s rel t" and "slot_laws x" and "snapshot_type snap = SNAPSHOT_MVCC"
    and "sees pg snap (GetCurrentTransactionId pg) cid" and "length (copy_heap_tuple x sl) \<le> 1000000000"
    and "next_rowid (storage t) \<le> i64_max" and "length (storage t) + 1 < n"
  shows "wp (bindE (am_tuple_insert am rel sl cid) (\<lambda>_.
      drain (\<lambda>(scan, sl'). am_scan_getnextslot am scan dir sl') n (am_scan_begin am rel snap nkeys key pscan flags, sl0)))
    (\<lambda>(sts, fin) s'. fin \<and> map (slot_tuple x) sts =
       map (stored_tuple rel) (filter (\<lambda>r. visible_mvcc pg (header r) snap) (map row_of (storage t))) @
       [build_heap_tuple_from_parts rel (new_version (next_rowid (storage t)) (GetCurrentTransactionId pg) cid)
          (copy_heap_tuple x sl)]) s"
proof -
  let ?x = "GetCurrentTransactionId pg" and ?b = "copy_heap_tuple x sl"
  let ?t = "t\<lparr>storage := rows_insert (sint ?x) (sint cid) ?b (storage t)\<rparr>"
  have nx: "(\<lambda>(scan, sl'). am_scan_getnextslot am scan dir sl') = seq_next h pg x dir"
    by (simp add: fun_eq_iff am_def sqlite_heap_handler_def am_routine_def seq_next_def)
  have bg: "am_scan_begin am rel snap nkeys key pscan flags = scan_begin it rel snap nkeys key pscan flags"
    and ins: "am_tuple_insert am rel sl cid = tuple_insert h pg x rel sl cid"
    by (simp_all add: am_def sqlite_heap_handler_def am_routine_def)
  have v: "sees_row pg snap = (\<lambda>r. visible_mvcc pg (header r) snap)"
    using assms(4) by (simp add: fun_eq_iff sees_row_mvcc)
  have ro: "read_only snap" using assms(4) by (simp add: read_only_def)
  have l: "length (storage ?t) < n" using assms(8) by (simp add: rows_insert_def)
  have f: "map (stored_tuple rel) (filter (sees_row pg snap) (map row_of (storage ?t))) =
      map (stored_tuple rel) (filter (\<lambda>r. visible_mvcc pg (header r) snap) (map row_of (storage t))) @
       [build_heap_tuple_from_parts rel (new_version (next_rowid (storage t)) ?x cid) ?b]"
    using assms(5) by (simp add: v rows_insert_def row_of_inserted mvcc.vis_new stored_tuple_def)
  show ?thesis
    unfolding nx bg ins tuple_insert_def do_tuple_insert_def Let_def bindE_assoc bindE_ret current_xid_u32_def
    by (rule wpB [OF holds_insert [OF assms(2,6,7)]], elim exE conjE, simp only:,
        rule wp_mono [OF seq_drain [OF _ assms(3) ro l]], assumption) (simp only: f)
qed

theorem handler_insert_scan_witness:
  "wp (bindE (am_tuple_insert (sqlite_heap_handler ref_host demo_pg heap_slots demo_tbm demo_parallel [] ::
         (ref_world, HeapTupleData option, unit TBMIterateResult list, unit, nat, nat) TableAmRoutine) 16 (demo_slot [7]) 2) (\<lambda>_.
       drain (\<lambda>(scan, sl'). am_scan_getnextslot (sqlite_heap_handler ref_host demo_pg heap_slots demo_tbm demo_parallel [] ::
         (ref_world, HeapTupleData option, unit TBMIterateResult list, unit, nat, nat) TableAmRoutine) scan ForwardScanDirection sl') 4
         (am_scan_begin (sqlite_heap_handler ref_host demo_pg heap_slots demo_tbm demo_parallel [] ::
         (ref_world, HeapTupleData option, unit TBMIterateResult list, unit, nat, nat) TableAmRoutine) 16 demo_snap 0 None None 0, demo_slot [])))
     (\<lambda>(sts, fin) s'. fin \<and> map (slot_tuple heap_slots) sts = [stored_tuple 16 (row_of (demo_row 1 5 0 [1])),
        build_heap_tuple_from_parts 16 (new_version 2 10 2) [7]])
   (demo_backend (demo_tab [demo_row 1 5 0 [1]]))"
proof -
  have ok: "rows_ok [demo_row 1 5 0 [1]]" by (simp add: rows_ok_def demo_row_def)
  have c: "copy_heap_tuple heap_slots (demo_slot [7]) = [7]" by (simp add: demo_copy)
  have n: "next_rowid [demo_row 1 5 0 [1]] = 2" by (simp add: next_rowid_def demo_row_def)
  have x: "GetCurrentTransactionId demo_pg = 10" "sees demo_pg demo_snap 10 2" "snapshot_type demo_snap = SNAPSHOT_MVCC"
    "visible_mvcc demo_pg (header (row_of (demo_row 1 5 0 [1]))) demo_snap" by code_simp+
  show ?thesis
    by (rule wp_mono [OF handler_insert_scan [OF demo_holds [OF ok] heap_slots.slot_laws_axioms x(3)]])
      (use x in \<open>simp_all add: c n i64_max_def\<close>)
qed


section \<open>Opening and upgrading files\<close>

text \<open>
  C23. The first access to a relation installs the schema of a new file and migrates one of
  every older version: the relation then reports the current version, has its tables, keeps
  every row and every metadata entry, and the upgrade is on disk, outside any transaction.
\<close>

theorem schema_opened:
  assumes "sqlite_engine h view up" and "backend_ok view up s" and "CONNS s rel = None" and "rel \<notin> TX_RELS s"
    and "dir_of h s = Some dir" and "CHR 0x00 \<notin> set dir"
    and "t = (case e_files (view (World s)) (rel_path dir rel) of Some t \<Rightarrow> t | None \<Rightarrow> empty_tables)" and "openable t"
  shows "wp (sqlite_heap_schema_version h rel) (\<lambda>v s'. v = 4 \<and> (\<exists>d. rel_db view s' rel = Some d \<and> db_txn d = None \<and>
    db_tab d = upgraded t \<and> user_version (upgraded t) = 4 \<and> (user_version t = 0 \<or> has_tables t \<longleftrightarrow> has_tables (upgraded t)) \<and>
    storage (upgraded t) = storage t \<and> meta (upgraded t) = meta t \<and>
    e_files (view (World s')) (rel_path dir rel) = Some (upgraded t))) s"
proof -
  let ?d = "(open_conn_at (rel_path dir rel) (view (World s)))\<lparr>db_tab := upgraded t\<rparr>"
  have u: "user_version (upgraded t) = 4" "storage (upgraded t) = storage t" "meta (upgraded t) = meta t"
    "user_version t = 0 \<or> has_tables t \<longleftrightarrow> has_tables (upgraded t)"
    using assms(8) by (auto simp: upgraded_def openable_def SCHEMA_VERSION_def)
  have "db_tab (open_conn_at (rel_path dir rel) (view (World s))) = t" using assms(7) by (simp add: open_conn_at_def)
  then have a: "avail h view s rel ?d" using assms(3-6,8) by (simp add: avail_def Let_def)
  show ?thesis
    unfolding sqlite_heap_schema_version_def
  proof (rule wp_mono [OF sqlite_engine.schema_version_spec [OF assms(1,2) a]])
    fix v s' assume "\<exists>d'. rel_db view s' rel = Some d' \<and> (v = user_version (db_tab ?d) \<and> d' = ?d) \<and> op_frame h view up rel s s'"
    then have r: "rel_db view s' rel = Some ?d" and v: "v = 4" and ok: "backend_ok view up s'"
      using u(1) by (auto simp: op_frame_def)
    from on_disk [OF ok r] r v u show "v = 4 \<and> (\<exists>d. rel_db view s' rel = Some d \<and> db_txn d = None \<and>
        db_tab d = upgraded t \<and> user_version (upgraded t) = 4 \<and> (user_version t = 0 \<or> has_tables t \<longleftrightarrow> has_tables (upgraded t)) \<and>
        storage (upgraded t) = storage t \<and> meta (upgraded t) = meta t \<and>
        e_files (view (World s')) (rel_path dir rel) = Some (upgraded t))"
      by (simp add: open_conn_at_def committed_def)
  qed (use u(1) in simp_all)
qed

theorem schema_opened_witness:
  "wp (sqlite_heap_schema_version ref_host 16) (\<lambda>v s'. v = 4 \<and>
     (\<exists>t'. e_files (rw_eng (World s')) (demo_file 16) = Some t' \<and> \<not> has_prev t' \<and> storage t' = [demo_row 1 5 0 [1]]))
   (demo_backend ((demo_tab [demo_row 1 5 0 [1]])\<lparr>user_version := 3, has_prev := True\<rparr>))"
proof -
  let ?t = "(demo_tab [demo_row 1 5 0 [1]])\<lparr>user_version := 3, has_prev := True\<rparr>"
  have f: "e_files (rw_eng (World (demo_backend ?t))) (rel_path ''/pg/sqlite_heap/5'' 16) = Some ?t"
    by (simp add: demo_backend_def demo_world_def demo_file_def)
  have p: "\<not> has_prev (upgraded ?t)" by (simp add: upgraded_def SCHEMA_VERSION_def)
  show ?thesis
    by (rule wp_mono [OF schema_opened [OF ref.sqlite_engine_axioms demo_ok [of ?t] _ _ demo_dir [of ?t], where rel = 16 and t = ?t]])
      (use f p in \<open>auto simp: demo_backend_def openable_def SCHEMA_VERSION_def demo_file_def\<close>)
qed



text \<open>
  C25. The version is taken to be 0 when the step that reads it does not deliver a row, for example
  because another process holds the file locked. The file is then treated as new: it is stamped
  with the current version, its rows untouched, whatever its version was; one of an older version
  stays unmigrated for good, and the refusal of a newer one is bypassed.
\<close>

theorem unread_version_downgrades:
  assumes "sqlite_engine h view up" and "backend_ok view up s" and "CONNS s rel = None" and "rel \<notin> TX_RELS s"
    and "dir_of h s = Some dir" and "CHR 0x00 \<notin> set dir"
    and "e_files (view (World s)) (rel_path dir rel) = Some t" and "rc \<noteq> SQLITE_ROW"
  shows "wp (ensure_in_xact (h\<lparr>sqlite3_step := (\<lambda>st w. (rc, w))\<rparr>) rel) (\<lambda>_ s'. CONNS s' rel \<noteq> None \<and>
    e_files (view (World s')) (rel_path dir rel) = Some (t\<lparr>has_tables := True, user_version := 4\<rparr>)) s"
proof -
  let ?k = "h\<lparr>sqlite3_step := (\<lambda>st w. (rc, w))\<rparr>" and ?s = "s\<lparr>TX_RELS := insert rel (TX_RELS s)\<rparr>"
  let ?c = "open_conn_at (rel_path dir rel) (view (World s))"
  let ?d = "?c\<lparr>db_tab := t\<lparr>has_tables := True, user_version := 4\<rparr>\<rparr>"
  have t: "db_tab ?c = t" "db_txn ?c = None" using assms(7) by (simp_all add: open_conn_at_def)
  have ok: "backend_ok view up ?s" and dir: "dir_of h ?s = Some dir"
    using assms(2,5) by (simp_all add: backend_ok_def dir_of_def)
  have "wp (open_conn ?k rel) (\<lambda>c s'. cinv view up (view (World s)) (rc_db c) ?d (c, World s')) ?s"
  proof (rule wp_mono [OF sqlite_engine.open_conn_gen [OF assms(1) _ _ ok dir assms(6), where k = ?k and rel = rel and d' = ?d]])
    show "with_dir ?k = with_dir h" by (rule sqlite_engine.step_upd_same [OF assms(1)])
    fix e db w assume "cinv view up e db (open_conn_at (rel_path dir rel) (view (World ?s))) (RelConn_new db, w)"
    from sqlite_engine.init_conn_unread [OF assms(1) this assms(8)] t
    show "wp (init_conn ?k) (\<lambda>_. cinv view up e db ?d) (RelConn_new db, w)" by (simp add: SCHEMA_VERSION_def)
  qed simp_all
  then have "wp (open_conn ?k rel) (\<lambda>c s'. e_files (view (World s')) (rel_path dir rel) = Some (t\<lparr>has_tables := True, user_version := 4\<rparr>)) ?s"
    by (rule wp_mono) (use t(2) in \<open>auto simp: cinv_def conn_ok_def committed_def open_conn_at_def\<close>)
  then show ?thesis
    using assms(3,4) by (auto simp: ensure_in_xact_def register_hooks_def wp_rules elim!: wp_mono)
qed

theorem unread_version_downgrades_witness:
  "wp (ensure_in_xact (ref_host\<lparr>sqlite3_step := (\<lambda>st w. (5, w))\<rparr>) 16) (\<lambda>_ s'.
     \<exists>t. e_files (rw_eng (World s')) (demo_file 16) = Some t \<and> user_version t = 4)
   (demo_backend ((demo_tab [demo_row 1 5 0 [1]])\<lparr>user_version := 9\<rparr>))"
proof -
  let ?t = "(demo_tab [demo_row 1 5 0 [1]])\<lparr>user_version := 9\<rparr>"
  have "e_files (rw_eng (World (demo_backend ?t))) (rel_path ''/pg/sqlite_heap/5'' 16) = Some ?t"
    by (simp add: demo_backend_def demo_world_def demo_file_def)
  from unread_version_downgrades [OF ref.sqlite_engine_axioms demo_ok _ _ demo_dir _ this, of 5] show ?thesis
    by (auto simp: demo_backend_def demo_file_def SQLITE_ROW_def elim!: wp_mono)
qed

section \<open>Scans by TID, by sample and by index\<close>



text \<open>
  An upper bound whose offset is larger than any the table hands out reaches into the next
  blocks: the TID-range scan hands out a row whose TID is past the bound.
\<close>

theorem tidrange_spills:
  assumes "holds h view up s rel t" and "slot_laws x" and "read_only snap" and "length (storage t) < n"
    and "256 < ip_posid hi" and "r \<in> set (storage t)" and "rw_id r = tid_to_rowid hi" and "rw_id r \<le> 2 ^ 40"
    and "tid_to_rowid lo \<le> rw_id r" and "sees_row pg snap (row_of r)"
  shows "\<not> tid_le (rowid_to_tid (rw_id r)) hi \<and>
    wp (drain (tid_next h pg x dir) n (scan_set_tidrange (scan_begin it rel snap nkeys key pscan flags) lo hi, sl))
      (\<lambda>(sts, fin) s'. stored_tuple rel (row_of r) \<in> set (map (slot_tuple x) sts)) s"
proof -
  have "rowid_ok (rw_id r)" using assms(1,6,8) by (auto simp: rowid_ok_def holds_def rows_ok_def)
  note p = rowid_to_tid_parts [OF this]
  have o: "256 < uint (ip_posid hi)" using assms(5) by (simp add: word_less_def)
  have "(rw_id r - 1) div 256 > uint (ip_blkid hi)" using o assms(7) by (simp add: tid_to_rowid_eq)
  then have "\<not> tid_le (rowid_to_tid (rw_id r)) hi" using p by (auto simp: tid_le_def word_less_def)
  moreover have "wp (drain (tid_next h pg x dir) n (scan_set_tidrange (scan_begin it rel snap nkeys key pscan flags) lo hi, sl))
      (\<lambda>(sts, fin) s'. stored_tuple rel (row_of r) \<in> set (map (slot_tuple x) sts)) s"
    by (rule wp_mono [OF tidrange_drain [OF assms(1-4)]], clarify, simp only: set_map)
      (drule arg_cong [of _ _ set], use assms(6-10) in auto)
  ultimately show ?thesis by blast
qed

theorem tidrange_spills_witness:
  "\<not> tid_le (rowid_to_tid 300) \<lparr>ip_blkid = 0, ip_posid = 300\<rparr> \<and>
   wp (drain (tid_next ref_host demo_pg heap_slots ForwardScanDirection) 2
      (scan_set_tidrange (scan_begin () 16 demo_snap 0 None None 0) \<lparr>ip_blkid = 0, ip_posid = 1\<rparr> \<lparr>ip_blkid = 0, ip_posid = 300\<rparr>, demo_slot []))
    (\<lambda>(sts, fin) s'. stored_tuple 16 (row_of (demo_row 300 5 0 [3])) \<in> set (map (slot_tuple heap_slots) sts))
   (demo_backend (demo_tab [demo_row 300 5 0 [3]]))"
proof -
  let ?r = "demo_row 300 5 0 [3]"
  have ok: "rows_ok [?r]" by (simp add: rows_ok_def demo_row_def)
  have "sees_row demo_pg demo_snap (row_of ?r)" by code_simp
  moreover have "rw_id ?r = 300" by (simp add: demo_row_def)
  moreover have "read_only demo_snap" by (simp add: read_only_def demo_snap_def)
  ultimately show ?thesis
    using tidrange_spills [OF demo_holds [OF ok] heap_slots.slot_laws_axioms, where pg = demo_pg and snap = demo_snap
      and n = 2 and it = "()" and nkeys = 0 and key = None and pscan = None and flags = 0 and sl = "demo_slot []" and r = ?r
      and lo = "\<lparr>ip_blkid = 0, ip_posid = 1\<rparr>" and hi = "\<lparr>ip_blkid = 0, ip_posid = 300\<rparr>"]
    by (simp add: tid_to_rowid_eq)
qed

text \<open>
  C27. A sample scan offers its one block once, and draining that block gives the same rows as a
  sequential scan; a rescan does not offer the block again, so a rescanned sample is empty.
\<close>

theorem sample_scan_once:
  assumes "holds h view up s rel t" and "slot_laws x" and "read_only snap" and "length (storage t) < n"
  shows "\<exists>scan. scan_sample_next_block (scan_begin it rel snap nkeys key pscan flags) = (True, scan) \<and>
    wp (drain (sample_next h pg x) n (scan, sl)) (\<lambda>(sts, fin) s'. fin \<and> map (slot_tuple x) sts =
      map (stored_tuple rel) (filter (sees_row pg snap) (map row_of (storage t)))) s \<and>
    scan_sample_next_block scan = (False, scan) \<and>
    scan_sample_next_block (scan_rescan scan) = (False, scan_rescan scan)"
proof -
  let ?s0 = "scan_begin it rel snap nkeys key pscan flags"
  let ?scan = "?s0\<lparr>cursor := (cursor ?s0)\<lparr>sample_block_consumed := True, pos := 0\<rparr>\<rparr>"
  have b: "scan_sample_next_block ?s0 = (True, ?scan)"
    by (simp add: scan_sample_next_block_def SqliteCursor_new_def)
  have k: "seq_kept pg ?scan = sees_row pg snap" and rd: "rs_rd ?scan = rel" by (simp_all add: fun_eq_iff seq_kept_def)
  have "scan_pending h view up x (seq_kept pg) (rs_rd ?scan) (?scan, sl)
      (filter (seq_kept pg ?scan) (map row_of (storage t))) s"
    by (rule pending_fresh) (use assms in simp_all)
  moreover have "length (filter (seq_kept pg ?scan) (map row_of (storage t))) < n"
    by (rule le_less_trans [OF length_filter_le]) (simp add: assms(4))
  ultimately have "wp (drain (sample_next h pg x) n (?scan, sl)) (\<lambda>(sts, fin) s'. fin \<and> map (slot_tuple x) sts =
      map (stored_tuple rel) (filter (sees_row pg snap) (map row_of (storage t)))) s"
    unfolding k rd by (rule sample_scan.drain_all)
  moreover have "scan_sample_next_block ?scan = (False, ?scan)"
    "scan_sample_next_block (scan_rescan ?scan) = (False, scan_rescan ?scan)"
    by (simp_all add: scan_sample_next_block_def scan_rescan_def)
  ultimately show ?thesis using b by blast
qed

theorem sample_scan_once_witness:
  "\<exists>scan. scan_sample_next_block (scan_begin () 16 demo_snap 0 None None 0) = (True, scan) \<and>
    wp (drain (sample_next ref_host demo_pg heap_slots) 3 (scan, demo_slot [])) (\<lambda>(sts, fin) s'. fin \<and>
      map (slot_tuple heap_slots) sts = [stored_tuple 16 (row_of (demo_row 1 5 0 [1, 2]))])
     (demo_backend (demo_tab [demo_row 1 5 0 [1, 2], demo_row 2 5 6 [3]])) \<and>
    fst (scan_sample_next_block (scan_rescan scan)) = False"
proof -
  let ?rs = "[demo_row 1 5 0 [1, 2], demo_row 2 5 6 [3]]"
  have ok: "rows_ok ?rs" by (simp add: rows_ok_def demo_row_def)
  have v: "sees_row demo_pg demo_snap (row_of (demo_row 1 5 0 [1, 2]))"
    "\<not> sees_row demo_pg demo_snap (row_of (demo_row 2 5 6 [3]))" by code_simp+
  have ro: "read_only demo_snap" by (simp add: read_only_def demo_snap_def)
  from sample_scan_once [OF demo_holds [OF ok] heap_slots.slot_laws_axioms ro, where pg = demo_pg
      and n = 3 and it = "()" and nkeys = 0 and key = None and pscan = None and flags = 0 and sl = "demo_slot []"]
  show ?thesis by (auto simp: v)
qed

section \<open>Index maintenance\<close>

text \<open>
  C28. \<open>index_delete_tuples\<close> marks exactly the entries whose row is gone or was deleted by a
  transaction that committed before the horizon, keeps every mark it was given, reports a
  removed transaction before the horizon (or none), and leaves the table alone. No snapshot that sees every commit before the
  horizon sees a row whose entry it marks.
\<close>

theorem index_delete_marks_dead:
  assumes "holds h view up s rel t" and "0 < ndeltids op" and "ndeltids op \<le> length (deltids op)"
    and "ndeltids op \<le> length (status op)" and "\<forall>e \<in> set (take (ndeltids op) (deltids op)). del_id e < ndeltids op"
    and "GetOldestNonRemovableTransactionId pg rel = oldest"
  shows "wp (index_delete_tuples h pg rel op) (\<lambda>(latest, op') s'. holds h view up s' rel t \<and> alone h view up rel s s' \<and>
    deltids op' = deltids op \<and> length (status op') = length (status op) \<and>
    (\<forall>i < length (status op). status op' ! i \<longleftrightarrow> status op ! i \<or>
       (\<exists>e \<in> set (take (ndeltids op) (deltids op)). del_id e = i \<and> dead_rowid pg oldest (storage t) (tid_to_rowid (del_tid e)))) \<and>
    (ndeltids op' = (if \<exists>e \<in> set (take (ndeltids op) (deltids op)). dead_rowid pg oldest (storage t) (tid_to_rowid (del_tid e))
       then ndeltids op else 0)) \<and>
    (latest = 0 \<or> did_commit pg latest \<and> TransactionIdPrecedes pg latest oldest) \<and>
    (\<forall>snap rid b. (\<forall>x c. did_commit pg x \<and> TransactionIdPrecedes pg x oldest \<longrightarrow> sees pg snap x c) \<and>
       dead_rowid pg oldest (storage t) rid \<longrightarrow> (rid, b) \<notin> set (seen_table pg snap (storage t)))) s"
proof -
  let ?n = "ndeltids op" let ?dels = "take ?n (deltids op)"
  let ?rids = "map (\<lambda>e. tid_to_rowid (del_tid e)) ?dels"
  let ?m = "\<lambda>k. if k \<in> set ?rids then map_option (\<lambda>r. xmax (header (row_of r))) (find_row k (storage t)) else None"
  have ok: "rows_ok (storage t)" using assms(1) by (simp add: holds_def)
  have ne: "?rids \<noteq> []" using assms(2,3) by auto
  have zs: "zip ?dels ?rids = map (\<lambda>e. (e, tid_to_rowid (del_tid e))) ?dels"
    by (simp add: zip_map2 zip_same_conv_map)
  have d: "deletable pg oldest (?m (tid_to_rowid (del_tid e))) = dead_rowid pg oldest (storage t) (tid_to_rowid (del_tid e))"
    if "e \<in> set ?dels" for e using that deletable_dead [OF ok] by simp
  have L: "\<forall>z \<in> set (zip ?dels ?rids). del_id (fst z) < length (take ?n (status op))"
    unfolding zs using assms(4,5) by auto
  have loop: "wp (index_delete_loop pg oldest ?m (zip ?dels ?rids) (take ?n (status op)) 0 False)
      (\<lambda>(sts, latest, any) s2. s2 = s1 \<and> length sts = ?n \<and>
        (\<forall>i < ?n. sts ! i \<longleftrightarrow> status op ! i \<or> (\<exists>e \<in> set ?dels. del_id e = i \<and>
           dead_rowid pg oldest (storage t) (tid_to_rowid (del_tid e)))) \<and>
        (any \<longleftrightarrow> (\<exists>e \<in> set ?dels. dead_rowid pg oldest (storage t) (tid_to_rowid (del_tid e)))) \<and>
        (latest = 0 \<or> did_commit pg latest \<and> TransactionIdPrecedes pg latest oldest)) s1" for s1 :: "'a backend"
    by (rule wp_mono [OF index_delete_loop_spec [OF L]]) (use assms(4) d in \<open>auto simp: zs min_def\<close>)
  have un: "(rid, b) \<notin> set (seen_table pg snap (storage t))"
    if "\<forall>x c. did_commit pg x \<and> TransactionIdPrecedes pg x oldest \<longrightarrow> sees pg snap x c"
      "dead_rowid pg oldest (storage t) rid" for snap rid b
    by (rule dead_rowid_unseen [OF ok that(2)]) (use that(1) in blast)
  have nth: "(sts @ drop ?n (status op)) ! i = (if i < ?n then sts ! i else status op ! i)"
    if "length sts = ?n" "i < length (status op)" for sts i using that by (simp add: nth_append)
  show ?thesis
    unfolding index_delete_tuples_def Let_def assms(6) if_not_P [OF less_not_refl2 [OF assms(2)]]
    by (rule wpB [OF holds_xmax_batch [OF assms(1) ne]], elim exE conjE, simp only:, rule wpB [OF loop])
      (use assms(3-5) un nth in \<open>auto simp: wp_ret\<close>)
qed

theorem index_delete_marks_dead_witness:
  "wp (index_delete_tuples ref_host demo_pg 16 \<lparr>ndeltids = 3, deltids = [\<lparr>del_tid = \<lparr>ip_blkid = 0, ip_posid = 1\<rparr>, del_id = 0\<rparr>,
       \<lparr>del_tid = \<lparr>ip_blkid = 0, ip_posid = 2\<rparr>, del_id = 2\<rparr>, \<lparr>del_tid = \<lparr>ip_blkid = 4, ip_posid = 1\<rparr>, del_id = 1\<rparr>],
       status = [False, False, False]\<rparr>)
     (\<lambda>(latest, op') s'. ndeltids op' = 3 \<and> length (status op') = 3 \<and> \<not> status op' ! 0 \<and> status op' ! 1 \<and> status op' ! 2)
   (demo_backend (demo_tab [demo_row 1 5 0 [1], demo_row 2 5 6 [3]]))"
proof -
  let ?e0 = "\<lparr>del_tid = \<lparr>ip_blkid = 0, ip_posid = 1\<rparr>, del_id = 0\<rparr>" and ?e1 = "\<lparr>del_tid = \<lparr>ip_blkid = 0, ip_posid = 2\<rparr>, del_id = 2\<rparr>"
  let ?e2 = "\<lparr>del_tid = \<lparr>ip_blkid = 4, ip_posid = 1\<rparr>, del_id = 1\<rparr>" and ?rs = "[demo_row 1 5 0 [1], demo_row 2 5 6 [3]]"
  let ?op = "\<lparr>ndeltids = 3, deltids = [?e0, ?e1, ?e2], status = [False, False, False]\<rparr>"
  have ok: "rows_ok ?rs" by (simp add: rows_ok_def demo_row_def)
  have dd: "\<not> dead_rowid demo_pg 8 ?rs (tid_to_rowid (del_tid ?e0))" "dead_rowid demo_pg 8 ?rs (tid_to_rowid (del_tid ?e1))"
    "dead_rowid demo_pg 8 ?rs (tid_to_rowid (del_tid ?e2))" by code_simp+
  have o: "GetOldestNonRemovableTransactionId demo_pg 16 = 8" by (simp add: demo_pg_def)
  show ?thesis
    by (rule wp_mono [OF index_delete_marks_dead [OF demo_holds [OF ok], where op = ?op and pg = demo_pg and oldest = 8]])
      (use dd o in \<open>auto simp: All_less_Suc numeral_3_eq_3 numeral_2_eq_2\<close>)
qed

section \<open>Copies, lost updates and identifier reuse\<close>

text \<open>
  C29. \<open>CLUSTER\<close> and \<open>VACUUM FULL\<close> copy the rows without a deleter stamp, in order, into the
  new relation under the current transaction and command, count the copied and the dropped
  rows, and leave the old relation as it was.
\<close>

theorem cluster_copies:
  assumes "holds h view up s old t" and "holds h view up s new u" and "old \<noteq> new"
    and "\<forall>b \<in> set (copied (storage t)). length b \<le> 1000000000"
    and "next_rowid (storage u) + int (length (copied (storage t))) \<le> i64_max"
  shows "wp (relation_copy_for_cluster h pg old new) (\<lambda>(live, vacuumed, recent) s'. holds h view up s' old t \<and>
    live = length (copied (storage t)) \<and> vacuumed + live = length (storage t) \<and> recent = 0 \<and>
    (\<exists>u'. holds h view up s' new u' \<and> (\<forall>pg' snap. seen_table pg' snap (storage u') = seen_table pg' snap (storage u) @
       (if sees pg' snap (GetCurrentTransactionId pg) (GetCurrentCommandId pg)
        then zip (batch_ids (sint (GetCurrentTransactionId pg)) (sint (GetCurrentCommandId pg)) (copied (storage t)) (storage u))
               (copied (storage t)) else [])))) s"
  by (rule wp_mono [OF relation_copy_spec [OF assms]])
    (auto simp: seen_batch intro!: exI [of _ "u\<lparr>storage := rows_batch (sint (GetCurrentTransactionId pg))
         (sint (GetCurrentCommandId pg)) (copied (storage t)) (storage u)\<rparr>"])

theorem cluster_copies_witness:
  "wp (relation_copy_for_cluster ref_host demo_pg 16 7) (\<lambda>(live, vacuumed, recent) s'. live = 1 \<and> vacuumed = 1 \<and>
      (\<exists>u'. holds ref_host rw_eng ref_up s' 7 u' \<and> seen_table demo_pg (demo_snap\<lparr>curcid := 4\<rparr>) (storage u') = [(1, [1])]))
   (demo_backend (demo_tab [demo_row 1 5 0 [1], demo_row 2 5 6 [3]]))"
proof -
  let ?rs = "[demo_row 1 5 0 [1], demo_row 2 5 6 [3]]"
  have ok: "rows_ok ?rs" by (simp add: rows_ok_def demo_row_def)
  have c: "copied ?rs = [[1]]" by code_simp
  have x: "GetCurrentTransactionId demo_pg = 10" "GetCurrentCommandId demo_pg = 3" by (simp_all add: demo_pg_def)
  have z: "sees demo_pg (demo_snap\<lparr>curcid := 4\<rparr>) 10 3" "batch_ids 10 3 [[1]] [] = [1]" by code_simp+
  have b: "batch_ids (sint (10 :: u32)) (sint (3 :: u32)) [[1]] [] = [1]" using z(2) by simp
  show ?thesis
    by (rule wp_mono [OF cluster_copies [OF demo_holds [OF ok] demo_holds_new [of 7], where pg = demo_pg]])
      (use z b in \<open>auto simp: c x next_rowid_def i64_max_def seen_table_def upgraded_def empty_tables_def\<close>)
qed

text \<open>
  The copy does not ask whether the inserter committed: a row that no snapshot sees, since
  the transaction that inserted it aborted, is alive in the new relation.
\<close>

theorem cluster_revives_aborted:
  assumes "holds h view up s old t" and "holds h view up s new u" and "old \<noteq> new"
    and "\<forall>b \<in> set (copied (storage t)). length b \<le> 1000000000"
    and "next_rowid (storage u) + int (length (copied (storage t))) \<le> i64_max"
    and "r \<in> set (storage t)" and "rw_xmax r = 0" and "\<not> did_commit pg (xmin (header (row_of r)))"
    and "\<not> TransactionIdIsCurrentTransactionId pg (xmin (header (row_of r)))"
    and "sees pg snap (GetCurrentTransactionId pg) (GetCurrentCommandId pg)"
  shows "\<not> visible_row pg snap r \<and> wp (relation_copy_for_cluster h pg old new) (\<lambda>_ s'.
    \<exists>u' k. holds h view up s' new u' \<and> (k, rw_tuple r) \<in> set (seen_table pg snap (storage u'))) s"
proof -
  let ?x = "GetCurrentTransactionId pg" and ?c = "GetCurrentCommandId pg" and ?cp = "copied (storage t)"
  let ?u = "u\<lparr>storage := rows_batch (sint ?x) (sint ?c) ?cp (storage u)\<rparr>"
  have "rw_tuple r \<in> set ?cp" using assms(6,7) by (auto simp: copied_def)
  moreover have "length (batch_ids (sint ?x) (sint ?c) ?cp (storage u)) = length ?cp" by (simp add: batch_ids_upto)
  ultimately obtain k where "(k, rw_tuple r) \<in> set (zip (batch_ids (sint ?x) (sint ?c) ?cp (storage u)) ?cp)"
    by (auto simp: in_set_conv_nth) (metis nth_mem nth_zip length_zip min.idem)
  then have k: "(k, rw_tuple r) \<in> set (seen_table pg snap (storage ?u))" using assms(10) by (simp add: seen_batch)
  have "wp (relation_copy_for_cluster h pg old new) (\<lambda>_ s'.
      \<exists>u' k. holds h view up s' new u' \<and> (k, rw_tuple r) \<in> set (seen_table pg snap (storage u'))) s"
    by (rule wp_mono [OF relation_copy_spec [OF assms(1-5)]]) (use k in \<open>auto intro!: exI [of _ ?u]\<close>)
  moreover have "\<not> visible_row pg snap r"
    using sees_not_committed [of pg "xmin (header (row_of r))"] assms(8,9) by (simp add: visible_row_def mvcc.vis_iff)
  ultimately show ?thesis by blast
qed

theorem cluster_revives_aborted_witness:
  "\<not> visible_row demo_pg (demo_snap\<lparr>curcid := 4\<rparr>) (demo_row 1 30 0 [1]) \<and>
   wp (relation_copy_for_cluster ref_host demo_pg 16 7) (\<lambda>_ s'.
      \<exists>u' k. holds ref_host rw_eng ref_up s' 7 u' \<and> (k, [1]) \<in> set (seen_table demo_pg (demo_snap\<lparr>curcid := 4\<rparr>) (storage u')))
   (demo_backend (demo_tab [demo_row 1 30 0 [1]]))"
proof -
  let ?r = "demo_row 1 30 0 [1]" let ?rs = "[?r]"
  have ok: "rows_ok ?rs" by (simp add: rows_ok_def demo_row_def)
  have c: "copied ?rs = [[1]]" by code_simp
  have x: "\<not> did_commit demo_pg (xmin (header (row_of ?r)))" "rw_xmax ?r = 0" "rw_tuple ?r = [1]"
    "\<not> TransactionIdIsCurrentTransactionId demo_pg (xmin (header (row_of ?r)))"
    "sees demo_pg (demo_snap\<lparr>curcid := 4\<rparr>) (GetCurrentTransactionId demo_pg) (GetCurrentCommandId demo_pg)" by code_simp+
  show ?thesis
    using cluster_revives_aborted [OF demo_holds [OF ok] demo_holds_new [of 7 "demo_tab ?rs"], where pg = demo_pg and r = ?r
      and snap = "demo_snap\<lparr>curcid := 4\<rparr>"] x
    by (simp add: c next_rowid_def i64_max_def upgraded_def empty_tables_def)
qed

text \<open>
  C30. Vacuum does not ask whether the deleter committed: a row that a snapshot sees because its
  deleter aborted is removed once the deleter's id, as a signed number, is below the horizon.
\<close>

theorem vacuum_drops_aborted_delete:
  assumes "holds h view up s rel t" and "GetOldestNonRemovableTransactionId pg rel = oldest" and "vacuum_due oldest t"
    and "r \<in> set (storage t)" and "reclaimable (sint oldest) r" and "visible_row pg' snap r"
  shows "(rw_id r, rw_tuple r) \<in> set (seen_table pg' snap (storage t)) \<and>
    wp (relation_vacuum h pg rel) (\<lambda>_ s'. holds h view up s' rel (vacuumed oldest t) \<and>
      (\<forall>b. (rw_id r, b) \<notin> set (seen_table pg' snap (storage (vacuumed oldest t))))) s"
proof -
  have "rows_ok (storage t)" using assms(1) by (simp add: holds_def)
  then have u: "q = r" if "q \<in> set (storage t)" "rw_id q = rw_id r" for q
    using rows_ok_distinct that assms(4) by (auto simp: distinct_map inj_on_def)
  then have "(rw_id r, b) \<notin> set (seen_table pg' snap (storage (vacuumed oldest t)))" for b
    using assms(3,5) by (auto simp: vacuumed_def seen_table_def rows_vacuum_def)
  moreover have "(rw_id r, rw_tuple r) \<in> set (seen_table pg' snap (storage t))"
    using assms(4,6) by (auto simp: seen_table_def)
  ultimately show ?thesis
    unfolding relation_vacuum_def assms(2)
    by (auto intro!: wpB [OF holds_vacuum [OF assms(1)]] simp: wp_ret)
qed

theorem vacuum_drops_aborted_delete_witness:
  "(1, [1]) \<in> set (seen_table demo_pg2 demo_snap [demo_row 1 5 7 [1]]) \<and>
   wp (relation_vacuum ref_host demo_pg2 16) (\<lambda>_ s'. \<exists>t'. holds ref_host rw_eng ref_up s' 16 t' \<and>
      (\<forall>b. (1, b) \<notin> set (seen_table demo_pg2 demo_snap (storage t'))))
   (demo_backend (demo_tab [demo_row 1 5 7 [1]]))"
proof -
  let ?r = "demo_row 1 5 7 [1]"
  have ok: "rows_ok [?r]" by (simp add: rows_ok_def demo_row_def)
  have x: "GetOldestNonRemovableTransactionId demo_pg2 16 = 8" "vacuum_due 8 (demo_tab [?r])" "reclaimable 8 ?r"
    "visible_row demo_pg2 demo_snap ?r" "rw_id ?r = 1" "rw_tuple ?r = [1]" by code_simp+
  have s: "reclaimable (sint (8 :: u32)) ?r" using x(3) by simp
  from vacuum_drops_aborted_delete [OF demo_holds [OF ok] x(1,2) _ s x(4)] x(5,6) show ?thesis
    by (auto elim!: wp_mono)
qed

text \<open>
  C31. Vacuum frees the TID of the last row for reuse although it leaves the indexes alone: if
  the last row is reclaimed and the one before it stays, the next insert gives its TID away.
\<close>

theorem vacuum_reuses_tid:
  assumes "holds h view up s rel t" and "GetOldestNonRemovableTransactionId pg rel = oldest" and "vacuum_due oldest t"
    and "storage t = rs @ [q, r]" and "rw_id r = rw_id q + 1" and "rw_id r \<le> 2 ^ 40"
    and "\<not> reclaimable (sint oldest) q" and "reclaimable (sint oldest) r" and "length (copy_heap_tuple x sl) \<le> 1000000000"
  shows "wp (bindE (relation_vacuum h pg rel) (\<lambda>_. tuple_insert h pg x rel sl cid)) (\<lambda>sl' s'.
    tts_tid sl' = rowid_to_tid (rw_id r)) s"
proof -
  let ?v = "rows_vacuum (sint oldest) (storage t)"
  have ok: "rows_ok (storage t)" using assms(1) by (simp add: holds_def)
  have v: "?v = rows_vacuum (sint oldest) rs @ [q]" using assms(4,7,8) by (simp add: rows_vacuum_def)
  have "\<forall>p \<in> set (rows_vacuum (sint oldest) rs). rw_id p < rw_id q"
    using ok assms(4) by (auto simp: rows_ok_def rows_vacuum_def sorted_wrt_append)
  then have "Max (set (map rw_id ?v)) = rw_id q" unfolding v by (intro Max_eqI) (auto intro: less_imp_le)
  then have n: "next_rowid ?v = rw_id r" using assms(5) v by (simp add: next_rowid_def)
  then have n': "next_rowid (storage (vacuumed oldest t)) = rw_id r" using assms(3) by (simp add: vacuumed_def)
  have b: "next_rowid (storage (vacuumed oldest t)) \<le> i64_max" using n' assms(6) by (simp add: i64_max_def)
  show ?thesis
    unfolding relation_vacuum_def assms(2) bindE_assoc tuple_insert_def do_tuple_insert_def Let_def bindE_ret
    by (rule wpB [OF holds_vacuum [OF assms(1)]], elim exE conjE, simp only:,
        rule wpB [OF holds_insert [OF _ assms(9) b]], assumption)
      (auto simp: wp_ret set_inserted_tid_def n')
qed

theorem vacuum_reuses_tid_witness:
  "wp (bindE (relation_vacuum ref_host demo_pg 16) (\<lambda>_. tuple_insert ref_host demo_pg heap_slots 16 (demo_slot [7]) 2))
     (\<lambda>sl' s'. tts_tid sl' = rowid_to_tid 2) (demo_backend (demo_tab [demo_row 1 5 0 [1], demo_row 2 5 6 [9]]))"
proof -
  let ?q = "demo_row 1 5 0 [1]" and ?r = "demo_row 2 5 6 [9]"
  have ok: "rows_ok [?q, ?r]" by (simp add: rows_ok_def demo_row_def)
  have x: "GetOldestNonRemovableTransactionId demo_pg 16 = 8" "vacuum_due 8 (demo_tab [?q, ?r])" by code_simp+
  from vacuum_reuses_tid [OF demo_holds [OF ok] x, where x = heap_slots and sl = "demo_slot [7]" and rs = "[]" and q = ?q and r = ?r and cid = 2]
  show ?thesis by (simp add: demo_row_def reclaimable_def demo_copy)
qed

text \<open>
  The snapshot's list of running subtransactions is not consulted: a row inserted by a
  subtransaction that the snapshot lists as running becomes visible when it commits.
\<close>

theorem subxact_commit_seen:
  assumes "\<not> TransactionIdIsCurrentTransactionId pg x" and "x \<in> set (subxip snap)" and "x \<notin> set (xip snap)"
    and "TransactionIdPrecedes pg x (snap_xmax snap)" and "did_commit pg x"
  shows "visible_mvcc pg (new_version rid x c) snap"
  using assms by (simp add: mvcc.vis_new sees_def)

theorem subxact_commit_seen_witness:
  "visible_mvcc demo_pg2 (new_version 1 6 0) (demo_snap\<lparr>subxip := [6]\<rparr>)"
  by (rule subxact_commit_seen) code_simp+

section \<open>Bitmap scans\<close>

text \<open>
  C32. A bitmap scan over an iterator that yields finitely many pages ends and hands out, page by
  page, the visible rows of each page: of a lossy page all rows of the block, of an exact page
  the rows at its offsets that exist.
\<close>

theorem bitmap_scan_rows:
  assumes "holds h view up s rel t" and "slot_laws x" and "read_only snap" and "\<forall>r \<in> set (storage t). rw_id r \<le> 2 ^ 40"
    and "tbm_yields tbm it ps" and "\<forall>p \<in> set ps. page_fits tbm p"
    and "length (concat (map (page_rows tbm (storage t)) ps)) < n"
  shows "wp (drain (bitmap_next h pg x tbm) n ((scan_begin zero rel snap nkeys key pscan flags)\<lparr>rs_tbmiterator := it\<rparr>, sl, out))
    (\<lambda>(sts, fin) s'. fin \<and> map (bitmap_tuple x) sts = map (\<lambda>r. stored_tuple rel (row_of r))
      (filter (\<lambda>r. sees_row pg snap (row_of r)) (concat (map (page_rows tbm (storage t)) ps)))) s"
proof -
  let ?scan = "(scan_begin zero rel snap nkeys key pscan flags)\<lparr>rs_tbmiterator := it\<rparr>"
  let ?rs = "filter (\<lambda>r. sees_row pg snap (row_of r)) (concat (map (page_rows tbm (storage t)) ps))"
  have "left_on_page (storage t) (cursor ?scan) = []" "cursor_of t (cursor ?scan)"
    by (simp_all add: left_on_page_def cursor_of_def SqliteCursor_new_def List.map_filter_simps)
  then have "bitmap_pending h view up pg x tbm rel (?scan, sl, out) ?rs s"
    using assms by (auto simp: bitmap_pending_def bitmap_kept_def intro!: exI [of _ t] exI [of _ ps])
  moreover have "length ?rs < n" by (rule le_less_trans [OF length_filter_le assms(7)])
  ultimately show ?thesis by (rule bitmap_scan.drain_all)
qed

text \<open>An iterator over a list of pages, with the offsets of the exact ones.\<close>

theorem bitmap_scan_rows_witness:
  "wp (drain (bitmap_next ref_host demo_pg heap_slots demo_tbm) 4
      ((scan_begin [] 16 demo_snap 0 None None 0)\<lparr>rs_tbmiterator := [demo_page 0 False, demo_page 1 True]\<rparr>, demo_slot [],
       \<lparr>out_recheck = False, out_lossy_pages = 0, out_exact_pages = 0\<rparr>))
    (\<lambda>(sts, fin) s'. fin \<and> map (bitmap_tuple heap_slots) sts =
      [stored_tuple 16 (row_of (demo_row 2 5 0 [3])), stored_tuple 16 (row_of (demo_row 257 5 0 [4]))])
   (demo_backend (demo_tab [demo_row 1 5 0 [1], demo_row 2 5 0 [3], demo_row 257 5 0 [4]]))"
proof -
  let ?rs = "[demo_row 1 5 0 [1], demo_row 2 5 0 [3], demo_row 257 5 0 [4]]" and ?ps = "[demo_page 0 False, demo_page 1 True]"
  have ok: "rows_ok ?rs" and le: "\<forall>r \<in> set ?rs. rw_id r \<le> 2 ^ 40" by (simp_all add: rows_ok_def demo_row_def)
  have y: "tbm_yields demo_tbm ?ps ?ps" "\<forall>p \<in> set ?ps. page_fits demo_tbm p"
    by (simp_all add: demo_tbm_def page_fits_def demo_page_def MAX_OFFSETS_def)
  have p: "concat (map (page_rows demo_tbm ?rs) ?ps) = [demo_row 2 5 0 [3], demo_row 257 5 0 [4]]" by code_simp
  have v: "sees_row demo_pg demo_snap (row_of (demo_row 2 5 0 [3]))" "sees_row demo_pg demo_snap (row_of (demo_row 257 5 0 [4]))"
    by code_simp+
  have ro: "read_only demo_snap" by (simp add: read_only_def demo_snap_def)
  have st: "storage (demo_tab ?rs) = ?rs" by simp
  note th = bitmap_scan_rows [OF demo_holds [OF ok] heap_slots.slot_laws_axioms ro _ y, unfolded st p, OF le,
      where n = 4 and pg = demo_pg and zero = "[]" and nkeys = 0 and key = None and pscan = None and flags = 0 and sl = "demo_slot []"
      and out = "\<lparr>out_recheck = False, out_lossy_pages = 0, out_exact_pages = 0\<rparr>"]
  have f: "filter (\<lambda>r. sees_row demo_pg demo_snap (row_of r)) [demo_row 2 5 0 [3], demo_row 257 5 0 [4]] =
      [demo_row 2 5 0 [3], demo_row 257 5 0 [4]]" using v by simp
  from th [unfolded f] show ?thesis by simp
qed

section \<open>Dropping a table\<close>

text \<open>
  C33. Dropping tables changes nothing until the transaction commits: the event trigger only
  registers, for the dropped objects that are tables, a closure. At the commit the closure closes
  the relation's connection, takes the relation out of the transaction and removes its file with
  the two side files, and leaves the connections and files of every other relation alone.
\<close>

theorem drop_unlinks_at_commit:
  assumes "sqlite_engine h view up" and "backend_ok view up s" and "dir_of h s = Some dir"
  shows "wp (sqlite_heap_drop_handler objs) (\<lambda>_ s1. s1 = s\<lparr>HOOKS := HOOKS s @
      map (\<lambda>obj. CommitUnlink (snd obj)) (filter (\<lambda>obj. fst obj = ''table'') objs)\<rparr>) s \<and>
    wp (run_hook h Commit (CommitUnlink rel)) (\<lambda>_ s2. backend_ok view up s2 \<and> CONNS s2 = (CONNS s)(rel := None) \<and>
      TX_RELS s2 = TX_RELS s - {rel} \<and> e_files (view (World s2)) (rel_path dir rel) = None \<and>
      e_files (view (World s2)) (path_join dir (show_u32 rel @ ''.sqlite-wal'')) = None \<and>
      e_files (view (World s2)) (path_join dir (show_u32 rel @ ''.sqlite-shm'')) = None \<and>
      (\<forall>rel'. rel' \<noteq> rel \<longrightarrow> rel_db view s2 rel' = rel_db view s rel' \<and>
        e_files (view (World s2)) (rel_path dir rel') = e_files (view (World s)) (rel_path dir rel'))) s"
proof (rule conjI [OF drop_handler_spec], unfold run_hook.simps, rule wp_mono [OF sqlite_engine.unlink_spec [OF assms, of rel]], elim conjE)
  note side = side_files_distinct [of dir rel, symmetric]
  fix s2 assume "backend_ok view up s2" "CONNS s2 = (CONNS s)(rel := None)" "TX_RELS s2 = TX_RELS s - {rel}"
    "\<forall>rel'. rel' \<noteq> rel \<longrightarrow> rel_db view s2 rel' = rel_db view s rel'"
    "e_files (view (World s2)) = (\<lambda>q. if q \<in> {rel_path dir rel, with_extension (rel_path dir rel) ''sqlite-wal'',
       with_extension (rel_path dir rel) ''sqlite-shm''} then None else e_files (view (World s)) q)"
  then show "backend_ok view up s2 \<and> CONNS s2 = (CONNS s)(rel := None) \<and>
      TX_RELS s2 = TX_RELS s - {rel} \<and> e_files (view (World s2)) (rel_path dir rel) = None \<and>
      e_files (view (World s2)) (path_join dir (show_u32 rel @ ''.sqlite-wal'')) = None \<and>
      e_files (view (World s2)) (path_join dir (show_u32 rel @ ''.sqlite-shm'')) = None \<and>
      (\<forall>rel'. rel' \<noteq> rel \<longrightarrow> rel_db view s2 rel' = rel_db view s rel' \<and>
        e_files (view (World s2)) (rel_path dir rel') = e_files (view (World s)) (rel_path dir rel'))"
    using side by (simp add: with_extension_rel_path rel_path_inj)
qed

theorem drop_unlinks_at_commit_witness:
  "wp (run_hook ref_host Commit (CommitUnlink 16)) (\<lambda>_ s2. CONNS s2 16 = None \<and>
     e_files (rw_eng (World s2)) (demo_file 16) = None) (open_backend {16} (demo_tab []))"
  using drop_unlinks_at_commit [OF ref.sqlite_engine_axioms open_ok open_dir, of "[]" "{16}" "demo_tab []" 16]
  by (auto simp: demo_file_def elim!: wp_mono)



section \<open>Walks over a relation\<close>

text \<open>
  C35. \<open>ANALYZE\<close> over the one block of a relation ends; it samples exactly the rows without a
  deleter stamp, and its counters add up to the number of stored rows.
\<close>

theorem analyze_counts:
  assumes "holds h view up s rel t" and "slot_laws x" and "length (storage t) < n" and "blk \<noteq> InvalidBlockNumber"
  shows "\<exists>scan. scan_analyze_next_block blk (scan_begin it rel snap nkeys key pscan flags) = (True, scan) \<and>
    wp (analyze_drain h x n scan 0 0 sl) (\<lambda>(ts, fin, live, dead) s'. fin \<and>
      ts = map (\<lambda>r. stored_tuple rel (row_of r)) (unstamped (storage t)) \<and>
      live = length (unstamped (storage t)) \<and> live + dead = length (storage t)) s"
proof -
  let ?s0 = "scan_begin it rel snap nkeys key pscan flags" let ?scan = "?s0\<lparr>cursor := (cursor ?s0)\<lparr>pos := 0\<rparr>\<rparr>"
  let ?rs = "map row_of (storage t)"
  from assms(1) obtain d where d: "avail h view s rel d" "db_tab d = t" "has_tables t" "rows_ok (storage t)"
    and e: "engine_at h view up s" by (auto simp: holds_def engine_at_def)
  have "source_rows h view s (rs_rd ?scan) (cursor ?scan) ?rs"
    using d by (auto simp: source_rows_def rows_ok_sorted intro!: exI [of _ d])
  moreover have u: "filter (\<lambda>r. xmax (header r) = 0) ?rs = map row_of (unstamped (storage t))"
    by (rule unstamped_rows [OF d(4)])
  moreover have "length (unstamped (storage t)) < n"
    unfolding unstamped_def by (rule le_less_trans [OF length_filter_le assms(3)])
  ultimately have "wp (analyze_drain h x n ?scan 0 0 sl) (\<lambda>(ts, fin, live, dead) s'. fin \<and>
      ts = map (\<lambda>r. stored_tuple rel (row_of r)) (unstamped (storage t)) \<and>
      live = length (unstamped (storage t)) \<and> live + dead = length (storage t)) s"
    by (intro wp_mono [OF analyze_drain_spec [OF e _ assms(2)]]) (auto simp: u)
  then show ?thesis using assms(4) by (simp add: scan_analyze_next_block_def)
qed

theorem analyze_counts_witness:
  "\<exists>scan. scan_analyze_next_block 0 (scan_begin () 16 demo_snap 0 None None 0) = (True, scan) \<and>
    wp (analyze_drain ref_host heap_slots 3 scan 0 0 (demo_slot [])) (\<lambda>(ts, fin, live, dead) s'. fin \<and>
      ts = [stored_tuple 16 (row_of (demo_row 1 5 0 [1]))] \<and> live = 1 \<and> dead = 1)
     (demo_backend (demo_tab [demo_row 1 5 0 [1], demo_row 2 5 6 [3]]))"
proof -
  let ?rs = "[demo_row 1 5 0 [1], demo_row 2 5 6 [3]]"
  have ok: "rows_ok ?rs" by (simp add: rows_ok_def demo_row_def)
  have u: "unstamped ?rs = [demo_row 1 5 0 [1]]" by code_simp
  from analyze_counts [OF demo_holds [OF ok] heap_slots.slot_laws_axioms, where n = 3 and blk = 0 and it = "()"
      and snap = demo_snap and nkeys = 0 and key = None and pscan = None and flags = 0 and sl = "demo_slot []"]
  show ?thesis by (auto simp: u InvalidBlockNumber_def elim!: wp_mono)
qed

text \<open>
  C36. An index build calls the index's callback once for each row without a deleter stamp, in
  rowid order, with the row's TID and the key of its stored tuple, and returns their number; the
  table is left as it is. Without a callback it does nothing.
\<close>

theorem index_build_entries:
  assumes "holds h view up s rel t" and "slot_laws x" and "form = (\<lambda>sl. key (ExecCopySlotHeapTuple x sl))"
  shows "wp (index_build_range_scan h x form (Some cb) rel sl cs) (\<lambda>(n, cs') s'. holds h view up s' rel t \<and>
      n = length (unstamped (storage t)) \<and>
      cs' = fold (\<lambda>r. cb (rowid_to_tid (rw_id r)) (key (stored_tuple rel (row_of r)))) (unstamped (storage t)) cs) s \<and>
    index_build_range_scan h x form None rel sl cs s = Some (Ok (0, cs), s)"
proof -
  have ok: "rows_ok (storage t)" using assms(1) by (simp add: holds_def)
  have "wp (build_index h x form cb rel sl cs) (\<lambda>(n, cs') s'. holds h view up s' rel t \<and>
      n = length (unstamped (storage t)) \<and>
      cs' = fold (\<lambda>r. cb (rowid_to_tid (rw_id r)) (key (stored_tuple rel (row_of r)))) (unstamped (storage t)) cs) s"
    unfolding build_index_def
    by (rule wpB [OF holds_select_all [OF assms(1)]])
      (auto simp: wp_ret build_index_loop_spec [OF assms(2,3)] unstamped_rows [OF ok] fold_map o_def)
  then show ?thesis by (simp add: index_build_range_scan_def ret_def)
qed

theorem index_build_entries_witness:
  "wp (index_build_range_scan ref_host heap_slots (\<lambda>sl. t_len (ExecCopySlotHeapTuple heap_slots sl))
       (Some (\<lambda>tid k cs. cs @ [tid])) 16 (demo_slot []) []) (\<lambda>(n, cs') s'. n = 1 \<and> cs' = [rowid_to_tid 1])
     (demo_backend (demo_tab [demo_row 1 5 0 [1], demo_row 2 5 6 [3]]))"
proof -
  let ?rs = "[demo_row 1 5 0 [1], demo_row 2 5 6 [3]]"
  have ok: "rows_ok ?rs" by (simp add: rows_ok_def demo_row_def)
  have u: "unstamped ?rs = [demo_row 1 5 0 [1]]" by code_simp
  have i: "rw_id (demo_row 1 5 0 [1]) = 1" by (simp add: demo_row_def)
  from index_build_entries [OF demo_holds [OF ok] heap_slots.slot_laws_axioms, where key = t_len
      and form = "\<lambda>sl. t_len (ExecCopySlotHeapTuple heap_slots sl)" and cb = "\<lambda>tid k cs. cs @ [tid]"
      and cs = "[]" and sl = "demo_slot []"]
  show ?thesis by (auto simp: u i elim!: wp_mono)
qed



text \<open>
  C38. A speculative insertion that is cancelled leaves the table as it was.
\<close>

theorem speculative_cancel:
  assumes "holds h view up s rel t" and "length (copy_heap_tuple x sl) \<le> 1000000000"
    and "next_rowid (storage t) \<le> 2 ^ 40"
  shows "wp (bindE (tuple_insert_speculative h pg x rel sl cid tok) (\<lambda>sl'. tuple_complete_speculative h rel sl' False))
    (\<lambda>_ s'. holds h view up s' rel t \<and> alone h view up rel s s') s"
proof -
  have ok: "rows_ok (storage t)" using assms(1) by (simp add: holds_def)
  then have "rowid_ok (next_rowid (storage t))" using assms(3) next_rowid_pos by (auto simp: rowid_ok_def)
  note r = tid_to_rowid_to_tid [OF this]
  have n: "next_rowid (storage t) \<le> i64_max" using assms(3) by (simp add: i64_max_def)
  have del: "rows_delete (next_rowid (storage t)) (rows_insert x' c' b (storage t)) = storage t" for x' c' b
    by (rule delete_inserted)
  show ?thesis
    unfolding tuple_insert_speculative_def do_tuple_insert_def Let_def bindE_assoc bindE_ret
    by (rule wpB [OF holds_insert [OF assms(1,2) n]], elim exE conjE, simp add: tuple_complete_speculative_def
        set_inserted_tid_def r, rule wpB [OF holds_delete], assumption)
      (auto simp: wp_ret del intro: alone_trans)
qed

theorem speculative_cancel_witness:
  "wp (bindE (tuple_insert_speculative ref_host demo_pg heap_slots 16 (demo_slot [7]) 2 1)
       (\<lambda>sl'. tuple_complete_speculative ref_host 16 sl' False))
    (\<lambda>_ s'. holds ref_host rw_eng ref_up s' 16 (demo_tab [demo_row 1 5 0 [1]]))
   (demo_backend (demo_tab [demo_row 1 5 0 [1]]))"
proof -
  have ok: "rows_ok [demo_row 1 5 0 [1]]" by (simp add: rows_ok_def demo_row_def)
  show ?thesis
    by (rule wp_mono [OF speculative_cancel [OF demo_holds [OF ok]]]) (simp_all add: demo_copy next_rowid_def demo_row_def)
qed



text \<open>
  C40. The transaction flag is not kept in step when SQLite rolls a transaction back on its own
  (a full disk, an I/O error, lack of memory): with the flag still set, a truncation sends no
  \<open>BEGIN\<close>, is committed to the file by itself, and the abort that follows cannot undo it.
\<close>

theorem stale_flag_autocommits:
  assumes "sqlite_engine h view up" and "up (World s)" and "CONNS s rel = Some c" and "in_txn c"
    and "e_dbs (view (World s)) (rc_db c) = Some d" and "db_txn d = None" and "has_tables (db_tab d)" and "TX_RELS s = {rel}"
  shows "wp (reset h rel) (\<lambda>_ s1. e_files (view (World s1)) (db_path d) = Some ((db_tab d)\<lparr>storage := []\<rparr>) \<and>
    wp (on_abort h) (\<lambda>_ s2. TX_RELS s2 = {} \<and> e_files (view (World s2)) (db_path d) = Some ((db_tab d)\<lparr>storage := []\<rparr>)) s1) s"
  by (rule wp_mono [OF sqlite_engine.stale_clear [OF assms(1-7)]], elim conjE, intro conjI, simp,
      rule wp_mono [OF sqlite_engine.stale_abort [where d = "d\<lparr>db_tab := (db_tab d)\<lparr>storage := []\<rparr>\<rparr>", OF assms(1) _ _ assms(4)]])
    (use assms in auto)

theorem stale_flag_autocommits_witness:
  "\<exists>m s1. insert_row rollback_host 16 10 2 [7] (open_backend {16} (demo_tab [demo_row 1 5 0 [1]])) = Some (Panic m, s1) \<and>
     wp (reset ref_host 16) (\<lambda>_ s2. wp (on_abort ref_host) (\<lambda>_ s3.
       e_files (rw_eng (World s3)) (demo_file 16) = Some (demo_tab [])) s2) s1"
proof -
  let ?t = "demo_tab [demo_row 1 5 0 [1]]"
  have t: "has_tables (db_tab (demo_conn 16 ?t))" "db_txn (demo_conn 16 ?t) = None" by simp_all
  have e: "?t\<lparr>storage := []\<rparr> = demo_tab []" "db_path (demo_conn 16 ?t) = demo_file 16" by (simp_all add: demo_tab_def demo_conn_def)
  from rollback_run [of "[demo_row 1 5 0 [1]]"] obtain m s1 c where r: "insert_row rollback_host 16 10 2 [7] (open_backend {16} ?t) = Some (Panic m, s1)"
    "ref_up (World s1)" "CONNS s1 16 = Some c" "in_txn c" "e_dbs (rw_eng (World s1)) (rc_db c) = Some (demo_conn 16 ?t)" "TX_RELS s1 = {16}"
    by (auto split: option.splits prod.splits res.splits)
  from stale_flag_autocommits [OF ref.sqlite_engine_axioms r(2-5) t(2,1) r(6)] r(1) show ?thesis
    by (auto simp: e elim!: wp_mono)
qed

end
